(* ===== verification/Go_Prelude.thy ===== *)
theory Go_Prelude
  imports Main "HOL-Library.Sublist" "HOL-Library.Multiset" "HOL-Library.Code_Target_Nat"
begin

text \<open>
  The part of the Go language and of its standard library that the components share:
  results of calls that may fail or panic, calls that act on the outside world, slices and
  maps, and the functions of package \<open>strings\<close>. The lemmas are stated once here and
  collected in \<open>go_simps\<close> (rewrite rules), \<open>io_elims\<close> (inversion of calls that
  succeeded) and the simpset.
\<close>

named_theorems go_simps \<open>rewrite rules for slices, maps and strings\<close>
named_theorems io_elims \<open>inversion rules for successful calls\<close>

section \<open>Errors, panics and calls on the outside world\<close>

text \<open>
  The reasons by which the programs tell API errors apart
  (\<open>k8serrors.IsNotFound\<close>, \<open>k8serrors.IsAlreadyExists\<close>); every other error is
  only passed on.
\<close>

datatype go_error =
    NotFound
  | AlreadyExists
  | OtherError string

primrec IsNotFound :: "go_error \<Rightarrow> bool" where
  "IsNotFound NotFound = True"
| "IsNotFound AlreadyExists = False"
| "IsNotFound (OtherError m) = False"

primrec IsAlreadyExists :: "go_error \<Rightarrow> bool" where
  "IsAlreadyExists NotFound = False"
| "IsAlreadyExists AlreadyExists = True"
| "IsAlreadyExists (OtherError m) = False"

lemma IsNotFound_iff [simp]: "IsNotFound e \<longleftrightarrow> e = NotFound"
  by (cases e) auto

lemma IsAlreadyExists_iff [simp]: "IsAlreadyExists e \<longleftrightarrow> e = AlreadyExists"
  by (cases e) auto

datatype go_panic = NilPointerDereference | AssignmentToNilMap | IndexOutOfRange

text \<open>
  A Go function with results \<open>(T, error)\<close> returns a value, returns an error or panics.
\<close>

datatype 'a go_result = Ok 'a | Err go_error | Panic go_panic

primrec is_Ok :: "'a go_result \<Rightarrow> bool" where
  "is_Ok (Ok x) = True"
| "is_Ok (Err e) = False"
| "is_Ok (Panic p) = False"

lemma is_Ok_iff: "is_Ok r \<longleftrightarrow> (\<exists>x. r = Ok x)"
  by (cases r) auto

text \<open>A function that may end the process by \<open>os.Exit\<close>\<close>

datatype 'a process = Exits nat | Returns 'a

text \<open>
  A call that acts on the outside world (the API servers) takes the world and returns a
  result with the world it leaves behind.
\<close>

type_synonym ('w, 'a) io = "'w \<Rightarrow> 'a go_result \<times> 'w"

definition io_return :: "'a \<Rightarrow> ('w, 'a) io" where
  "io_return x = (\<lambda>w. (Ok x, w))"

definition io_bind :: "('w, 'a) io \<Rightarrow> ('a \<Rightarrow> ('w, 'b) io) \<Rightarrow> ('w, 'b) io" where
  "io_bind m f = (\<lambda>w. case m w of
     (Ok x, w') \<Rightarrow> f x w'
   | (Err e, w') \<Rightarrow> (Err e, w')
   | (Panic p, w') \<Rightarrow> (Panic p, w'))"

text \<open>
  \<open>io_handle m f g\<close> runs \<open>m\<close> and goes on with \<open>f\<close> or, where \<open>m\<close> returned an
  error, with \<open>g\<close>; a panic is not handled.
\<close>

definition io_handle ::
    "('w, 'a) io \<Rightarrow> ('a \<Rightarrow> ('w, 'b) io) \<Rightarrow> (go_error \<Rightarrow> ('w, 'b) io) \<Rightarrow> ('w, 'b) io" where
  "io_handle m f g = (\<lambda>w. case m w of
     (Ok x, w') \<Rightarrow> f x w'
   | (Err e, w') \<Rightarrow> g e w'
   | (Panic p, w') \<Rightarrow> (Panic p, w'))"

definition io_err :: "go_error \<Rightarrow> ('w, 'a) io" where
  "io_err e = (\<lambda>w. (Err e, w))"

text \<open>\<open>io_of r\<close> is a pure computation with result \<open>r\<close>.\<close>

definition io_of :: "'a go_result \<Rightarrow> ('w, 'a) io" where
  "io_of r = (\<lambda>w. (r, w))"

lemma io_return_Ok [simp]: "io_return x w = (r, w') \<longleftrightarrow> r = Ok x \<and> w' = w"
  by (auto simp: io_return_def)

lemma io_err_eq [simp]: "io_err e w = (r, w') \<longleftrightarrow> r = Err e \<and> w' = w"
  by (auto simp: io_err_def)

lemma io_of_eq [simp]: "io_of x w = (r, w') \<longleftrightarrow> r = x \<and> w' = w"
  by (auto simp: io_of_def)

lemma io_bind_OkE [io_elims]:
  assumes "io_bind m f w = (Ok y, w')"
  obtains x w1 where "m w = (Ok x, w1)" and "f x w1 = (Ok y, w')"
  using assms by (auto simp: io_bind_def split: prod.splits go_result.splits)

lemma io_bind_Ok_iff:
  "io_bind m f w = (Ok y, w') \<longleftrightarrow> (\<exists>x w1. m w = (Ok x, w1) \<and> f x w1 = (Ok y, w'))"
  by (auto simp: io_bind_def split: prod.splits go_result.splits)

lemma io_handle_cases [io_elims, consumes 1, case_names Ok Err Panic]:
  assumes "io_handle m f g w = (r, w')"
  obtains (Ok) x w1 where "m w = (Ok x, w1)" and "f x w1 = (r, w')"
    | (Err) e w1 where "m w = (Err e, w1)" and "g e w1 = (r, w')"
    | (Panic) p where "m w = (Panic p, w')" and "r = Panic p"
  using assms by (auto simp: io_handle_def split: prod.splits go_result.splits)

lemma io_bind_step [simp]:
  "m w = (Ok x, w1) \<Longrightarrow> io_bind m f w = f x w1"
  "m w = (Err e, w1) \<Longrightarrow> io_bind m f w = (Err e, w1)"
  "m w = (Panic p, w1) \<Longrightarrow> io_bind m f w = (Panic p, w1)"
  by (simp_all add: io_bind_def)

lemma io_handle_step [simp]:
  "m w = (Ok x, w1) \<Longrightarrow> io_handle m f g w = f x w1"
  "m w = (Err e, w1) \<Longrightarrow> io_handle m f g w = g e w1"
  "m w = (Panic p, w1) \<Longrightarrow> io_handle m f g w = (Panic p, w1)"
  by (simp_all add: io_handle_def)

text \<open>
  \<open>for _, x := range xs { if err := f(x); err != nil { return err } }\<close>
\<close>

primrec io_each :: "('a \<Rightarrow> ('w, unit) io) \<Rightarrow> 'a list \<Rightarrow> ('w, unit) io" where
  "io_each f [] = io_return ()"
| "io_each f (x # xs) = io_bind (f x) (\<lambda>_. io_each f xs)"

text \<open>
  A loop whose steps, where they succeed, act on an abstraction of the world as \<open>g\<close>, acts
  on it as the fold of \<open>g\<close>.
\<close>

lemma io_each_fold:
  assumes "\<And>x w w'. x \<in> set xs \<Longrightarrow> f x w = (Ok (), w') \<Longrightarrow> \<alpha> w' = g x (\<alpha> w)"
    and "io_each f xs w = (Ok (), w')"
  shows "\<alpha> w' = fold g xs (\<alpha> w)"
  using assms
proof (induction xs arbitrary: w)
  case (Cons x xs)
  from Cons.prems(2) obtain w1 where "f x w = (Ok (), w1)" and "io_each f xs w1 = (Ok (), w')"
    by (auto elim!: io_bind_OkE)
  moreover from this Cons.prems(1) have "\<alpha> w1 = g x (\<alpha> w)" by simp
  moreover from calculation Cons.prems(1) have "\<alpha> w' = fold g xs (\<alpha> w1)" by (intro Cons.IH) simp_all
  ultimately show ?case by (simp only: fold_simps)
qed simp

text \<open>A property of the elements visited so far and the world holds of all of them at the end.\<close>

lemma io_each_visited:
  assumes "\<And>x S w w'. x \<in> set xs \<Longrightarrow> I S w \<Longrightarrow> f x w = (Ok (), w') \<Longrightarrow> I (insert x S) w'"
    and "I S w" and "io_each f xs w = (Ok (), w')"
  shows "I (set xs \<union> S) w'"
  using assms
proof (induction xs arbitrary: S w)
  case (Cons x xs)
  from Cons.prems(3) obtain w1 where x: "f x w = (Ok (), w1)" and xs: "io_each f xs w1 = (Ok (), w')"
    by (auto elim!: io_bind_OkE)
  from Cons.prems(1) [OF _ Cons.prems(2) x] have "I (insert x S) w1" by simp
  from Cons.IH [OF Cons.prems(1) this xs] have "I (set xs \<union> insert x S) w'" by simp
  then show ?case by simp
qed simp

lemma io_each_no_panic:
  "(\<And>x w w'. x \<in> set xs \<Longrightarrow> f x w \<noteq> (Panic p, w')) \<Longrightarrow> io_each f xs w \<noteq> (Panic p, w')"
proof (induction xs arbitrary: w)
  case (Cons x xs)
  obtain r w1 where f: "f x w = (r, w1)" by fastforce
  with Cons.prems [of x] have "r \<noteq> Panic p" by auto
  with f Cons show ?case by (cases r) auto
qed simp

text \<open>
  An invariant of the world that every call keeps is kept by compositions of calls,
  whatever they return.
\<close>

definition io_keeps :: "('w \<Rightarrow> 'w \<Rightarrow> bool) \<Rightarrow> ('w, 'a) io \<Rightarrow> bool" where
  "io_keeps R m \<longleftrightarrow> (\<forall>w r w'. m w = (r, w') \<longrightarrow> R w w')"

lemma io_keepsI: "(\<And>w r w'. m w = (r, w') \<Longrightarrow> R w w') \<Longrightarrow> io_keeps R m"
  by (simp add: io_keeps_def)

lemma io_keepsD: "io_keeps R m \<Longrightarrow> m w = (r, w') \<Longrightarrow> R w w'"
  by (simp add: io_keeps_def)

lemma io_keeps_return [intro]: "reflp R \<Longrightarrow> io_keeps R (io_return x)"
  by (auto simp: io_keeps_def reflp_def)

lemma io_keeps_err [intro]: "reflp R \<Longrightarrow> io_keeps R (io_err e)"
  by (auto simp: io_keeps_def reflp_def)

lemma io_keeps_of [intro]: "reflp R \<Longrightarrow> io_keeps R (io_of r)"
  by (auto simp: io_keeps_def reflp_def)

lemma io_keeps_bind:
  assumes "transp R" and "io_keeps R m" and "\<And>x. io_keeps R (f x)"
  shows "io_keeps R (io_bind m f)"
proof (rule io_keepsI)
  fix w r w' assume eq: "io_bind m f w = (r, w')"
  obtain r1 w1 where m: "m w = (r1, w1)" by fastforce
  with assms(2) have R1: "R w w1" by (rule io_keepsD)
  show "R w w'"
  proof (cases r1)
    case (Ok x)
    with eq m have "f x w1 = (r, w')" by simp
    then have "R w1 w'" by (rule io_keepsD [OF assms(3)])
    with R1 show ?thesis by (rule transpD [OF assms(1)])
  qed (use eq m R1 in auto)
qed

lemma io_keeps_handle:
  assumes "transp R" and "io_keeps R m" and "\<And>x. io_keeps R (f x)" and "\<And>e. io_keeps R (g e)"
  shows "io_keeps R (io_handle m f g)"
proof (rule io_keepsI)
  fix w r w' assume "io_handle m f g w = (r, w')"
  then show "R w w'"
  proof (cases rule: io_handle_cases)
    case (Ok x w1)
    then show ?thesis using assms(2,3) by (blast intro: transpD [OF assms(1)] dest: io_keepsD)
  next
    case (Err e w1)
    then show ?thesis using assms(2,4) by (blast intro: transpD [OF assms(1)] dest: io_keepsD)
  next
    case (Panic p)
    then show ?thesis using assms(2) by (blast dest: io_keepsD)
  qed
qed

lemma io_keeps_each:
  assumes "reflp R" and "transp R" and "\<And>x. x \<in> set xs \<Longrightarrow> io_keeps R (f x)"
  shows "io_keeps R (io_each f xs)"
  using assms(3) by (induction xs) (auto intro!: io_keeps_bind assms(1,2) io_keeps_return)

section \<open>Slices\<close>

text \<open>
  A slice that may be \<open>nil\<close> is an option; ranging over \<open>nil\<close> visits nothing.
\<close>

definition elems :: "'a list option \<Rightarrow> 'a list" where
  "elems s = (case s of None \<Rightarrow> [] | Some xs \<Rightarrow> xs)"

lemma elems_simps [simp]: "elems None = []" "elems (Some xs) = xs"
  by (simp_all add: elems_def)

text \<open>\<open>for i, x := range xs { if P(x) { ...; break } }\<close>: the index at which the loop acts.\<close>

fun firstIndex :: "('a \<Rightarrow> bool) \<Rightarrow> 'a list \<Rightarrow> nat option" where
  "firstIndex P [] = None"
| "firstIndex P (x # xs) = (if P x then Some 0 else map_option Suc (firstIndex P xs))"

text \<open>\<open>append(xs[:i], xs[i+1:]...)\<close>\<close>

definition removeAt :: "nat \<Rightarrow> 'a list \<Rightarrow> 'a list" where
  "removeAt i xs = take i xs @ drop (Suc i) xs"

lemma firstIndex_None: "firstIndex P xs = None \<longleftrightarrow> (\<forall>x\<in>set xs. \<not> P x)"
  by (induction xs) auto

lemma firstIndex_SomeE:
  assumes "firstIndex P xs = Some i"
  obtains ys x zs where "xs = ys @ x # zs" and "length ys = i" and "P x" and "\<forall>y\<in>set ys. \<not> P y"
  using assms
proof (induction xs arbitrary: i thesis)
  case Nil
  then show ?case by simp
next
  case (Cons a xs)
  show ?case
  proof (cases "P a")
    case True
    with Cons.prems(2) show ?thesis by (intro Cons.prems(1)[of "[]" a xs]) auto
  next
    case False
    with Cons.prems(2) obtain j where j: "firstIndex P xs = Some j" and i: "i = Suc j" by auto
    show ?thesis
    proof (rule Cons.IH [OF _ j])
      fix ys x zs
      assume "xs = ys @ x # zs" and "length ys = j" and "P x" and "\<forall>y\<in>set ys. \<not> P y"
      with False i show ?thesis by (intro Cons.prems(1)[of "a # ys" x zs]) auto
    qed
  qed
qed

lemma notin_Nil: "(\<And>x. x \<notin> set xs) \<Longrightarrow> xs = []"
  by (cases xs) auto

lemma removeAt_append [simp]: "removeAt (length ys) (ys @ x # zs) = ys @ zs"
  by (simp add: removeAt_def)

lemma distinct_singleton:
  assumes "distinct xs" and "set xs = {x}"
  shows "xs = [x]"
proof (cases xs)
  case (Cons a ys)
  with assms have "a = x" and "set ys \<subseteq> {x}" and "x \<notin> set ys" by auto
  then have "ys = []" by (cases ys) auto
  with Cons \<open>a = x\<close> show ?thesis by simp
qed (use assms in simp)

section \<open>Maps\<close>

text \<open>Reading a missing key of a map of slices yields the \<open>nil\<close> slice.\<close>

definition mapGet :: "('k \<rightharpoonup> 'v list) \<Rightarrow> 'k \<Rightarrow> 'v list" where
  "mapGet m k = (case m k of None \<Rightarrow> [] | Some xs \<Rightarrow> xs)"

lemma mapGet_simps [simp]:
  "m k = None \<Longrightarrow> mapGet m k = []"
  "m k = Some xs \<Longrightarrow> mapGet m k = xs"
  "mapGet (m(k \<mapsto> xs)) k = xs"
  "mapGet (m(k := None)) k = []"
  "k \<noteq> k' \<Longrightarrow> mapGet (m(k := v)) k' = mapGet m k'"
  by (simp_all add: mapGet_def)

text \<open>
  A map of strings that may be \<open>nil\<close> (annotations, labels, the data of a ConfigMap);
  reading a missing key or the \<open>nil\<close> map yields the empty string.
\<close>

type_synonym string_map = "(string \<rightharpoonup> string) option"

definition smLookup :: "string_map \<Rightarrow> string \<Rightarrow> string option" where
  "smLookup m k = (case m of None \<Rightarrow> None | Some f \<Rightarrow> f k)"

definition smGet :: "string_map \<Rightarrow> string \<Rightarrow> string" where
  "smGet m k = (case smLookup m k of None \<Rightarrow> '''' | Some v \<Rightarrow> v)"

lemma smLookup_simps [simp]: "smLookup None k = None" "smLookup (Some f) k = f k"
  by (simp_all add: smLookup_def)

lemma smGet_Some [simp]: "smLookup m k = Some v \<Longrightarrow> smGet m k = v"
  by (simp add: smGet_def)

text \<open>
  A map that the code ranges over is kept as its list of key-value pairs, keys distinct.
  The order in which \<open>range\<close> visits it is not specified; the components take it as a
  parameter.
\<close>

fun mapPut :: "'k \<Rightarrow> 'v \<Rightarrow> ('k \<times> 'v) list \<Rightarrow> ('k \<times> 'v) list" where
  "mapPut k v [] = [(k, v)]"
| "mapPut k v ((k', v') # m) = (if k = k' then (k, v) # m else (k', v') # mapPut k v m)"

lemma map_of_mapPut [simp]: "map_of (mapPut k v m) = (map_of m)(k \<mapsto> v)"
  by (induction m) (auto simp: fun_eq_iff)

lemma keys_mapPut [simp]: "fst ` set (mapPut k v m) = insert k (fst ` set m)"
  by (induction k v m rule: mapPut.induct) auto

lemma distinct_mapPut [simp]: "distinct (map fst m) \<Longrightarrow> distinct (map fst (mapPut k v m))"
proof (induction m)
  case (Cons kv m)
  obtain k' v' where kv: "kv = (k', v')" by (cases kv)
  from keys_mapPut have "set (map fst (mapPut k v m)) = insert k (set (map fst m))"
    by (metis list.set_map)
  with Cons kv show ?case by (auto simp del: set_map)
qed simp

text \<open>Filling a map in a loop: later elements win.\<close>

definition mapOfList :: "('a \<Rightarrow> 'k) \<Rightarrow> 'a list \<Rightarrow> ('k \<times> 'a) list" where
  "mapOfList key xs = fold (\<lambda>x m. mapPut (key x) x m) xs []"

lemma fold_mapPut:
  "map_of (fold (\<lambda>x m. mapPut (key x) x m) xs m0)
     = map_of m0 ++ map_of (rev (map (\<lambda>x. (key x, x)) xs))"
  by (induction xs arbitrary: m0) (auto simp: map_add_def fun_eq_iff split: option.splits)

lemma map_of_mapOfList [go_simps]:
  "map_of (mapOfList key xs) = map_of (rev (map (\<lambda>x. (key x, x)) xs))"
  by (simp add: mapOfList_def fold_mapPut)

lemma distinct_mapOfList [simp]: "distinct (map fst (mapOfList key xs))"
proof -
  have "distinct (map fst m0) \<Longrightarrow> distinct (map fst (fold (\<lambda>x m. mapPut (key x) x m) xs m0))" for m0
    by (induction xs arbitrary: m0) auto
  then show ?thesis by (simp add: mapOfList_def)
qed

lemma map_of_mapOfList_SomeD:
  assumes "map_of (mapOfList key xs) k = Some x"
  shows "x \<in> set xs \<and> key x = k"
proof -
  from assms have "(k, x) \<in> set (rev (map (\<lambda>x. (key x, x)) xs))"
    unfolding map_of_mapOfList by (rule map_of_SomeD)
  then show ?thesis by auto
qed

lemma map_of_mapOfList_None [simp]:
  "map_of (mapOfList key xs) k = None \<longleftrightarrow> k \<notin> key ` set xs"
  by (auto simp: map_of_mapOfList map_of_eq_None_iff image_iff)

lemma map_of_mapOfList_inj:
  assumes "inj_on key (set xs)"
  shows "map_of (mapOfList key xs) k = Some x \<longleftrightarrow> x \<in> set xs \<and> key x = k"
proof
  assume "x \<in> set xs \<and> key x = k"
  then obtain y where y: "map_of (mapOfList key xs) k = Some y"
    using map_of_mapOfList_None [of key xs k] by (cases "map_of (mapOfList key xs) k") auto
  with map_of_mapOfList_SomeD [OF y] assms \<open>x \<in> set xs \<and> key x = k\<close>
  show "map_of (mapOfList key xs) k = Some x" by (auto dest: inj_onD)
qed (rule map_of_mapOfList_SomeD)

text \<open>Updating a map for each element of a list with distinct keys: the order does not matter.\<close>

definition updAt :: "('a \<Rightarrow> 'k) \<Rightarrow> ('a \<Rightarrow> 'v option \<Rightarrow> 'v option) \<Rightarrow> 'a \<Rightarrow> ('k \<rightharpoonup> 'v) \<Rightarrow> ('k \<rightharpoonup> 'v)" where
  "updAt key g x m = m(key x := g x (m (key x)))"

lemma updAt_simps [simp]:
  "updAt key g x m (key x) = g x (m (key x))"
  "k \<noteq> key x \<Longrightarrow> updAt key g x m k = m k"
  by (simp_all add: updAt_def)

lemma fold_upd_out: "k \<notin> key ` set xs \<Longrightarrow> fold (updAt key g) xs m k = m k"
  by (induction xs arbitrary: m) auto

lemma fold_upd_in:
  "distinct (map key xs) \<Longrightarrow> x \<in> set xs \<Longrightarrow> fold (updAt key g) xs m (key x) = g x (m (key x))"
proof (induction xs arbitrary: m)
  case (Cons y ys)
  show ?case
  proof (cases "x = y")
    case True
    with Cons.prems(1) show ?thesis by (simp add: fold_upd_out)
  next
    case False
    with Cons.prems have "x \<in> set ys" and "key x \<noteq> key y" by (auto simp: image_iff)
    with Cons show ?thesis by simp
  qed
qed simp

lemma fold_upd_dom:
  assumes "\<And>x v. g x v \<noteq> None"
  shows "m k \<noteq> None \<Longrightarrow> fold (updAt key g) xs m k \<noteq> None"
  using assms by (induction xs arbitrary: m) (auto simp: updAt_def)

lemma find_SomeD: "find P xs = Some x \<Longrightarrow> x \<in> set xs \<and> P x"
  by (induction xs) (auto split: if_splits)

lemma map_of_keyed: "map_of (map (\<lambda>x. (key x, x)) xs) k = find (\<lambda>x. key x = k) xs"
  by (induction xs) auto

lemma set_map_filter_eq: "set (List.map_filter f xs) = {y. \<exists>x\<in>set xs. f x = Some y}"
  by (induction xs) (auto simp: List.map_filter_simps split: option.splits)

lemma distinct_map_filter:
  assumes "distinct (map fst kvs)" and "\<And>kv y. kv \<in> set kvs \<Longrightarrow> f kv = Some y \<Longrightarrow> h (key y) = fst kv"
  shows "distinct (map key (List.map_filter f kvs))"
  using assms
proof (induction kvs)
  case (Cons kv kvs)
  show ?case
  proof (cases "f kv")
    case (Some y)
    have "key z \<noteq> key y" if "z \<in> set (List.map_filter f kvs)" for z
    proof
      assume "key z = key y"
      from that obtain kv' where "kv' \<in> set kvs" and "f kv' = Some z" by (auto simp: set_map_filter_eq)
      with Cons.prems(2) [of kv' z] Cons.prems(2) [of kv y] Some \<open>key z = key y\<close>
      have "fst kv = fst kv'" by simp
      with \<open>kv' \<in> set kvs\<close> Cons.prems(1) show False by auto
    qed
    then have "key y \<notin> key ` set (List.map_filter f kvs)" by (metis imageE)
    with Cons Some show ?thesis by (simp add: List.map_filter_simps)
  qed (use Cons in \<open>simp add: List.map_filter_simps\<close>)
qed (simp add: List.map_filter_simps)

section \<open>Strings\<close>

text \<open>
  A Go string is a sequence of bytes. \<open>strings.ToLower\<close> is modelled on ASCII bytes: the
  names it is applied to come out of DNS messages, in which the library writes every other
  byte as an escape.
\<close>

definition lower_char :: "char \<Rightarrow> char" where
  "lower_char c = (let n = (of_char c :: nat) in if 65 \<le> n \<and> n \<le> 90 then char_of (n + 32) else c)"

definition strings_ToLower :: "string \<Rightarrow> string" where
  "strings_ToLower s = map lower_char s"

lemma of_char_lower: "(of_char (lower_char c) :: nat)
    = (if 65 \<le> (of_char c :: nat) \<and> (of_char c :: nat) \<le> 90 then of_char c + 32 else of_char c)"
  by (auto simp: lower_char_def Let_def)

lemma lower_char_idem [simp]: "lower_char (lower_char c) = lower_char c"
proof -
  have "(of_char (lower_char (lower_char c)) :: nat) = of_char (lower_char c)"
    unfolding of_char_lower by simp
  then show ?thesis by (simp only: of_char_eq_iff)
qed

lemma lower_char_no_upper: "lower_char c = d \<Longrightarrow> (of_char d :: nat) < 65 \<Longrightarrow> c = d"
  by (auto simp: lower_char_def Let_def split: if_splits)

lemma lower_char_dot [simp]: "lower_char c = CHR ''.'' \<longleftrightarrow> c = CHR ''.''"
proof
  assume "lower_char c = CHR ''.''"
  then show "c = CHR ''.''" by (rule lower_char_no_upper) simp
qed (simp add: lower_char_def)

lemma ToLower_idem [simp]: "strings_ToLower (strings_ToLower s) = strings_ToLower s"
  by (simp add: strings_ToLower_def)

lemma ToLower_append [simp]: "strings_ToLower (s @ t) = strings_ToLower s @ strings_ToLower t"
  by (simp add: strings_ToLower_def)

lemma ToLower_Nil [simp]: "strings_ToLower [] = []" "strings_ToLower s = [] \<longleftrightarrow> s = []"
  by (simp_all add: strings_ToLower_def)

text \<open>\<open>strings.Join\<close>\<close>

fun strings_Join :: "string list \<Rightarrow> string \<Rightarrow> string" where
  "strings_Join [] sep = ''''"
| "strings_Join [x] sep = x"
| "strings_Join (x # y # ys) sep = x @ sep @ strings_Join (y # ys) sep"

lemma Join_Cons: "xs \<noteq> [] \<Longrightarrow> strings_Join (x # xs) sep = x @ sep @ strings_Join xs sep"
  by (cases xs) auto

lemma Join_append:
  "xs \<noteq> [] \<Longrightarrow> ys \<noteq> [] \<Longrightarrow>
     strings_Join (xs @ ys) sep = strings_Join xs sep @ sep @ strings_Join ys sep"
  by (induction xs sep rule: strings_Join.induct) (auto simp: Join_Cons)

lemma ToLower_Join:
  "strings_ToLower (strings_Join xs sep) = strings_Join (map strings_ToLower xs) (strings_ToLower sep)"
  by (induction xs sep rule: strings_Join.induct) auto

text \<open>\<open>strings.Split(s, sep)\<close> for a separator of one character\<close>

fun strings_Split :: "string \<Rightarrow> char \<Rightarrow> string list" where
  "strings_Split [] c = [[]]"
| "strings_Split (x # xs) c =
     (if x = c then [] # strings_Split xs c
      else case strings_Split xs c of [] \<Rightarrow> [[x]] | y # ys \<Rightarrow> (x # y) # ys)"

lemma Split_nonempty [simp]: "strings_Split s c \<noteq> []"
  by (induction s c rule: strings_Split.induct) (auto split: list.splits)

lemma Split_no_sep: "c \<notin> set s \<Longrightarrow> strings_Split s c = [s]"
  by (induction s c rule: strings_Split.induct) auto

lemma Split_append: "c \<notin> set s \<Longrightarrow> strings_Split (s @ c # t) c = s # strings_Split t c"
  by (induction s) (auto split: list.splits)

lemma Split_parts: "p \<in> set (strings_Split s c) \<Longrightarrow> c \<notin> set p"
  by (induction s c arbitrary: p rule: strings_Split.induct)
     (auto split: list.splits if_splits)

lemma Join_Split: "strings_Join (strings_Split s c) [c] = s"
proof (induction s c rule: strings_Split.induct)
  case (2 x xs c)
  show ?case
  proof (cases "x = c")
    case True
    with 2 show ?thesis by (simp add: Join_Cons)
  next
    case False
    then obtain y ys where y: "strings_Split xs c = y # ys"
      by (meson Split_nonempty list.exhaust)
    with 2 False have "strings_Join (y # ys) [c] = xs" by simp
    with y False show ?thesis by (cases ys) auto
  qed
qed simp

lemma Split_Join:
  "xs \<noteq> [] \<Longrightarrow> \<forall>x\<in>set xs. c \<notin> set x \<Longrightarrow> strings_Split (strings_Join xs [c]) c = xs"
proof (induction xs)
  case (Cons x xs)
  then show ?case
    by (cases xs) (auto simp: Split_no_sep Split_append)
qed simp

text \<open>\<open>strings.Contains\<close> and \<open>strings.TrimSpace\<close>\<close>

definition strings_Contains :: "string \<Rightarrow> string \<Rightarrow> bool" where
  "strings_Contains s t = sublist t s"

lemma Contains_append [simp]: "strings_Contains (s @ t @ u) t"
  by (auto simp: strings_Contains_def sublist_def)

text \<open>
  The white space of \<open>unicode.IsSpace\<close>, as the UTF-8 encodings of its code points: the six
  ASCII characters, U+0085, U+00A0, U+1680, U+2000 to U+200A, U+2028, U+2029, U+202F, U+205F
  and U+3000.
\<close>

definition space_runes :: "string list" where
  "space_runes =
     map (\<lambda>n. [char_of n]) [9::nat, 10, 11, 12, 13, 32]
   @ map (map char_of) [[0xC2::nat, 0x85], [0xC2, 0xA0], [0xE1, 0x9A, 0x80]]
   @ map (\<lambda>n. map char_of [0xE2::nat, 0x80, n]) ([0x80..<0x8B] @ [0xA8, 0xA9, 0xAF])
   @ map (map char_of) [[0xE2::nat, 0x81, 0x9F], [0xE3, 0x80, 0x80]]"

function trimPrefixes :: "string list \<Rightarrow> string \<Rightarrow> string" where
  "trimPrefixes rs s =
     (case find (\<lambda>r. r \<noteq> [] \<and> prefix r s) rs of
        None \<Rightarrow> s
      | Some r \<Rightarrow> trimPrefixes rs (drop (length r) s))"
  by pat_completeness auto
termination
proof (relation "measure (\<lambda>(rs, s). length s)", goal_cases)
  case (2 rs s r)
  then have "r \<noteq> []" and "prefix r s" by (auto simp: find_Some_iff)
  then show ?case by (auto simp: prefix_def)
qed simp

declare trimPrefixes.simps [simp del]

definition strings_TrimSpace :: "string \<Rightarrow> string" where
  "strings_TrimSpace s =
     rev (trimPrefixes (map rev space_runes) (rev (trimPrefixes space_runes s)))"

lemma trimPrefixes_suffix: "suffix (trimPrefixes rs s) s"
proof (induction rs s rule: trimPrefixes.induct)
  case (1 rs s)
  show ?case
  proof (cases "find (\<lambda>r. r \<noteq> [] \<and> prefix r s) rs")
    case None
    then show ?thesis by (simp add: trimPrefixes.simps [of rs s])
  next
    case (Some r)
    with 1 have "suffix (trimPrefixes rs (drop (length r) s)) (drop (length r) s)" by simp
    with Some show ?thesis
      by (simp add: trimPrefixes.simps [of rs s]) (meson suffix_drop suffix_order.trans)
  qed
qed

lemma trimPrefixes_stop: "r \<in> set rs \<Longrightarrow> r \<noteq> [] \<Longrightarrow> \<not> prefix r (trimPrefixes rs s)"
proof (induction rs s rule: trimPrefixes.induct)
  case (1 rs s)
  show ?case
  proof (cases "find (\<lambda>r. r \<noteq> [] \<and> prefix r s) rs")
    case None
    then have "trimPrefixes rs s = s" by (simp add: trimPrefixes.simps [of rs s])
    with None 1(2,3) show ?thesis by (auto simp: find_None_iff)
  next
    case (Some r')
    with 1 show ?thesis by (simp add: trimPrefixes.simps [of rs s])
  qed
qed

lemma trimPrefixes_id: "(\<And>r. r \<in> set rs \<Longrightarrow> r \<noteq> [] \<Longrightarrow> \<not> prefix r s) \<Longrightarrow> trimPrefixes rs s = s"
  by (subst trimPrefixes.simps) (auto split: option.splits simp: find_Some_iff)

lemma TrimSpace_sublist: "sublist (strings_TrimSpace s) s"
proof -
  let ?t = "trimPrefixes space_runes s"
  have "suffix (trimPrefixes (map rev space_runes) (rev ?t)) (rev ?t)"
    by (rule trimPrefixes_suffix)
  then have "prefix (strings_TrimSpace s) ?t"
    by (simp add: strings_TrimSpace_def suffix_to_prefix)
  with trimPrefixes_suffix [of space_runes s] show ?thesis
    by (meson prefix_imp_sublist sublist_order.order_trans suffix_imp_sublist)
qed

end
