(* ===== verification/Net_IP.thy ===== *)
theory Net_IP
  imports Go_Prelude
begin

text \<open>
  The textual IP addresses of Go's package \<open>net\<close>, as the DNS cache and the controllers use
  them: \<open>net.ParseIP\<close> (IPv4 in dotted decimal without leading zeros, IPv6 with at most one
  ellipsis and an optional dotted tail) and \<open>IP.String\<close> (dotted decimal for addresses that
  fit IPv4, otherwise groups of hexadecimal digits with the first longest run of at least two
  zero groups written as an ellipsis). An address is its sixteen bytes. The result is that
  every address parses back from its own text, so what the controllers store in the cache is
  again an address to \<open>net.ParseIP\<close>.
\<close>

section \<open>Numbers\<close>

definition big :: nat where
  "big = 0xFFFFFF"

definition digit_val :: "char \<Rightarrow> nat option" where
  "digit_val c = (let n = (of_char c :: nat) in if 48 \<le> n \<and> n \<le> 57 then Some (n - 48) else None)"

definition hex_val :: "char \<Rightarrow> nat option" where
  "hex_val c = (let n = (of_char c :: nat) in
     if 48 \<le> n \<and> n \<le> 57 then Some (n - 48)
     else if 97 \<le> n \<and> n \<le> 102 then Some (n - 87)
     else if 65 \<le> n \<and> n \<le> 70 then Some (n - 55)
     else None)"

text \<open>
  \<open>dtoi\<close> and \<open>xtoi\<close> read the longest run of digits and return its value and its
  length; they fail where there is no digit or the value gets too big.
\<close>

fun scan :: "(char \<Rightarrow> nat option) \<Rightarrow> nat \<Rightarrow> nat \<Rightarrow> nat \<Rightarrow> string \<Rightarrow> (nat \<times> nat) option" where
  "scan val base n i [] = Some (n, i)"
| "scan val base n i (c # s) =
     (case val c of
        None \<Rightarrow> Some (n, i)
      | Some d \<Rightarrow> if n * base + d \<ge> big then None else scan val base (n * base + d) (Suc i) s)"

definition toi :: "(char \<Rightarrow> nat option) \<Rightarrow> nat \<Rightarrow> string \<Rightarrow> (nat \<times> nat) option" where
  "toi val base s =
     (case scan val base 0 0 s of
        None \<Rightarrow> None
      | Some (n, i) \<Rightarrow> if i = 0 then None else Some (n, i))"

definition dtoi :: "string \<Rightarrow> (nat \<times> nat) option" where
  "dtoi = toi digit_val 10"

definition xtoi :: "string \<Rightarrow> (nat \<times> nat) option" where
  "xtoi = toi hex_val 16"

text \<open>The digits of a number, without leading zeros.\<close>

definition digit_char :: "nat \<Rightarrow> char" where
  "digit_char d = (if d < 10 then char_of (48 + d) else char_of (87 + d))"

fun digits :: "nat \<Rightarrow> nat \<Rightarrow> string" where
  "digits base n =
     (if n < base \<or> base < 2 then [digit_char n] else digits base (n div base) @ [digit_char (n mod base)])"

declare digits.simps [simp del]

section \<open>Parsing\<close>

type_synonym ip = "nat list"

definition v4prefix :: ip where
  "v4prefix = replicate 10 0 @ [255, 255]"

definition octet :: "string \<Rightarrow> (nat \<times> string) option" where
  "octet s =
     (case dtoi s of
        None \<Rightarrow> None
      | Some (n, c) \<Rightarrow>
          if n > 0xFF then None
          else if c > 1 \<and> hd s = CHR ''0'' then None
          else Some (n mod 256, drop c s))"

fun parseOctets :: "nat \<Rightarrow> bool \<Rightarrow> string \<Rightarrow> nat list option" where
  "parseOctets 0 first s = (if s = [] then Some [] else None)"
| "parseOctets (Suc k) first s =
     (if s = [] then None
      else if \<not> first \<and> hd s \<noteq> CHR ''.'' then None
      else case octet (if first then s else tl s) of
             None \<Rightarrow> None
           | Some (b, s') \<Rightarrow> map_option (Cons b) (parseOctets k False s'))"

definition parseIPv4 :: "string \<Rightarrow> ip option" where
  "parseIPv4 s = map_option (append v4prefix) (parseOctets 4 True s)"

text \<open>
  The loop of \<open>parseIPv6\<close>: \<open>k\<close> groups may still be read, \<open>acc\<close> holds the bytes
  read so far and \<open>ell\<close> the position of the ellipsis.
\<close>

fun parse6_loop ::
    "nat \<Rightarrow> string \<Rightarrow> nat list \<Rightarrow> nat option \<Rightarrow> (nat list \<times> nat option \<times> string) option" where
  "parse6_loop 0 s acc ell = Some (acc, ell, s)"
| "parse6_loop (Suc k) s acc ell =
     (case xtoi s of
        None \<Rightarrow> None
      | Some (n, c) \<Rightarrow>
          if n > 0xFFFF then None
          else if c < length s \<and> s ! c = CHR ''.'' then
            if ell = None \<and> length acc \<noteq> 12 then None
            else if length acc + 4 > 16 then None
            else map_option (\<lambda>ip4. (acc @ drop 12 ip4, ell, [])) (parseIPv4 s)
          else
            (let acc' = acc @ [n div 256, n mod 256]; s1 = drop c s in
             if s1 = [] then Some (acc', ell, [])
             else if hd s1 \<noteq> CHR '':'' \<or> length s1 = 1 then None
             else if hd (tl s1) = CHR '':'' then
               if ell \<noteq> None then None
               else if tl (tl s1) = [] then Some (acc', Some (length acc'), [])
               else parse6_loop k (tl (tl s1)) acc' (Some (length acc'))
             else parse6_loop k (tl s1) acc' ell))"

definition parse6_finish :: "nat list \<times> nat option \<times> string \<Rightarrow> ip option" where
  "parse6_finish = (\<lambda>(acc, ell, s).
     if s \<noteq> [] then None
     else if length acc < 16 then
       (case ell of
          None \<Rightarrow> None
        | Some e \<Rightarrow> Some (take e acc @ replicate (16 - length acc) 0 @ drop e acc))
     else if ell \<noteq> None then None
     else Some acc)"

definition parseIPv6 :: "string \<Rightarrow> ip option" where
  "parseIPv6 s =
     (if take 2 s = ''::'' then
        if drop 2 s = [] then Some (replicate 16 0)
        else Option.bind (parse6_loop 8 (drop 2 s) [] (Some 0)) parse6_finish
      else Option.bind (parse6_loop 8 s [] None) parse6_finish)"

definition ParseIP :: "string \<Rightarrow> ip option" where
  "ParseIP s =
     (case find (\<lambda>c. c = CHR ''.'' \<or> c = CHR '':'') s of
        None \<Rightarrow> None
      | Some c \<Rightarrow> if c = CHR ''.'' then parseIPv4 s else parseIPv6 s)"

section \<open>Printing\<close>

definition To4 :: "ip \<Rightarrow> nat list option" where
  "To4 ip = (if length ip = 4 then Some ip
     else if length ip = 16 \<and> take 12 ip = v4prefix then Some (drop 12 ip) else None)"

text \<open>The sixteen-bit groups of an address, and back.\<close>

fun groups :: "nat list \<Rightarrow> nat list" where
  "groups (a # b # bs) = (a * 256 + b) # groups bs"
| "groups bs = []"

definition bytes :: "nat list \<Rightarrow> nat list" where
  "bytes gs = concat (map (\<lambda>g. [g div 256, g mod 256]) gs)"

fun findRun :: "nat \<Rightarrow> nat list \<Rightarrow> nat \<times> nat \<Rightarrow> nat \<times> nat" where
  "findRun i [] best = best"
| "findRun i (g # gs) best =
     (let r = length (takeWhile ((=) 0) (g # gs)) in
      if r > snd best then findRun (i + r + 1) (drop r gs) (i, r)
      else findRun (Suc i) gs best)"

definition ip_String :: "ip \<Rightarrow> string" where
  "ip_String ip =
     (case To4 ip of
        Some p4 \<Rightarrow> strings_Join (map (digits 10) p4) ''.''
      | None \<Rightarrow>
          (let gs = groups ip; (e, n) = findRun 0 gs (0, 0) in
           if n \<le> 1 then strings_Join (map (digits 16) gs) '':''
           else strings_Join (map (digits 16) (take e gs)) '':'' @ ''::''
                @ strings_Join (map (digits 16) (drop (e + n) gs)) '':''))"

definition is_ip :: "ip \<Rightarrow> bool" where
  "is_ip ip \<longleftrightarrow> length ip = 16 \<and> (\<forall>b\<in>set ip. b < 256)"

section \<open>Reading back a printed number\<close>

lemma of_char_digit: "d < 16 \<Longrightarrow> (of_char (digit_char d) :: nat) = (if d < 10 then 48 + d else 87 + d)"
  by (simp add: digit_char_def)

lemma digit_val_char [simp]: "d < 10 \<Longrightarrow> digit_val (digit_char d) = Some d"
  by (simp add: digit_val_def of_char_digit)

lemma hex_val_char [simp]: "d < 16 \<Longrightarrow> hex_val (digit_char d) = Some d"
  by (simp add: hex_val_def of_char_digit)

lemma hex_val_less: "hex_val c = Some d \<Longrightarrow> d < 16"
  by (auto simp: hex_val_def Let_def split: if_splits)

lemma digit_val_specials [simp]:
  "digit_val CHR ''.'' = None" "hex_val CHR ''.'' = None" "hex_val CHR '':'' = None"
  by (simp_all add: digit_val_def hex_val_def)

lemma digits_nonempty [simp]: "digits b n \<noteq> []"
  by (subst digits.simps) simp

lemma digits_one: "n < b \<Longrightarrow> digits b n = [digit_char n]"
  by (simp add: digits.simps [of b n])

lemma digits_more:
  "1 < b \<Longrightarrow> b \<le> n \<Longrightarrow> digits b n = digits b (n div b) @ [digit_char (n mod b)]"
  by (simp add: digits.simps [of b n])

lemma digits_cases_induct [consumes 1, case_names one more]:
  assumes "1 < b" and "\<And>n. n < b \<Longrightarrow> P n" and "\<And>n. b \<le> n \<Longrightarrow> P (n div b) \<Longrightarrow> P n"
  shows "P (n :: nat)"
proof (induction n rule: less_induct)
  case (less n)
  show ?case
  proof (cases "n < b")
    case False
    with assms(1) have "n div b < n" by (intro div_less_dividend) auto
    with less assms(3) False show ?thesis by simp
  qed (rule assms(2))
qed

lemma digits_chars:
  assumes "1 < b" and "c \<in> set (digits b n)"
  shows "\<exists>d<b. c = digit_char d"
  using assms
proof (induction n rule: digits_cases_induct)
  case (one n)
  then show ?case by (auto simp: digits_one)
next
  case (more n)
  have "n mod b < b" using assms(1) by simp
  moreover from more assms(1) have "c \<in> set (digits b (n div b)) \<or> c = digit_char (n mod b)"
    by (auto simp: digits_more)
  ultimately show ?case using more by auto
qed

text \<open>A reader of base \<open>b\<close>: it knows the digits that \<open>digits\<close> writes.\<close>

locale numeral_reader =
  fixes val :: "char \<Rightarrow> nat option" and base :: nat
  assumes base: "1 < base"
    and val_digit: "d < base \<Longrightarrow> val (digit_char d) = Some d"
begin

definition stops :: "string \<Rightarrow> bool" where
  "stops t \<longleftrightarrow> (case t of [] \<Rightarrow> True | c # _ \<Rightarrow> val c = None)"

lemma scan_stops: "stops t \<Longrightarrow> scan val base n i t = Some (n, i)"
  by (cases t) (auto simp: stops_def)

lemma scan_digits:
  assumes "m * base ^ length (digits base n) + n < big"
  shows "scan val base m i (digits base n @ t)
           = scan val base (m * base ^ length (digits base n) + n) (i + length (digits base n)) t"
  using base assms
proof (induction n arbitrary: m i t rule: digits_cases_induct)
  case (one n)
  then show ?case by (simp add: digits_one val_digit)
next
  case (more n)
  let ?ds = "digits base (n div base)"
  let ?m = "m * base ^ length ?ds + n div base"
  have ds: "digits base n = ?ds @ [digit_char (n mod base)]"
    using base more by (simp add: digits_more)
  have n: "m * base ^ Suc (length ?ds) + n = ?m * base + n mod base"
    by (simp add: algebra_simps)
  with more.prems ds have lt: "?m * base + n mod base < big" by simp
  moreover have "?m \<le> ?m * base + n mod base" using base by (simp add: trans_le_add1)
  ultimately have "?m < big" by linarith
  with more.IH have
    "scan val base m i (?ds @ [digit_char (n mod base)] @ t)
       = scan val base ?m (i + length ?ds) ([digit_char (n mod base)] @ t)"
    by blast
  also have "\<dots> = scan val base (m * base ^ Suc (length ?ds) + n) (i + Suc (length ?ds)) t"
    using lt base n by (simp add: val_digit)
  finally show ?case by (simp add: ds)
qed

lemma toi_digits:
  assumes "n < big" and "stops t"
  shows "toi val base (digits base n @ t) = Some (n, length (digits base n))"
proof -
  have "scan val base 0 0 (digits base n @ t) = scan val base n (length (digits base n)) t"
    using scan_digits [of 0 n 0 t] assms(1) by simp
  then show ?thesis using scan_stops [OF assms(2)] by (simp add: toi_def)
qed

end

interpretation dec: numeral_reader digit_val 10
  by unfold_locales auto

interpretation hex: numeral_reader hex_val 16
  by unfold_locales auto

lemma stops_simps [simp]:
  "dec.stops []" "hex.stops []" "dec.stops (CHR ''.'' # t)" "hex.stops (CHR '':'' # t)"
  by (simp_all add: dec.stops_def hex.stops_def)

lemmas dtoi_digits = dec.toi_digits [folded dtoi_def]
lemmas xtoi_digits = hex.toi_digits [folded xtoi_def]

section \<open>IPv4\<close>

lemma digit_char_zero: "d < 10 \<Longrightarrow> digit_char d = CHR ''0'' \<Longrightarrow> d = 0"
  using digit_val_char [of d] by (simp add: digit_val_def)

lemma digits_no_leading_zero: "1 < length (digits 10 n) \<Longrightarrow> hd (digits 10 n) \<noteq> CHR ''0''"
proof (induction n rule: digits_cases_induct [of 10, consumes 0, case_names base one more])
  case (more n)
  then have eq: "hd (digits 10 n) = hd (digits 10 (n div 10))" by (simp add: digits_more)
  show ?case
  proof (cases "n div 10 < 10")
    case True
    with eq have "hd (digits 10 n) = digit_char (n div 10)" by (simp add: digits_one)
    with True more.hyps digit_char_zero [of "n div 10"] show ?thesis by auto
  next
    case False
    then have "1 < length (digits 10 (n div 10))" by (simp add: digits_more Suc_le_eq)
    with more.IH eq show ?thesis by simp
  qed
qed (simp_all add: digits_one)

lemma octet_digits:
  assumes "n < 256" and "dec.stops t"
  shows "octet (digits 10 n @ t) = Some (n, t)"
proof -
  have "n < big" using assms(1) by (simp add: big_def)
  then have "dtoi (digits 10 n @ t) = Some (n, length (digits 10 n))"
    using assms(2) by (rule dtoi_digits)
  with assms(1) digits_no_leading_zero [of n] show ?thesis by (auto simp: octet_def)
qed

lemma parseIPv4_dotted:
  assumes "a < 256" and "b < 256" and "c < 256" and "d < 256"
  shows "parseIPv4 (strings_Join (map (digits 10) [a, b, c, d]) ''.'') = Some (v4prefix @ [a, b, c, d])"
proof -
  have four: "(4 :: nat) = Suc (Suc (Suc (Suc 0)))" by simp
  note octets = octet_digits octet_digits [where t = "[]", simplified]
  from assms show ?thesis
    unfolding parseIPv4_def four
    by (simp add: octets del: digits.simps)
qed

section \<open>IPv6\<close>

lemma parse6_group:
  assumes "g < 65536" and "t = [] \<or> hd t = CHR '':''"
  shows "parse6_loop (Suc k) (digits 16 g @ t) acc ell =
    (let acc' = acc @ [g div 256, g mod 256] in
     if t = [] then Some (acc', ell, [])
     else if length t = 1 then None
     else if hd (tl t) = CHR '':'' then
       if ell \<noteq> None then None
       else if tl (tl t) = [] then Some (acc', Some (length acc'), [])
       else parse6_loop k (tl (tl t)) acc' (Some (length acc'))
     else parse6_loop k (tl t) acc' ell)"
proof -
  have "hex.stops t" using assms(2) by (cases t) (auto simp: hex.stops_def)
  moreover have "g < big" using assms(1) by (simp add: big_def)
  ultimately have x: "xtoi (digits 16 g @ t) = Some (g, length (digits 16 g))"
    by (rule xtoi_digits[rotated])
  have "\<not> (length (digits 16 g) < length (digits 16 g @ t)
          \<and> (digits 16 g @ t) ! length (digits 16 g) = CHR ''.'')"
    using assms(2) by (cases t) auto
  with x assms show ?thesis by (auto simp: Let_def)
qed

lemma hd_digits16: "hd (digits 16 g @ t) \<noteq> CHR '':''"
proof -
  have "hd (digits 16 g) \<in> set (digits 16 g)" by simp
  then obtain d where "d < 16" and "hd (digits 16 g) = digit_char d"
    using digits_chars [of 16 "hd (digits 16 g)" g] by auto
  then have "hex_val (hd (digits 16 g)) = Some d" by simp
  then show ?thesis by (metis digits_nonempty digit_val_specials(3) hd_append option.distinct(1))
qed

lemma hd_Join_digits:
  assumes "gs \<noteq> []"
  shows "strings_Join (map (digits 16) gs) '':'' \<noteq> []"
    and "hd (strings_Join (map (digits 16) gs) '':'') \<noteq> CHR '':''"
  using assms hd_digits16 [of "hd gs" "[]"] by (cases gs; cases "tl gs"; simp)+

lemma bytes_simps [simp]: "bytes [] = []" "bytes (g # gs) = g div 256 # g mod 256 # bytes gs"
  by (simp_all add: bytes_def)

lemma length_bytes [simp]: "length (bytes gs) = 2 * length gs"
  by (induction gs) auto

text \<open>Groups up to the end of the text.\<close>

lemma parse6_tail:
  assumes "gs \<noteq> []" and "length gs \<le> k" and "\<forall>g\<in>set gs. g < 65536"
  shows "parse6_loop k (strings_Join (map (digits 16) gs) '':'') acc ell = Some (acc @ bytes gs, ell, [])"
  using assms
proof (induction gs arbitrary: k acc)
  case (Cons g gs)
  then obtain k' where k: "k = Suc k'" by (cases k) auto
  show ?case
  proof (cases gs)
    case Nil
    with Cons.prems k parse6_group [of g "[]" k' acc ell] show ?thesis by simp
  next
    case (Cons h hs)
    let ?t = "strings_Join (map (digits 16) gs) '':''"
    have "gs \<noteq> []" using Cons by simp
    note t = hd_Join_digits [OF this]
    from Cons.prems k Cons t parse6_group [of g "'':'' @ ?t" k' acc ell]
    have "parse6_loop k (strings_Join (map (digits 16) (g # gs)) '':'') acc ell
      = parse6_loop k' ?t (acc @ [g div 256, g mod 256]) ell"
      by (simp add: Join_Cons)
    also have "\<dots> = Some ((acc @ [g div 256, g mod 256]) @ bytes gs, ell, [])"
      using Cons.prems k Cons by (intro Cons.IH) auto
    finally show ?thesis by simp
  qed
qed simp

text \<open>Groups before the ellipsis.\<close>

lemma parse6_head:
  assumes "gs \<noteq> []" and "length gs \<le> k" and "\<forall>g\<in>set gs. g < 65536"
  shows "parse6_loop k (strings_Join (map (digits 16) gs) '':'' @ ''::'' @ t) acc None =
    (let acc' = acc @ bytes gs in
     if t = [] then Some (acc', Some (length acc'), [])
     else parse6_loop (k - length gs) t acc' (Some (length acc')))"
  using assms
proof (induction gs arbitrary: k acc)
  case (Cons g gs)
  then obtain k' where k: "k = Suc k'" by (cases k) auto
  show ?case
  proof (cases "gs = []")
    case True
    with Cons.prems k parse6_group [of g "''::'' @ t" k' acc None] show ?thesis
      by (simp add: Let_def)
  next
    case False
    let ?t = "strings_Join (map (digits 16) gs) '':'' @ ''::'' @ t"
    from hd_Join_digits [OF False] have t: "?t \<noteq> []" "hd ?t \<noteq> CHR '':''" by simp_all
    from Cons.prems k False t parse6_group [of g "'':'' @ ?t" k' acc None]
    have "parse6_loop k (strings_Join (map (digits 16) (g # gs)) '':'' @ ''::'' @ t) acc None
      = parse6_loop k' ?t (acc @ [g div 256, g mod 256]) None"
      by (simp add: Join_Cons)
    also have "\<dots> = (let acc' = (acc @ [g div 256, g mod 256]) @ bytes gs in
       if t = [] then Some (acc', Some (length acc'), [])
       else parse6_loop (k' - length gs) t acc' (Some (length acc')))"
      using Cons.prems k False by (intro Cons.IH) auto
    finally show ?thesis using k by (simp add: Let_def)
  qed
qed simp

section \<open>The ellipsis stands for zero groups\<close>

definition zero_run :: "nat list \<Rightarrow> nat \<times> nat \<Rightarrow> bool" where
  "zero_run gs = (\<lambda>(e, n). e + n \<le> length gs \<and> (\<forall>j. e \<le> j \<and> j < e + n \<longrightarrow> gs ! j = 0))"

lemma zero_run_takeWhile:
  assumes "i \<le> length gs0"
  shows "zero_run gs0 (i, length (takeWhile ((=) 0) (drop i gs0)))"
proof -
  let ?z = "takeWhile ((=) 0) (drop i gs0)"
  have "length ?z \<le> length (drop i gs0)" by (rule length_takeWhile_le)
  moreover have "gs0 ! j = 0" if "i \<le> j" and "j < i + length ?z" for j
  proof -
    from that have "?z ! (j - i) = drop i gs0 ! (j - i)" by (intro takeWhile_nth) simp
    with that assms have "?z ! (j - i) = gs0 ! j" by simp
    moreover from that have "?z ! (j - i) \<in> set ?z" by (intro nth_mem) simp
    ultimately show ?thesis by (auto dest: set_takeWhileD)
  qed
  ultimately show ?thesis using assms by (auto simp: zero_run_def)
qed

lemma findRun_zero_run:
  assumes "gs = drop i gs0" and "zero_run gs0 best"
  shows "zero_run gs0 (findRun i gs best)"
  using assms
proof (induction i gs best rule: findRun.induct)
  case (2 i g gs best)
  let ?r = "length (takeWhile ((=) 0) (g # gs))"
  from "2.prems"(1) have i: "i \<le> length gs0" by (metis drop_all linear list.distinct(1))
  from "2.prems"(1) have tl: "gs = drop (Suc i) gs0" by (metis drop_Suc list.sel(3) tl_drop)
  show ?case
  proof (cases "?r > snd best")
    case True
    have "zero_run gs0 (i, ?r)" using zero_run_takeWhile [OF i] "2.prems"(1) by simp
    moreover from tl have "drop ?r gs = drop (i + ?r + 1) gs0" by (simp add: add.commute)
    ultimately have "zero_run gs0 (findRun (i + ?r + 1) (drop ?r gs) (i, ?r))"
      using "2.IH"(1) [OF refl True] by blast
    moreover have "findRun i (g # gs) best = findRun (i + ?r + 1) (drop ?r gs) (i, ?r)"
      using True unfolding findRun.simps(2) Let_def by (rule if_P)
    ultimately show ?thesis by simp
  next
    case False
    then have "findRun i (g # gs) best = findRun (Suc i) gs best"
      unfolding findRun.simps(2) Let_def by (rule if_not_P)
    with "2.IH"(2) [OF refl False tl "2.prems"(2)] show ?thesis by simp
  qed
qed simp

lemma findRun_split:
  assumes "findRun 0 gs (0, 0) = (e, n)"
  shows "gs = take e gs @ replicate n 0 @ drop (e + n) gs" and "e + n \<le> length gs"
proof -
  have "zero_run gs (e, n)"
    using findRun_zero_run [of gs 0 gs "(0, 0)"] assms by (simp add: zero_run_def)
  then have le: "e + n \<le> length gs" and zero: "\<And>j. e \<le> j \<Longrightarrow> j < e + n \<Longrightarrow> gs ! j = 0"
    by (auto simp: zero_run_def)
  have "take n (drop e gs) = replicate n 0"
    using le zero by (intro nth_equalityI) auto
  then have "drop e gs = replicate n 0 @ drop (e + n) gs"
    by (metis add.commute append_take_drop_id drop_drop)
  then show "gs = take e gs @ replicate n 0 @ drop (e + n) gs"
    by (metis append_take_drop_id)
  show "e + n \<le> length gs" by (rule le)
qed

section \<open>Round trip\<close>

lemma group_split: "b < 256 \<Longrightarrow> (a * 256 + b) div 256 = a \<and> (a * 256 + b) mod 256 = (b :: nat)"
  by simp

lemma groups_bytes:
  assumes "even (length bs)" and "\<forall>b\<in>set bs. b < 256"
  shows "bytes (groups bs) = bs" and "length (groups bs) = length bs div 2"
    and "\<forall>g\<in>set (groups bs). g < 65536"
  using assms
proof (induction bs rule: groups.induct)
  case (1 a b bs)
  {
    case 1
    with "1.IH"(1) show ?case using group_split [of b a] by simp
  next
    case 2
    with "1.IH"(2) show ?case by simp
  next
    case 3
    with "1.IH"(3) show ?case by simp
  }
qed simp_all

lemma bytes_append [simp]: "bytes (gs @ hs) = bytes gs @ bytes hs"
  by (simp add: bytes_def)

lemma bytes_zeros [simp]: "bytes (replicate n 0) = replicate (2 * n) 0"
  by (induction n) auto

lemma set_Join: "c \<in> set (strings_Join xs sep) \<Longrightarrow> c \<in> set sep \<or> (\<exists>x\<in>set xs. c \<in> set x)"
  by (induction xs sep rule: strings_Join.induct) auto

lemma Join_two: "2 \<le> length xs \<Longrightarrow> set sep \<subseteq> set (strings_Join xs sep)"
  by (cases xs; cases "tl xs") auto

lemma find_unique:
  assumes "x \<in> set s" and "P x" and "\<And>c. c \<in> set s \<Longrightarrow> P c \<Longrightarrow> c = x"
  shows "find P s = Some x"
proof (cases "find P s")
  case None
  with assms(1,2) show ?thesis by (auto simp: find_None_iff)
next
  case (Some y)
  then have "y \<in> set s" and "P y" by (auto simp: find_Some_iff)
  then have "y = x" by (rule assms(3))
  with Some show ?thesis by simp
qed

lemmas find_first_special = find_unique [where P = "\<lambda>c. c = CHR ''.'' \<or> c = CHR '':''"]

lemma not_special_digit: "d < 16 \<Longrightarrow> digit_char d \<noteq> CHR ''.'' \<and> digit_char d \<noteq> CHR '':''"
  by (metis digit_val_specials(2,3) hex_val_char option.distinct(1))

lemma Join_digits_special:
  assumes "c \<in> set (strings_Join (map (digits b) gs) [x])" and "1 < b" and "b \<le> 16"
    and "c = CHR ''.'' \<or> c = CHR '':''"
  shows "c = x"
proof (rule ccontr)
  assume "c \<noteq> x"
  with set_Join [OF assms(1)] obtain g where "c \<in> set (digits b g)" by auto
  with digits_chars [OF assms(2)] obtain d where "d < b" and "c = digit_char d" by blast
  with not_special_digit [of d] assms(3,4) show False by auto
qed

lemma ParseIP_v4:
  assumes "length p = 4" and "\<forall>b\<in>set p. b < 256"
  shows "ParseIP (strings_Join (map (digits 10) p) ''.'') = Some (v4prefix @ p)"
proof -
  let ?s = "strings_Join (map (digits 10) p) ''.''"
  have "CHR ''.'' \<in> set ?s" using Join_two [of "map (digits 10) p" "''.''"] assms(1) by simp
  then have "find (\<lambda>c. c = CHR ''.'' \<or> c = CHR '':'') ?s = Some CHR ''.''"
    by (rule find_first_special) (simp_all add: Join_digits_special)
  moreover obtain a b c d where "p = [a, b, c, d]"
    using assms(1) by (auto simp: numeral_eq_Suc length_Suc_conv)
  then have "parseIPv4 ?s = Some (v4prefix @ p)" using assms(2) parseIPv4_dotted by simp
  ultimately show ?thesis by (simp add: ParseIP_def)
qed

lemma parseIPv6_plain:
  assumes "length gs = 8" and "\<forall>g\<in>set gs. g < 65536"
  shows "parseIPv6 (strings_Join (map (digits 16) gs) '':'') = Some (bytes gs)"
proof -
  let ?s = "strings_Join (map (digits 16) gs) '':''"
  have ne: "gs \<noteq> []" using assms(1) by auto
  with hd_Join_digits [OF ne] have "take 2 ?s \<noteq> ''::''"
    by (cases ?s) auto
  moreover have "parse6_loop 8 ?s [] None = Some (bytes gs, None, [])"
    using parse6_tail [OF ne, of 8 "[]" None] assms by simp
  ultimately show ?thesis using assms(1) by (simp add: parseIPv6_def parse6_finish_def)
qed

lemma parseIPv6_ellipsis:
  assumes "length as + n + length bs = 8" and "0 < n"
    and "\<forall>g\<in>set as. g < 65536" and "\<forall>g\<in>set bs. g < 65536"
  shows "parseIPv6 (strings_Join (map (digits 16) as) '':'' @ ''::'' @ strings_Join (map (digits 16) bs) '':'')
    = Some (bytes (as @ replicate n 0 @ bs))"
proof -
  let ?t = "strings_Join (map (digits 16) bs) '':''"
  let ?s = "strings_Join (map (digits 16) as) '':'' @ ''::'' @ ?t"
  have n16: "16 - 2 * (length as + length bs) = 2 * n" using assms(1) by simp
  have t: "?t = [] \<longleftrightarrow> bs = []" using hd_Join_digits(1) [of bs] by auto
  show ?thesis
  proof (cases "as = []")
    case True
    have "parse6_loop 8 ?t [] (Some 0) = Some (bytes bs, Some 0, [])" if "bs \<noteq> []"
      using parse6_tail [OF that, of 8 "[]" "Some 0"] assms by simp
    with True n16 assms(1,2) t show ?thesis
      by (cases "bs = []") (simp_all add: parseIPv6_def parse6_finish_def)
  next
    case False
    from hd_Join_digits [OF False] have two: "take 2 ?s \<noteq> ''::''"
      by (cases "strings_Join (map (digits 16) as) '':''") auto
    have "parse6_loop 8 ?s [] None = Some (bytes as @ bytes bs, Some (2 * length as), [])"
    proof (cases "bs = []")
      case True
      with parse6_head [OF False, of 8 "[]" "[]"] assms show ?thesis by simp
    next
      case bs: False
      with parse6_head [OF False, of 8 ?t "[]"] t assms
      have "parse6_loop 8 ?s [] None = parse6_loop (8 - length as) ?t (bytes as) (Some (2 * length as))"
        by simp
      also have "\<dots> = Some (bytes as @ bytes bs, Some (2 * length as), [])"
        using bs assms by (intro parse6_tail) auto
      finally show ?thesis .
    qed
    with two n16 assms(1,2) show ?thesis by (simp add: parseIPv6_def parse6_finish_def)
  qed
qed

lemma ParseIP_v6:
  assumes "length gs = 8" and "\<forall>g\<in>set gs. g < 65536"
  shows "ParseIP (let (e, n) = findRun 0 gs (0, 0) in
           if n \<le> 1 then strings_Join (map (digits 16) gs) '':''
           else strings_Join (map (digits 16) (take e gs)) '':'' @ ''::''
                @ strings_Join (map (digits 16) (drop (e + n) gs)) '':'') = Some (bytes gs)"
proof -
  obtain e n where run: "findRun 0 gs (0, 0) = (e, n)" by fastforce
  note split = findRun_split [OF run]
  have v6: "ParseIP s = parseIPv6 s"
    if "CHR '':'' \<in> set s" and "\<And>c. c \<in> set s \<Longrightarrow> c = CHR ''.'' \<or> c = CHR '':'' \<Longrightarrow> c = CHR '':''" for s
    using find_first_special [OF that(1) disjI2 [OF refl] that(2)] by (simp add: ParseIP_def)
  show ?thesis
  proof (cases "n \<le> 1")
    case True
    let ?s = "strings_Join (map (digits 16) gs) '':''"
    have "CHR '':'' \<in> set ?s" using Join_two [of "map (digits 16) gs" "'':''"] assms(1) by simp
    then have "ParseIP ?s = parseIPv6 ?s" by (rule v6) (rule Join_digits_special, auto)
    with True run parseIPv6_plain [OF assms] show ?thesis by simp
  next
    case False
    let ?s = "strings_Join (map (digits 16) (take e gs)) '':'' @ ''::''
                @ strings_Join (map (digits 16) (drop (e + n) gs)) '':''"
    have only: "c = CHR '':''" if "c \<in> set ?s" and "c = CHR ''.'' \<or> c = CHR '':''" for c
    proof -
      from that(1) consider "c = CHR '':''"
        | gs' where "c \<in> set (strings_Join (map (digits 16) gs') '':'')"
        by (simp only: set_append Un_iff) fastforce
      then show ?thesis by cases (auto intro: Join_digits_special [OF _ _ _ that(2)])
    qed
    have "CHR '':'' \<in> set ?s" by (simp only: set_append list.set) blast
    then have "ParseIP ?s = parseIPv6 ?s" by (rule v6) (rule only)
    also have "\<dots> = Some (bytes (take e gs @ replicate n 0 @ drop (e + n) gs))"
      using assms split(2) False by (intro parseIPv6_ellipsis) (auto dest: in_set_takeD in_set_dropD)
    finally show ?thesis using False run split(1) by simp
  qed
qed

lemma ParseIP_String: "is_ip ip \<Longrightarrow> ParseIP (ip_String ip) = Some ip"
proof (cases "To4 ip")
  case None
  assume "is_ip ip"
  then have g: "bytes (groups ip) = ip" "length (groups ip) = 8" "\<forall>g\<in>set (groups ip). g < 65536"
    using groups_bytes [of ip] by (auto simp: is_ip_def)
  from ParseIP_v6 [OF g(2,3)] None g(1) show ?thesis by (simp add: ip_String_def Let_def)
next
  case (Some p)
  assume ip: "is_ip ip"
  with Some have p: "p = drop 12 ip" and "take 12 ip = v4prefix"
    by (auto simp: To4_def is_ip_def split: if_splits)
  then have "v4prefix @ p = ip" by (metis append_take_drop_id)
  moreover have "length p = 4" "\<forall>b\<in>set p. b < 256"
    using ip p by (auto simp: is_ip_def dest: in_set_dropD)
  ultimately show ?thesis using Some ParseIP_v4 by (simp add: ip_String_def)
qed

section \<open>What is parsed is an address\<close>

lemma octet_less: "octet s = Some (b, t) \<Longrightarrow> b < 256"
  by (auto simp: octet_def split: option.splits if_splits)

lemma parseOctets_bytes:
  "parseOctets k first s = Some bs \<Longrightarrow> length bs = k \<and> (\<forall>b\<in>set bs. b < 256)"
proof (induction k first s arbitrary: bs rule: parseOctets.induct)
  case (2 k first s)
  then show ?case
    by (auto split: if_splits option.splits simp: octet_less)
qed (auto split: if_splits)

lemma parseIPv4_is_ip: "parseIPv4 s = Some ip \<Longrightarrow> is_ip ip"
  by (auto simp: parseIPv4_def is_ip_def v4prefix_def dest!: parseOctets_bytes)

lemma parse6_loop_bytes:
  assumes "parse6_loop k s acc ell = Some (acc', ell', t)"
    and "length acc + 2 * k = 16" and "\<forall>b\<in>set acc. b < 256" and "\<forall>e. ell = Some e \<longrightarrow> e \<le> length acc"
  shows "length acc' \<le> 16 \<and> (\<forall>b\<in>set acc'. b < 256) \<and> (\<forall>e. ell' = Some e \<longrightarrow> e \<le> length acc')"
  using assms
proof (induction k s acc ell rule: parse6_loop.induct)
  case (2 k s acc ell)
  from "2.prems"(1) obtain n c where x: "xtoi s = Some (n, c)" and n: "n \<le> 0xFFFF"
    by (auto split: option.splits if_splits prod.splits)
  let ?acc = "acc @ [n div 256, n mod 256]" and ?s = "drop c s"
  have small: "\<forall>b\<in>set ?acc. b < 256" using "2.prems"(3) n by auto
  show ?case
  proof (cases "c < length s \<and> s ! c = CHR ''.''")
    case True
    from "2.prems"(1) x n obtain ip4 where ip4: "parseIPv4 s = Some ip4"
      and acc: "acc' = acc @ drop 12 ip4" "ell' = ell" and room: "length acc + 4 \<le> 16"
      using True by (auto split: if_splits)
    from ip4 have "length ip4 = 16" "\<forall>b\<in>set (drop 12 ip4). b < 256"
      using parseIPv4_is_ip [OF ip4] by (auto simp: is_ip_def dest: in_set_dropD)
    with acc room "2.prems"(3,4) show ?thesis by (simp add: ball_Un trans_le_add1)
  next
    case dot: False
    have room: "length ?acc + 2 * k = 16" using "2.prems"(2) by simp
    have ell: "\<forall>e. ell = Some e \<longrightarrow> e \<le> length ?acc" using "2.prems"(4) by auto
    from room have room16: "length ?acc \<le> 16" by linarith
    note step = "2.prems"(1) [unfolded parse6_loop.simps x option.case prod.case Let_def if_not_P [OF dot]]
    consider "?s = []" | "?s \<noteq> []" "hd (tl ?s) = CHR '':''" "tl (tl ?s) = []"
      | "?s \<noteq> []" "hd (tl ?s) = CHR '':''" "tl (tl ?s) \<noteq> []" | "?s \<noteq> []" "hd (tl ?s) \<noteq> CHR '':''"
      by blast
    then show ?thesis
    proof cases
      case 1
      with step n have "acc' = ?acc" and "ell' = ell" by simp_all
      with room16 small ell show ?thesis by (metis (no_types, lifting))
    next
      case 2
      with step n have "acc' = ?acc" and "ell' = Some (length ?acc)"
        by (simp_all split: if_split_asm)
      with room16 small show ?thesis by (metis (no_types, lifting) option.inject order_refl)
    next
      case 3
      with step n have "parse6_loop k (tl (tl ?s)) ?acc (Some (length ?acc)) = Some (acc', ell', t)"
        and "ell = None" and "\<not> (hd ?s \<noteq> CHR '':'' \<or> length ?s = 1)"
        by (simp_all split: if_split_asm)
      with "2.IH"(1) [OF x refl _ dot refl refl] 3 n room small show ?thesis
        by (metis (no_types, lifting) leD option.inject order_refl)
    next
      case 4
      with step n have "parse6_loop k (tl ?s) ?acc ell = Some (acc', ell', t)"
        and "\<not> (hd ?s \<noteq> CHR '':'' \<or> length ?s = 1)"
        by (simp_all split: if_split_asm)
      with "2.IH"(2) [OF x refl _ dot refl refl] 4 n room small ell show ?thesis
        by (metis (no_types, lifting) leD)
    qed
  qed
qed simp

lemma parse6_finish_is_ip:
  assumes "parse6_finish (acc, ell, t) = Some ip" and "length acc \<le> 16" and "\<forall>b\<in>set acc. b < 256"
    and "\<forall>e. ell = Some e \<longrightarrow> e \<le> length acc"
  shows "is_ip ip"
proof -
  have "\<forall>b\<in>set (take e acc). b < 256" "\<forall>b\<in>set (drop e acc). b < 256" for e
    using assms(3) by (auto dest: in_set_takeD in_set_dropD)
  with assms show ?thesis
    by (auto simp: parse6_finish_def is_ip_def split: if_splits option.splits)
qed

lemma parseIPv6_is_ip:
  assumes "parseIPv6 s = Some ip"
  shows "is_ip ip"
proof -
  have loop: "is_ip ip"
    if bind: "Option.bind (parse6_loop 8 u [] ell) parse6_finish = Some ip"
      and ell: "\<forall>e. ell = Some e \<longrightarrow> e \<le> 0" for u ell
  proof -
    from bind obtain acc ell' t where l: "parse6_loop 8 u [] ell = Some (acc, ell', t)"
      and f: "parse6_finish (acc, ell', t) = Some ip"
      by (auto simp: bind_eq_Some_conv)
    from parse6_loop_bytes [OF l] ell parse6_finish_is_ip [OF f] show ?thesis by simp
  qed
  from assms show ?thesis
    by (auto simp: parseIPv6_def is_ip_def [of "replicate 16 0"] split: if_splits intro: loop)
qed

lemma ParseIP_is_ip: "ParseIP s = Some ip \<Longrightarrow> is_ip ip"
  by (auto simp: ParseIP_def split: option.splits if_splits intro: parseIPv4_is_ip parseIPv6_is_ip)

lemma ParseIP_String_again: "ParseIP s = Some ip \<Longrightarrow> ParseIP (ip_String ip) = Some ip"
  by (rule ParseIP_String [OF ParseIP_is_ip])

end
