(* ===== verification/DNS_Cache.thy ===== *)
theory DNS_Cache
  imports Net_IP
begin

text \<open>
  The record cache of the DNS server (\<open>pkg/controllers/endpointslicedns/cache.go\<close>): two
  maps, from domain names to the entries of the resources that carry the name and from
  resource keys to names, and the operations that keep them. Every method holds the mutex of
  the cache for its whole body, so an operation is one state transformer; \<open>IsValid\<close> reads
  the cache through \<open>Lookup\<close> once.

  The functions \<open>dns.CanonicalName\<close> and \<open>dns.SplitDomainName\<close> of the DNS library are
  parameters (the record \<open>dns_lib\<close>); the locale \<open>dns_names\<close> states what the library
  documents of them. The locale \<open>record_store\<close> is the interface that the controller uses: a
  store of entries by resource key.
\<close>

section \<open>Names\<close>

record dns_lib =
  CanonicalName :: "string \<Rightarrow> string"
  SplitDomainName :: "string \<Rightarrow> string list"

text \<open>A label of a domain name that needs no escape, and names made of such labels.\<close>

definition plain_char :: "char \<Rightarrow> bool" where
  "plain_char c \<longleftrightarrow> (of_char c :: nat) < 128 \<and> c \<noteq> CHR 0x5C"

definition plain_label :: "string \<Rightarrow> bool" where
  "plain_label l \<longleftrightarrow> l \<noteq> [] \<and> (\<forall>c\<in>set l. plain_char c \<and> c \<noteq> CHR ''.'')"

definition plain_name :: "string \<Rightarrow> bool" where
  "plain_name s \<longleftrightarrow> (\<forall>c\<in>set s. plain_char c)"

definition fq :: "string list \<Rightarrow> string" where
  "fq labels = strings_Join labels ''.'' @ ''.''"

text \<open>
  What the library documents: a name in canonical form is in lower case and fully qualified
  (it ends in a dot), and a fully qualified name splits into the labels between its dots.
\<close>

locale dns_names =
  fixes L :: dns_lib
  assumes canon_idem: "CanonicalName L (CanonicalName L s) = CanonicalName L s"
    and canon_plain: "plain_name s \<Longrightarrow>
      CanonicalName L s = strings_ToLower s @ (if s \<noteq> [] \<and> last s = CHR ''.'' then [] else ''.'')"
    and split_plain: "labels \<noteq> [] \<Longrightarrow> \<forall>l\<in>set labels. plain_label l \<Longrightarrow>
      SplitDomainName L (fq labels) = labels"
    and split_root: "SplitDomainName L ''.'' = []"

section \<open>State\<close>

record DNSCacheEntry =
  ResourceKey :: string
  FQDN :: string
  Addresses :: "string list"

type_synonym entry_map = "string \<rightharpoonup> DNSCacheEntry list"

record DNSCache =
  entries :: "entry_map option"
  resourceKeyToFQDN :: "(string \<rightharpoonup> string) option"
  isPopulated :: bool

definition newDNSCache :: DNSCache where
  "newDNSCache = \<lparr>entries = None, resourceKeyToFQDN = None, isPopulated = False\<rparr>"

text \<open>Reading the maps; a \<open>nil\<close> map reads as the empty one.\<close>

definition entriesOf :: "DNSCache \<Rightarrow> entry_map" where
  "entriesOf d = (case entries d of None \<Rightarrow> Map.empty | Some m \<Rightarrow> m)"

definition keysOf :: "DNSCache \<Rightarrow> string \<rightharpoonup> string" where
  "keysOf d = (case resourceKeyToFQDN d of None \<Rightarrow> Map.empty | Some r \<Rightarrow> r)"

definition nilMaps :: "DNSCache \<Rightarrow> bool" where
  "nilMaps d \<longleftrightarrow> entries d = None \<or> resourceKeyToFQDN d = None"

section \<open>Operations\<close>

abbreviation has_key :: "string \<Rightarrow> DNSCacheEntry \<Rightarrow> bool" where
  "has_key k \<equiv> \<lambda>e. ResourceKey e = k"

definition initMaps :: "DNSCache \<Rightarrow> DNSCache" where
  "initMaps d =
     (if nilMaps d then d\<lparr>entries := Some Map.empty, resourceKeyToFQDN := Some Map.empty\<rparr> else d)"

text \<open>The entry of a resource leaves the name it was under before.\<close>

definition leaveOld :: "string \<Rightarrow> string \<Rightarrow> entry_map \<Rightarrow> entry_map" where
  "leaveOld k oldFQDN m =
     (let es = mapGet m oldFQDN;
          m1 = (case firstIndex (has_key k) es of
                  None \<Rightarrow> m
                | Some i \<Rightarrow> m(oldFQDN \<mapsto> removeAt i es))
      in if mapGet m1 oldFQDN = [] then m1(oldFQDN := None) else m1)"

text \<open>
  The loop over the addresses puts those that are no IP address into canonical form, and, once
  per address, the name of the entry.
\<close>

definition canonEntry :: "dns_lib \<Rightarrow> DNSCacheEntry \<Rightarrow> DNSCacheEntry" where
  "canonEntry L e = e\<lparr>
     Addresses := map (\<lambda>a. if ParseIP a = None then CanonicalName L a else a) (Addresses e),
     FQDN := (CanonicalName L ^^ length (Addresses e)) (FQDN e)\<rparr>"

definition putEntry :: "DNSCacheEntry \<Rightarrow> string \<Rightarrow> entry_map \<Rightarrow> entry_map" where
  "putEntry e fqdn m =
     (let es = mapGet m fqdn in
      case firstIndex (has_key (ResourceKey e)) es of
        Some i \<Rightarrow> m(fqdn \<mapsto> es[i := e])
      | None \<Rightarrow> m(fqdn \<mapsto> es @ [e]))"

definition Upsert :: "dns_lib \<Rightarrow> DNSCache \<Rightarrow> DNSCacheEntry \<Rightarrow> DNSCache" where
  "Upsert L d0 entry =
     (let d = initMaps d0;
          fqdn = CanonicalName L (FQDN entry);
          m1 = (case keysOf d (ResourceKey entry) of
                  Some oldFQDN \<Rightarrow>
                    if oldFQDN \<noteq> fqdn then leaveOld (ResourceKey entry) oldFQDN (entriesOf d)
                    else entriesOf d
                | None \<Rightarrow> entriesOf d);
          m2 = putEntry (canonEntry L entry) fqdn m1
      in d\<lparr>entries := Some m2,
           resourceKeyToFQDN := Some ((keysOf d)(ResourceKey entry \<mapsto> fqdn))\<rparr>)"

definition Delete :: "dns_lib \<Rightarrow> DNSCache \<Rightarrow> string \<Rightarrow> DNSCache" where
  "Delete L d fqdn0 =
     (if nilMaps d then d
      else let fqdn = CanonicalName L fqdn0 in
        d\<lparr>resourceKeyToFQDN :=
            Some (fold (\<lambda>e r. r(ResourceKey e := None)) (mapGet (entriesOf d) fqdn) (keysOf d)),
          entries := Some ((entriesOf d)(fqdn := None))\<rparr>)"

text \<open>
  The loop of \<open>DeleteByResourceKey\<close>, over the entries of the name as they were when the loop
  began: the removal ends the loop, so the test for an empty slice, which follows it in the
  body, only runs for entries that stay.
\<close>

fun deleteLoop :: "string \<Rightarrow> string \<Rightarrow> nat \<Rightarrow> DNSCacheEntry list \<Rightarrow> entry_map \<Rightarrow> entry_map" where
  "deleteLoop k fqdn i [] m = m"
| "deleteLoop k fqdn i (e # es) m =
     (if ResourceKey e = k then m(fqdn \<mapsto> removeAt i (mapGet m fqdn))
      else deleteLoop k fqdn (Suc i) es
             (if mapGet m fqdn = [] then m(fqdn := None) else m))"

definition DeleteByResourceKey :: "DNSCache \<Rightarrow> string \<Rightarrow> DNSCache" where
  "DeleteByResourceKey d k =
     (if nilMaps d then d
      else case keysOf d k of
        None \<Rightarrow> d
      | Some fqdn \<Rightarrow>
          d\<lparr>entries := Some (deleteLoop k fqdn 0 (mapGet (entriesOf d) fqdn) (entriesOf d)),
            resourceKeyToFQDN := Some ((keysOf d)(k := None))\<rparr>)"

definition wildcard :: "string list \<Rightarrow> string" where
  "wildcard labels = ''*.'' @ strings_Join labels ''.'' @ ''.''"

fun lookupWildcard :: "entry_map \<Rightarrow> string list \<Rightarrow> DNSCacheEntry list" where
  "lookupWildcard m [] = []"
| "lookupWildcard m (l # labels) =
     (case m (wildcard labels) of
        Some es \<Rightarrow> es
      | None \<Rightarrow> lookupWildcard m labels)"

definition Lookup :: "dns_lib \<Rightarrow> DNSCache \<Rightarrow> string \<Rightarrow> DNSCacheEntry list" where
  "Lookup L d fqdn0 =
     (if nilMaps d then []
      else let fqdn = CanonicalName L fqdn0 in
        case entriesOf d fqdn of
          Some es \<Rightarrow> es
        | None \<Rightarrow> lookupWildcard (entriesOf d) (SplitDomainName L fqdn))"

definition LookupByResourceKey :: "DNSCache \<Rightarrow> string \<Rightarrow> DNSCacheEntry option" where
  "LookupByResourceKey d k =
     (if nilMaps d then None
      else case keysOf d k of
        None \<Rightarrow> None
      | Some fqdn \<Rightarrow> find (has_key k) (mapGet (entriesOf d) fqdn))"

definition IsPopulated :: "DNSCache \<Rightarrow> bool" where
  "IsPopulated d = isPopulated d"

definition SetPopulated :: "DNSCache \<Rightarrow> DNSCache" where
  "SetPopulated d = d\<lparr>isPopulated := True\<rparr>"

text \<open>
  The nested loops of \<open>IsValid\<close>; \<open>None\<close> is the early return of \<open>false\<close>.
\<close>

fun validAddresses :: "nat \<Rightarrow> bool \<Rightarrow> string list \<Rightarrow> (nat \<times> bool) option" where
  "validAddresses addressCount hasCNAME [] = Some (addressCount, hasCNAME)"
| "validAddresses addressCount hasCNAME (a # as) =
     (if hasCNAME then None
      else if ParseIP a \<noteq> None then validAddresses (addressCount + 1) hasCNAME as
      else if addressCount > 0 then None
      else validAddresses addressCount True as)"

fun validEntries :: "nat \<Rightarrow> bool \<Rightarrow> DNSCacheEntry list \<Rightarrow> bool" where
  "validEntries addressCount hasCNAME [] = True"
| "validEntries addressCount hasCNAME (e # es) =
     (case validAddresses addressCount hasCNAME (Addresses e) of
        None \<Rightarrow> False
      | Some (n, c) \<Rightarrow> validEntries n c es)"

definition IsValid :: "dns_lib \<Rightarrow> DNSCache \<Rightarrow> string \<Rightarrow> bool" where
  "IsValid L d fqdn =
     (let es = Lookup L d (CanonicalName L fqdn) in
      if es = [] then False else validEntries 0 False es)"

section \<open>Lists of entries by key\<close>

lemma find_has_key_None [simp]: "find (has_key k) es = None \<longleftrightarrow> k \<notin> ResourceKey ` set es"
  by (auto simp: find_None_iff)

lemma find_has_key_SomeD: "find (has_key k) es = Some e \<Longrightarrow> e \<in> set es \<and> ResourceKey e = k"
  by (auto simp: find_Some_iff)

lemma find_has_key_distinct:
  "distinct (map ResourceKey es) \<Longrightarrow> e \<in> set es \<Longrightarrow> find (has_key (ResourceKey e)) es = Some e"
  by (induction es) (auto simp: image_iff)

lemma removeAt_first:
  assumes "distinct (map ResourceKey es)" and "firstIndex (has_key k) es = Some i"
  shows "removeAt i es = filter (\<lambda>e. ResourceKey e \<noteq> k) es"
proof -
  from assms(2) obtain ys x zs where es: "es = ys @ x # zs" and "length ys = i" and k: "ResourceKey x = k"
    and ys: "\<forall>y\<in>set ys. ResourceKey y \<noteq> k"
    by (rule firstIndex_SomeE)
  moreover from es k assms(1) have "\<forall>z\<in>set zs. ResourceKey z \<noteq> k" by (auto simp: image_iff)
  ultimately show ?thesis by auto
qed

text \<open>Updating in place or appending, as \<open>putEntry\<close> does for one name.\<close>

definition putList :: "DNSCacheEntry \<Rightarrow> DNSCacheEntry list \<Rightarrow> DNSCacheEntry list" where
  "putList e es =
     (case firstIndex (has_key (ResourceKey e)) es of Some i \<Rightarrow> es[i := e] | None \<Rightarrow> es @ [e])"

lemma putList_Nil [simp]: "putList e [] = [e]"
  by (simp add: putList_def)

lemma putList_Cons [simp]:
  "putList e (x # es) = (if ResourceKey x = ResourceKey e then e # es else x # putList e es)"
  by (auto simp: putList_def option.case_eq_if option.map_sel)

lemma set_putList_sub: "set (putList e es) \<subseteq> insert e (set es)"
  by (induction es) auto

lemma putList_keys [simp]: "ResourceKey ` set (putList e es) = insert (ResourceKey e) (ResourceKey ` set es)"
  by (induction es) auto

lemma putList_distinct [simp]:
  "distinct (map ResourceKey es) \<Longrightarrow> distinct (map ResourceKey (putList e es))"
proof (induction es)
  case (Cons x es)
  have "ResourceKey x \<in> set (map ResourceKey (putList e es))
    \<longleftrightarrow> ResourceKey x = ResourceKey e \<or> ResourceKey x \<in> set (map ResourceKey es)"
    by (simp only: set_map putList_keys insert_iff)
  with Cons show ?case by (auto simp del: set_map)
qed simp

lemma find_putList [simp]:
  "find (has_key k) (putList e es) = (if k = ResourceKey e then Some e else find (has_key k) es)"
  by (induction es) auto

lemma find_filter_key:
  "find (has_key k) (filter (\<lambda>e. ResourceKey e \<noteq> k') es) = (if k = k' then None else find (has_key k) es)"
  by (induction es) auto

lemma filter_keys: "ResourceKey ` set (filter (\<lambda>e. ResourceKey e \<noteq> k) es) = ResourceKey ` set es - {k}"
  by auto

lemma distinct_map_filter_key:
  "distinct (map ResourceKey es) \<Longrightarrow> distinct (map ResourceKey (filter P es))"
  by (induction es) auto

section \<open>Maps of entries\<close>

lemma putEntry_eq: "putEntry e f m = m(f \<mapsto> putList e (mapGet m f))"
  by (simp add: putEntry_def putList_def Let_def option.case_eq_if)

lemma leaveOld_eq:
  assumes "distinct (map ResourceKey (mapGet m f))"
  shows "leaveOld k f m =
    (let es = filter (\<lambda>e. ResourceKey e \<noteq> k) (mapGet m f) in
     if es = [] then m(f := None) else if mapGet m f = es then m else m(f \<mapsto> es))"
proof (cases "firstIndex (has_key k) (mapGet m f)")
  case None
  then have "filter (\<lambda>e. ResourceKey e \<noteq> k) (mapGet m f) = mapGet m f"
    by (simp add: filter_id_conv firstIndex_None)
  with None show ?thesis by (simp add: leaveOld_def Let_def)
next
  case (Some i)
  then obtain ys x zs where "mapGet m f = ys @ x # zs" and "ResourceKey x = k"
    by (rule firstIndex_SomeE)
  then have "x \<in> set (mapGet m f)" and "ResourceKey x = k" by simp_all
  then have "filter (\<lambda>e. ResourceKey e \<noteq> k) (mapGet m f) \<noteq> mapGet m f"
    unfolding filter_id_conv by blast
  with Some removeAt_first [OF assms Some] show ?thesis by (simp add: leaveOld_def Let_def)
qed

lemma leaveOld_sub:
  assumes "distinct (map ResourceKey (mapGet m old))" and "leaveOld k old m f = Some es"
  shows "\<exists>es0. m f = Some es0 \<and> set es \<subseteq> set es0"
proof (cases "f = old")
  case True
  with assms show ?thesis
    by (cases "m old") (auto simp: leaveOld_eq Let_def split: if_splits)
next
  case False
  with assms show ?thesis by (auto simp: leaveOld_eq Let_def split: if_splits)
qed

lemma mapGet_leaveOld:
  assumes "distinct (map ResourceKey (mapGet m f))"
  shows "mapGet (leaveOld k f m) f' =
    (if f' = f then filter (\<lambda>e. ResourceKey e \<noteq> k) (mapGet m f) else mapGet m f')"
  by (auto simp: leaveOld_eq [OF assms] Let_def)

lemma mapGet_putEntry:
  "mapGet (putEntry e f m) f' = (if f' = f then putList e (mapGet m f) else mapGet m f')"
  by (simp add: putEntry_eq)

lemma deleteLoop_eq:
  assumes "mapGet m f = pre @ es" and "\<forall>e\<in>set pre. ResourceKey e \<noteq> k"
  shows "deleteLoop k f (length pre) es m =
    (case firstIndex (has_key k) (pre @ es) of None \<Rightarrow> m | Some i \<Rightarrow> m(f \<mapsto> removeAt i (pre @ es)))"
  using assms
proof (induction es arbitrary: pre)
  case Nil
  then have "firstIndex (has_key k) pre = None" by (simp add: firstIndex_None)
  then show ?case by simp
next
  case (Cons e es)
  show ?case
  proof (cases "ResourceKey e = k")
    case True
    with Cons.prems(2) have "firstIndex (has_key k) (pre @ e # es) = Some (length pre)"
      by (induction pre) auto
    with True Cons.prems(1) show ?thesis by simp
  next
    case False
    with Cons.prems Cons.IH [of "pre @ [e]"] show ?thesis by (simp cong: option.case_cong)
  qed
qed

lemma deleteLoop_get:
  assumes "distinct (map ResourceKey (mapGet m f))" and "k \<in> ResourceKey ` set (mapGet m f)"
  shows "deleteLoop k f 0 (mapGet m f) m = m(f \<mapsto> filter (\<lambda>e. ResourceKey e \<noteq> k) (mapGet m f))"
proof -
  from assms(2) obtain i where i: "firstIndex (has_key k) (mapGet m f) = Some i"
    by (cases "firstIndex (has_key k) (mapGet m f)") (auto simp: firstIndex_None)
  with deleteLoop_eq [of m f "[]" "mapGet m f" k] removeAt_first [OF assms(1) i]
  show ?thesis by simp
qed

section \<open>Invariant\<close>

text \<open>
  The two maps agree: the entries under a name are of distinct resources, and a resource is
  mapped to the name its entry is under. Names are canonical, an entry is under the canonical
  form of its own name (and carries that form when it has an address), and an address is an IP
  address or a canonical name.
\<close>

definition indexed :: "entry_map \<Rightarrow> (string \<rightharpoonup> string) \<Rightarrow> bool" where
  "indexed m r \<longleftrightarrow>
     (\<forall>f. distinct (map ResourceKey (mapGet m f))) \<and>
     (\<forall>k f. r k = Some f \<longleftrightarrow> k \<in> ResourceKey ` set (mapGet m f))"

definition entry_ok :: "dns_lib \<Rightarrow> string \<Rightarrow> DNSCacheEntry \<Rightarrow> bool" where
  "entry_ok L f e \<longleftrightarrow> CanonicalName L (FQDN e) = f \<and> (Addresses e \<noteq> [] \<longrightarrow> FQDN e = f) \<and>
     (\<forall>a\<in>set (Addresses e). ParseIP a \<noteq> None \<or> CanonicalName L a = a)"

definition canonical :: "dns_lib \<Rightarrow> entry_map \<Rightarrow> bool" where
  "canonical L m \<longleftrightarrow>
     (\<forall>f es. m f = Some es \<longrightarrow> CanonicalName L f = f \<and> (\<forall>e\<in>set es. entry_ok L f e))"

definition cache_wf :: "dns_lib \<Rightarrow> DNSCache \<Rightarrow> bool" where
  "cache_wf L d \<longleftrightarrow>
     (entries d = None \<longleftrightarrow> resourceKeyToFQDN d = None) \<and>
     indexed (entriesOf d) (keysOf d) \<and> canonical L (entriesOf d)"

lemma indexed_distinct: "indexed m r \<Longrightarrow> distinct (map ResourceKey (mapGet m f))"
  by (simp add: indexed_def)

lemma indexed_iff: "indexed m r \<Longrightarrow> r k = Some f \<longleftrightarrow> k \<in> ResourceKey ` set (mapGet m f)"
  by (simp add: indexed_def)

lemma indexed_entry: "indexed m r \<Longrightarrow> e \<in> set (mapGet m f) \<Longrightarrow> r (ResourceKey e) = Some f"
  by (simp add: indexed_def)

lemma indexed_other:
  "indexed m r \<Longrightarrow> r k \<noteq> Some f \<Longrightarrow> filter (\<lambda>e. ResourceKey e \<noteq> k) (mapGet m f) = mapGet m f"
  by (auto simp: filter_id_conv indexed_iff)

lemma maps_of_update [simp]:
  "entriesOf (d\<lparr>entries := Some m, resourceKeyToFQDN := Some r\<rparr>) = m"
  "keysOf (d\<lparr>entries := Some m, resourceKeyToFQDN := Some r\<rparr>) = r"
  "entriesOf (d\<lparr>resourceKeyToFQDN := Some r, entries := Some m\<rparr>) = m"
  "keysOf (d\<lparr>resourceKeyToFQDN := Some r, entries := Some m\<rparr>) = r"
  "\<not> nilMaps (d\<lparr>entries := Some m, resourceKeyToFQDN := Some r\<rparr>)"
  "\<not> nilMaps (d\<lparr>resourceKeyToFQDN := Some r, entries := Some m\<rparr>)"
  by (simp_all add: entriesOf_def keysOf_def nilMaps_def)

lemma nilMaps_wf: "cache_wf L d \<Longrightarrow> nilMaps d \<Longrightarrow> entriesOf d = Map.empty \<and> keysOf d = Map.empty"
  by (auto simp: cache_wf_def nilMaps_def entriesOf_def keysOf_def)

lemma initMaps_wf:
  assumes "cache_wf L d"
  shows "entriesOf (initMaps d) = entriesOf d" and "keysOf (initMaps d) = keysOf d"
  using nilMaps_wf [OF assms] by (auto simp: initMaps_def)

lemma cache_wf_update:
  "indexed m r \<Longrightarrow> canonical L m \<Longrightarrow> cache_wf L (d\<lparr>entries := Some m, resourceKeyToFQDN := Some r\<rparr>)"
  "indexed m r \<Longrightarrow> canonical L m \<Longrightarrow> cache_wf L (d\<lparr>resourceKeyToFQDN := Some r, entries := Some m\<rparr>)"
  by (simp_all add: cache_wf_def)

lemma LookupByResourceKey_wf:
  assumes "cache_wf L d"
  shows "LookupByResourceKey d k =
    (case keysOf d k of None \<Rightarrow> None | Some f \<Rightarrow> find (has_key k) (mapGet (entriesOf d) f))"
  using nilMaps_wf [OF assms] by (simp add: LookupByResourceKey_def)

section \<open>Each operation on the two maps\<close>

text \<open>The maps after a resource has left the name it was under, whatever that was.\<close>

definition leaveAny :: "string \<Rightarrow> string \<Rightarrow> entry_map \<Rightarrow> (string \<rightharpoonup> string) \<Rightarrow> entry_map" where
  "leaveAny k fqdn m r =
     (case r k of Some old \<Rightarrow> if old \<noteq> fqdn then leaveOld k old m else m | None \<Rightarrow> m)"

lemma mapGet_leaveAny:
  assumes "indexed m r"
  shows "mapGet (leaveAny k fqdn m r) f =
    (if f = fqdn then mapGet m f else filter (\<lambda>e. ResourceKey e \<noteq> k) (mapGet m f))"
proof (cases "r k")
  case None
  with indexed_other [OF assms] show ?thesis by (simp add: leaveAny_def)
next
  case (Some old)
  with indexed_other [OF assms, of k] show ?thesis
    by (auto simp: leaveAny_def mapGet_leaveOld indexed_distinct [OF assms])
qed

lemma Upsert_maps:
  fixes e :: DNSCacheEntry
  assumes "cache_wf L d"
  defines "fqdn \<equiv> CanonicalName L (FQDN e)"
  shows "Upsert L d e = (initMaps d)\<lparr>
    entries := Some (putEntry (canonEntry L e) fqdn
                 (leaveAny (ResourceKey e) fqdn (entriesOf d) (keysOf d))),
    resourceKeyToFQDN := Some ((keysOf d)(ResourceKey e \<mapsto> fqdn))\<rparr>"
  unfolding Upsert_def Let_def leaveAny_def fqdn_def initMaps_wf [OF assms(1)] by (rule refl)

lemma canonEntry_simps [simp]:
  "ResourceKey (canonEntry L e) = ResourceKey e"
  "length (Addresses (canonEntry L e)) = length (Addresses e)"
  by (simp_all add: canonEntry_def)

lemma mapGet_Upsert:
  assumes "indexed m r"
  shows "mapGet (putEntry (canonEntry L e) fqdn (leaveAny (ResourceKey e) fqdn m r)) f =
    (if f = fqdn then putList (canonEntry L e) (mapGet m f)
     else filter (\<lambda>x. ResourceKey x \<noteq> ResourceKey e) (mapGet m f))"
  by (simp add: mapGet_putEntry mapGet_leaveAny [OF assms])

lemma indexed_Upsert:
  assumes "indexed m r"
  shows "indexed (putEntry (canonEntry L e) fqdn (leaveAny (ResourceKey e) fqdn m r))
           (r(ResourceKey e \<mapsto> fqdn))"
  using assms unfolding indexed_def mapGet_Upsert [OF assms]
  by (auto simp: distinct_map_filter_key filter_keys)

lemma indexed_remove:
  assumes "indexed m r" and "r k = Some f"
  shows "indexed (m(f \<mapsto> filter (\<lambda>e. ResourceKey e \<noteq> k) (mapGet m f))) (r(k := None))"
proof -
  have "mapGet (m(f \<mapsto> filter (\<lambda>e. ResourceKey e \<noteq> k) (mapGet m f))) f'
    = filter (\<lambda>e. ResourceKey e \<noteq> k) (mapGet m f')" for f'
    using indexed_other [OF assms(1), of k] assms(2) by (cases "f' = f") auto
  with assms show ?thesis
    unfolding indexed_def by (auto simp: distinct_map_filter_key filter_keys)
qed

lemma fold_delete_keys:
  "fold (\<lambda>e r. r(ResourceKey e := None)) es r = (\<lambda>k. if k \<in> ResourceKey ` set es then None else r k)"
  by (induction es arbitrary: r) (auto simp: fun_eq_iff)

lemma indexed_delete_name:
  assumes "indexed m r"
  shows "indexed (m(f := None)) (fold (\<lambda>e r. r(ResourceKey e := None)) (mapGet m f) r)"
proof -
  let ?m = "m(f := None)"
  have get: "mapGet ?m f' = (if f' = f then [] else mapGet m f')" for f' by simp
  have "(if k \<in> ResourceKey ` set (mapGet m f) then None else r k) = Some f'
      \<longleftrightarrow> k \<in> ResourceKey ` set (mapGet ?m f')" for k f'
    using indexed_iff [OF assms, of k f] indexed_iff [OF assms, of k f'] unfolding get by auto
  with indexed_distinct [OF assms] show ?thesis
    unfolding indexed_def fold_delete_keys get by simp
qed

lemma DeleteByResourceKey_maps:
  assumes "cache_wf L d" and "keysOf d k = Some f"
  shows "DeleteByResourceKey d k = d\<lparr>
    entries := Some ((entriesOf d)(f \<mapsto> filter (\<lambda>e. ResourceKey e \<noteq> k) (mapGet (entriesOf d) f))),
    resourceKeyToFQDN := Some ((keysOf d)(k := None))\<rparr>"
proof -
  have idx: "indexed (entriesOf d) (keysOf d)" using assms(1) by (simp add: cache_wf_def)
  have "\<not> nilMaps d" using nilMaps_wf [OF assms(1)] assms(2) by auto
  moreover have "k \<in> ResourceKey ` set (mapGet (entriesOf d) f)"
    using assms(2) indexed_iff [OF idx] by simp
  ultimately show ?thesis
    using assms(2) deleteLoop_get [OF indexed_distinct [OF idx]] by (simp add: DeleteByResourceKey_def)
qed

lemma DeleteByResourceKey_absent: "keysOf d k = None \<Longrightarrow> DeleteByResourceKey d k = d"
  by (simp add: DeleteByResourceKey_def)

section \<open>The invariant is kept\<close>

lemma cache_wf_new: "cache_wf L newDNSCache"
  by (simp add: cache_wf_def newDNSCache_def entriesOf_def keysOf_def indexed_def canonical_def mapGet_def)

lemma cache_wf_SetPopulated: "cache_wf L d \<Longrightarrow> cache_wf L (SetPopulated d)"
  by (simp add: cache_wf_def SetPopulated_def entriesOf_def keysOf_def)

lemma canonical_sub:
  assumes "canonical L m" and "\<And>f es. m' f = Some es \<Longrightarrow> \<exists>es0. m f = Some es0 \<and> set es \<subseteq> set es0"
  shows "canonical L m'"
  using assms unfolding canonical_def by (meson subsetD)

lemma canonical_leaveAny:
  assumes "indexed m r" and "canonical L m"
  shows "canonical L (leaveAny k fqdn m r)"
proof (rule canonical_sub [OF assms(2)])
  fix f es assume "leaveAny k fqdn m r f = Some es"
  then show "\<exists>es0. m f = Some es0 \<and> set es \<subseteq> set es0"
    by (auto simp: leaveAny_def split: option.splits if_splits
        dest: leaveOld_sub [OF indexed_distinct [OF assms(1)]])
qed

lemma canonical_put:
  assumes "canonical L m" and "entry_ok L f e" and "CanonicalName L f = f"
  shows "canonical L (putEntry e f m)"
proof -
  have "entry_ok L f x" if "x \<in> set (mapGet m f)" for x
    using assms(1) that by (cases "m f") (auto simp: canonical_def)
  with assms(2) set_putList_sub [of e "mapGet m f"]
  have "\<forall>x\<in>set (putList e (mapGet m f)). entry_ok L f x" by blast
  with assms(1,3) show ?thesis by (simp add: canonical_def putEntry_eq)
qed

lemma cache_wf_Delete:
  assumes "cache_wf L d"
  shows "cache_wf L (Delete L d fqdn)"
proof (cases "nilMaps d")
  case False
  let ?f = "CanonicalName L fqdn"
  from assms have idx: "indexed (entriesOf d) (keysOf d)" and can: "canonical L (entriesOf d)"
    by (simp_all add: cache_wf_def)
  from can have "canonical L ((entriesOf d)(?f := None))"
    by (rule canonical_sub) (auto split: if_splits)
  with indexed_delete_name [OF idx] False show ?thesis
    by (simp add: Delete_def Let_def cache_wf_update)
qed (use assms in \<open>simp add: Delete_def\<close>)

lemma cache_wf_DeleteByResourceKey:
  assumes "cache_wf L d"
  shows "cache_wf L (DeleteByResourceKey d k)"
proof (cases "keysOf d k")
  case None
  with assms show ?thesis by (simp add: DeleteByResourceKey_absent)
next
  case (Some f)
  from assms have idx: "indexed (entriesOf d) (keysOf d)" and can: "canonical L (entriesOf d)"
    by (simp_all add: cache_wf_def)
  let ?es = "filter (\<lambda>e. ResourceKey e \<noteq> k) (mapGet (entriesOf d) f)"
  from Some indexed_iff [OF idx, of k f] obtain es0 where "entriesOf d f = Some es0"
    by (cases "entriesOf d f") auto
  then have "canonical L ((entriesOf d)(f \<mapsto> ?es))"
    by (intro canonical_sub [OF can]) (auto split: if_splits)
  with indexed_remove [OF idx Some] show ?thesis
    unfolding DeleteByResourceKey_maps [OF assms Some] by (intro cache_wf_update)
qed

section \<open>The store of entries by resource key\<close>

text \<open>
  The interface the controller works against: entries are put and removed by key, and looking
  a key up gives the last entry put for it, in its normal form. The lemmas hold of any
  sequence of such operations.
\<close>

locale record_store =
  fixes upsert :: "'s \<Rightarrow> 'e \<Rightarrow> 's"
    and delete :: "'s \<Rightarrow> 'k \<Rightarrow> 's"
    and find_by :: "'s \<Rightarrow> 'k \<Rightarrow> 'e option"
    and invar :: "'s \<Rightarrow> bool"
    and key :: "'e \<Rightarrow> 'k"
    and norm :: "'e \<Rightarrow> 'e"
  assumes find_upsert: "invar s \<Longrightarrow> find_by (upsert s e) k = (if k = key e then Some (norm e) else find_by s k)"
    and find_delete: "invar s \<Longrightarrow> find_by (delete s k') k = (if k = k' then None else find_by s k)"
    and invar_upsert: "invar s \<Longrightarrow> invar (upsert s e)"
    and invar_delete: "invar s \<Longrightarrow> invar (delete s k)"
begin

definition store_op :: "'e + 'k \<Rightarrow> 's \<Rightarrow> 's" where
  "store_op x s = (case x of Inl e \<Rightarrow> upsert s e | Inr k \<Rightarrow> delete s k)"

definition op_key :: "'e + 'k \<Rightarrow> 'k" where
  "op_key x = (case x of Inl e \<Rightarrow> key e | Inr k \<Rightarrow> k)"

definition op_value :: "'e + 'k \<Rightarrow> 'e option" where
  "op_value x = (case x of Inl e \<Rightarrow> Some (norm e) | Inr k \<Rightarrow> None)"

lemma find_store_op:
  "invar s \<Longrightarrow> find_by (store_op x s) k = (if k = op_key x then op_value x else find_by s k)"
  by (auto simp: store_op_def op_key_def op_value_def find_upsert find_delete split: sum.split)

lemma invar_store_op: "invar s \<Longrightarrow> invar (store_op x s)"
  by (auto simp: store_op_def invar_upsert invar_delete split: sum.split)

lemma invar_run: "invar s \<Longrightarrow> invar (fold store_op xs s)"
  by (induction xs arbitrary: s) (auto simp: invar_store_op)

lemma find_run:
  assumes "invar s"
  shows "find_by (fold store_op xs s) k =
    (case find (\<lambda>x. op_key x = k) (rev xs) of None \<Rightarrow> find_by s k | Some x \<Rightarrow> op_value x)"
proof (induction xs rule: rev_induct)
  case (snoc x xs)
  have "invar (fold store_op xs s)" using assms by (rule invar_run)
  with snoc find_store_op show ?case by auto
qed simp

end

context dns_names
begin

lemma canon_pow: "0 < n \<Longrightarrow> (CanonicalName L ^^ n) s = CanonicalName L s"
proof (induction n)
  case (Suc n)
  then show ?case by (cases "n = 0") (auto simp: canon_idem)
qed simp

lemma entry_ok_canonEntry: "entry_ok L (CanonicalName L (FQDN e)) (canonEntry L e)"
  by (cases "Addresses e = []")
     (auto simp: entry_ok_def canonEntry_def canon_pow canon_idem)

lemma cache_wf_Upsert:
  assumes "cache_wf L d"
  shows "cache_wf L (Upsert L d e)"
proof -
  from assms have idx: "indexed (entriesOf d) (keysOf d)" and can: "canonical L (entriesOf d)"
    by (simp_all add: cache_wf_def)
  show ?thesis
    unfolding Upsert_maps [OF assms]
    by (intro cache_wf_update indexed_Upsert idx canonical_put canonical_leaveAny can
        entry_ok_canonEntry canon_idem)
qed

lemma LookupByResourceKey_Upsert:
  assumes "cache_wf L d"
  shows "LookupByResourceKey (Upsert L d e) k =
    (if k = ResourceKey e then Some (canonEntry L e) else LookupByResourceKey d k)"
proof -
  from assms have idx: "indexed (entriesOf d) (keysOf d)" by (simp add: cache_wf_def)
  show ?thesis
    unfolding LookupByResourceKey_wf [OF assms] LookupByResourceKey_wf [OF cache_wf_Upsert [OF assms]]
    by (auto simp: Upsert_maps [OF assms] mapGet_Upsert [OF idx] find_filter_key split: option.splits)
qed

lemma LookupByResourceKey_delete:
  assumes "cache_wf L d"
  shows "LookupByResourceKey (DeleteByResourceKey d k') k =
    (if k = k' then None else LookupByResourceKey d k)"
proof (cases "keysOf d k'")
  case None
  with assms show ?thesis by (simp add: DeleteByResourceKey_absent LookupByResourceKey_wf)
next
  case (Some f)
  have get: "mapGet (m(f \<mapsto> xs)) f' = (if f' = f then xs else mapGet m f')" for m f' xs
    by simp
  show ?thesis
    unfolding LookupByResourceKey_wf [OF assms]
      LookupByResourceKey_wf [OF cache_wf_DeleteByResourceKey [OF assms]]
    by (auto simp: DeleteByResourceKey_maps [OF assms Some] get find_filter_key split: option.splits)
qed

lemma LookupByResourceKey_Delete:
  assumes "cache_wf L d"
  shows "LookupByResourceKey (Delete L d f) k =
    (if keysOf d k = Some (CanonicalName L f) then None else LookupByResourceKey d k)"
proof (cases "nilMaps d")
  case True
  with nilMaps_wf [OF assms] show ?thesis by (simp add: Delete_def)
next
  case False
  from assms have idx: "indexed (entriesOf d) (keysOf d)" by (simp add: cache_wf_def)
  from False show ?thesis
    unfolding LookupByResourceKey_wf [OF assms] LookupByResourceKey_wf [OF cache_wf_Delete [OF assms]]
    by (auto simp: Delete_def Let_def fold_delete_keys indexed_iff [OF idx, symmetric] split: option.splits)
qed

end

sublocale dns_names \<subseteq> cache: record_store "Upsert L" DeleteByResourceKey LookupByResourceKey
    "cache_wf L" ResourceKey "canonEntry L"
  by unfold_locales
    (auto simp: LookupByResourceKey_Upsert LookupByResourceKey_delete cache_wf_Upsert
      cache_wf_DeleteByResourceKey)

text \<open>
  An instance of the library functions on names that need no escapes, on which the properties
  are evaluated.
\<close>

definition plain_canon :: "string \<Rightarrow> string" where
  "plain_canon s = strings_ToLower s @ (if s \<noteq> [] \<and> last s = CHR ''.'' then [] else ''.'')"

definition plain_split :: "string \<Rightarrow> string list" where
  "plain_split s =
     (if s = '''' \<or> s = ''.'' then []
      else strings_Split (if last s = CHR ''.'' then butlast s else s) CHR ''.'')"

definition plain_dns :: dns_lib where
  "plain_dns = \<lparr>CanonicalName = plain_canon, SplitDomainName = plain_split\<rparr>"

lemma last_ToLower: "s \<noteq> [] \<Longrightarrow> last (strings_ToLower s) = lower_char (last s)"
  by (simp add: strings_ToLower_def last_map)

lemma plain_canon_idem: "plain_canon (plain_canon s) = plain_canon s"
  by (auto simp: plain_canon_def last_ToLower) (simp_all add: strings_ToLower_def lower_char_def)

lemma Join_nonempty: "xs \<noteq> [] \<Longrightarrow> \<forall>x\<in>set xs. x \<noteq> [] \<Longrightarrow> strings_Join xs sep \<noteq> []"
  by (cases xs; cases "tl xs") auto

lemma plain_split_fq:
  assumes "labels \<noteq> []" and "\<forall>l\<in>set labels. plain_label l"
  shows "plain_split (fq labels) = labels"
proof -
  have "strings_Join labels ''.'' \<noteq> []"
    using assms by (intro Join_nonempty) (auto simp: plain_label_def)
  moreover have "strings_Split (strings_Join labels ''.'') CHR ''.'' = labels"
    using assms by (intro Split_Join) (auto simp: plain_label_def)
  ultimately show ?thesis by (simp add: plain_split_def fq_def)
qed

interpretation plain: dns_names plain_dns
  by unfold_locales
    (simp_all add: plain_dns_def plain_canon_idem plain_split_fq, simp_all add: plain_canon_def plain_split_def)

section \<open>Looking up names\<close>

text \<open>
  The names under which a lookup finds entries, most specific first: the name itself, then the
  wildcards of its ancestors.
\<close>

definition lookup_order :: "string \<Rightarrow> string list \<Rightarrow> string list" where
  "lookup_order name labels = name # map (\<lambda>i. wildcard (drop (Suc i) labels)) [0..<length labels]"

lemma lookupWildcard_first:
  "lookupWildcard m labels =
    (case find (\<lambda>n. m n \<noteq> None) (map (\<lambda>i. wildcard (drop (Suc i) labels)) [0..<length labels]) of
       None \<Rightarrow> [] | Some n \<Rightarrow> mapGet m n)"
proof (induction labels)
  case (Cons l labels)
  have "[0..<length (l # labels)] = 0 # map Suc [0..<length labels]"
    by (simp add: map_Suc_upt upt_conv_Cons del: upt_Suc)
  then have "map (\<lambda>i. wildcard (drop (Suc i) (l # labels))) [0..<length (l # labels)]
    = wildcard labels # map (\<lambda>i. wildcard (drop (Suc i) labels)) [0..<length labels]"
    by simp
  with Cons show ?case by (auto split: option.split)
qed simp

lemma Lookup_first:
  assumes "cache_wf L d"
  shows "Lookup L d name =
    (case find (\<lambda>n. entriesOf d n \<noteq> None)
            (lookup_order (CanonicalName L name) (SplitDomainName L (CanonicalName L name))) of
       None \<Rightarrow> [] | Some n \<Rightarrow> mapGet (entriesOf d) n)"
proof (cases "nilMaps d")
  case True
  then have "find (\<lambda>n. entriesOf d n \<noteq> None) xs = None" for xs
    using nilMaps_wf [OF assms True] by (simp add: find_None_iff)
  with True show ?thesis by (simp add: Lookup_def)
next
  case False
  then show ?thesis
    by (auto simp: Lookup_def Let_def lookup_order_def lookupWildcard_first split: option.split)
qed

context dns_names
begin

text \<open>The entries under a name are those of the resources that carry it.\<close>

lemma entries_by_key:
  assumes "cache_wf L d"
  shows "set (mapGet (entriesOf d) f) =
    {e. CanonicalName L (FQDN e) = f \<and> LookupByResourceKey d (ResourceKey e) = Some e}"
proof -
  from assms have idx: "indexed (entriesOf d) (keysOf d)" and can: "canonical L (entriesOf d)"
    by (simp_all add: cache_wf_def)
  have name: "CanonicalName L (FQDN e) = f'" if "e \<in> set (mapGet (entriesOf d) f')" for e f'
    using can that by (cases "entriesOf d f'") (auto simp: canonical_def entry_ok_def)
  show ?thesis
  proof (intro set_eqI iffI CollectI conjI)
    fix e assume e: "e \<in> set (mapGet (entriesOf d) f)"
    then show "CanonicalName L (FQDN e) = f" by (rule name)
    show "LookupByResourceKey d (ResourceKey e) = Some e"
      using indexed_entry [OF idx e] find_has_key_distinct [OF indexed_distinct [OF idx] e]
      by (simp add: LookupByResourceKey_wf [OF assms])
  next
    fix e assume "e \<in> {e. CanonicalName L (FQDN e) = f \<and> LookupByResourceKey d (ResourceKey e) = Some e}"
    then obtain f' where "find (has_key (ResourceKey e)) (mapGet (entriesOf d) f') = Some e"
      and f: "CanonicalName L (FQDN e) = f"
      by (auto simp: LookupByResourceKey_wf [OF assms] split: option.splits)
    then have "e \<in> set (mapGet (entriesOf d) f')" by (blast dest: find_has_key_SomeD)
    with name f show "e \<in> set (mapGet (entriesOf d) f)" by blast
  qed
qed

lemma canon_case:
  assumes "plain_name s" and "plain_name t" and "strings_ToLower s = strings_ToLower t"
  shows "CanonicalName L s = CanonicalName L t"
proof -
  have nil: "s = [] \<longleftrightarrow> t = []" using assms(3) by (metis ToLower_Nil(2))
  have "s \<noteq> [] \<Longrightarrow> last s = CHR ''.'' \<longleftrightarrow> last t = CHR ''.''"
    using assms(3) last_ToLower [of s] last_ToLower [of t] nil by (metis lower_char_dot)
  with nil assms show ?thesis by (auto simp: canon_plain)
qed

lemma canon_dot: "plain_name s \<Longrightarrow> s \<noteq> [] \<Longrightarrow> last s \<noteq> CHR ''.'' \<Longrightarrow>
    CanonicalName L (s @ ''.'') = CanonicalName L s"
  by (simp add: canon_plain plain_name_def plain_char_def strings_ToLower_def lower_char_def)

text \<open>Names made of lower-case labels are their own canonical form.\<close>

lemma canon_fq:
  assumes "\<forall>l\<in>set labels. plain_label l \<and> strings_ToLower l = l"
  shows "CanonicalName L (fq labels) = fq labels"
proof -
  have pl: "\<forall>l\<in>set labels. \<forall>c\<in>set l. plain_char c" using assms unfolding plain_label_def by blast
  have dot: "plain_char CHR ''.''" by (simp add: plain_char_def)
  have "plain_name (fq labels)"
    unfolding plain_name_def fq_def
  proof
    fix c assume "c \<in> set (strings_Join labels ''.'' @ ''.'')"
    then consider "c \<in> set (strings_Join labels ''.'')" | "c \<in> set ''.''" by (metis Un_iff set_append)
    then have "c = CHR ''.'' \<or> (\<exists>l\<in>set labels. c \<in> set l)"
      by cases (use set_Join [of c labels "''.''"] in \<open>simp_all, blast?\<close>)
    then show "plain_char c" using pl dot by blast
  qed
  moreover have "map strings_ToLower labels = labels" using assms by (simp add: map_idI)
  then have "strings_ToLower (fq labels) = fq labels"
    by (simp add: fq_def ToLower_Join) (simp add: strings_ToLower_def lower_char_def)
  ultimately show ?thesis by (simp add: canon_plain) (simp add: fq_def)
qed

end

section \<open>Valid names\<close>

lemma validAddresses_eq:
  "validAddresses n c as =
    (if c then if as = [] then Some (n, c) else None
     else if \<forall>a\<in>set as. ParseIP a \<noteq> None then Some (n + length as, False)
     else if n = 0 \<and> length as = 1 then Some (0, True) else None)"
proof (induction n c as rule: validAddresses.induct)
  case (2 n c a as)
  show ?case
  proof (cases c)
    case False
    show ?thesis
    proof (cases "ParseIP a = None")
      case True
      with False "2.IH"(2) [OF \<open>\<not> c\<close>] show ?thesis by (cases "n = 0") auto
    next
      case ip: False
      with False "2.IH"(1) [OF False] have
        "validAddresses n c (a # as) = validAddresses (n + 1) False as"
        and "validAddresses (n + 1) False as =
          (if \<forall>a\<in>set as. ParseIP a \<noteq> None then Some (n + 1 + length as, False) else None)"
        by simp_all
      with ip False show ?thesis by (auto simp del: validAddresses.simps)
    qed
  qed simp
qed simp

lemma validEntries_eq:
  "validEntries n c es \<longleftrightarrow>
    (let as = concat (map Addresses es) in
     if c then as = [] else (\<forall>a\<in>set as. ParseIP a \<noteq> None) \<or> n = 0 \<and> length as = 1)"
proof (induction n c es rule: validEntries.induct)
  case (2 n c e es)
  show ?case
  proof (cases "validAddresses n c (Addresses e)")
    case None
    then show ?thesis
      by (auto simp: Let_def validAddresses_eq split: if_splits) (cases "Addresses e"; auto)+
  next
    case (Some nc)
    obtain n' c' where nc: "nc = (n', c')" by (cases nc)
    with Some 2 have IH: "validEntries n' c' es \<longleftrightarrow>
      (let as = concat (map Addresses es) in
       if c' then as = [] else (\<forall>a\<in>set as. ParseIP a \<noteq> None) \<or> n' = 0 \<and> length as = 1)" by simp
    from Some nc have "validEntries n c (e # es) = validEntries n' c' es" by simp
    then show ?thesis
      unfolding IH using Some nc
      by (auto simp: Let_def validAddresses_eq split: if_splits) (cases "Addresses e"; auto)+
  qed
qed simp

section \<open>Histories of a cache\<close>

inductive cache_step :: "dns_lib \<Rightarrow> DNSCache \<Rightarrow> DNSCache \<Rightarrow> bool" for L :: dns_lib where
  upsert: "cache_step L d (Upsert L d e)"
| delete: "cache_step L d (Delete L d f)"
| delete_by_key: "cache_step L d (DeleteByResourceKey d k)"
| set_populated: "cache_step L d (SetPopulated d)"

inductive cache_reachable :: "dns_lib \<Rightarrow> DNSCache \<Rightarrow> bool" for L :: dns_lib where
  new: "cache_reachable L newDNSCache"
| step: "cache_reachable L d \<Longrightarrow> cache_step L d d' \<Longrightarrow> cache_reachable L d'"

inductive_cases cache_stepE: "cache_step L d d'"

context dns_names
begin

lemma cache_step_wf: "cache_step L d d' \<Longrightarrow> cache_wf L d \<Longrightarrow> cache_wf L d'"
  by (auto elim!: cache_stepE intro: cache_wf_Upsert cache_wf_Delete cache_wf_DeleteByResourceKey
      cache_wf_SetPopulated)

lemma cache_reachable_wf: "cache_reachable L d \<Longrightarrow> cache_wf L d"
  by (induction rule: cache_reachable.induct) (auto intro: cache_wf_new cache_step_wf)

lemma name_of_key:
  assumes "cache_wf L d"
  shows "keysOf d k = Some f \<longleftrightarrow> (\<exists>e. LookupByResourceKey d k = Some e \<and> CanonicalName L (FQDN e) = f)"
proof -
  from assms have idx: "indexed (entriesOf d) (keysOf d)" by (simp add: cache_wf_def)
  show ?thesis
  proof
    assume "keysOf d k = Some f"
    with indexed_iff [OF idx] obtain e where "e \<in> set (mapGet (entriesOf d) f)" and "ResourceKey e = k"
      by auto
    with entries_by_key [OF assms] show "\<exists>e. LookupByResourceKey d k = Some e \<and> CanonicalName L (FQDN e) = f"
      by blast
  next
    assume "\<exists>e. LookupByResourceKey d k = Some e \<and> CanonicalName L (FQDN e) = f"
    then obtain e where e: "LookupByResourceKey d k = Some e" "CanonicalName L (FQDN e) = f" by blast
    then have "ResourceKey e = k"
      by (auto simp: LookupByResourceKey_wf [OF assms] split: option.splits dest: find_has_key_SomeD)
    with e entries_by_key [OF assms] have "e \<in> set (mapGet (entriesOf d) f)" by blast
    with indexed_entry [OF idx] \<open>ResourceKey e = k\<close> show "keysOf d k = Some f" by blast
  qed
qed

lemma Lookup_last_deleted:
  assumes "cache_wf L d" and "entriesOf d (CanonicalName L f) = Some [e]"
  shows "entriesOf (DeleteByResourceKey d (ResourceKey e)) (CanonicalName L f) = Some []"
    and "Lookup L (DeleteByResourceKey d (ResourceKey e)) f = []"
proof -
  from assms(1) have idx: "indexed (entriesOf d) (keysOf d)" by (simp add: cache_wf_def)
  have key: "keysOf d (ResourceKey e) = Some (CanonicalName L f)"
    using indexed_entry [OF idx] assms(2) by simp
  show "entriesOf (DeleteByResourceKey d (ResourceKey e)) (CanonicalName L f) = Some []"
    and "Lookup L (DeleteByResourceKey d (ResourceKey e)) f = []"
    using assms(2) by (simp_all add: DeleteByResourceKey_maps [OF assms(1) key] Lookup_def)
qed

end

section \<open>Properties of the cache\<close>

text \<open>A cache with a wildcard and, under it, a name of its own; the witnesses look at it.\<close>

definition ex_wild :: DNSCacheEntry where
  "ex_wild = \<lparr>ResourceKey = ''xcc-dns/wild'', FQDN = ''*.b.c'', Addresses = [''1.2.3.4'']\<rparr>"

definition ex_foo :: DNSCacheEntry where
  "ex_foo = \<lparr>ResourceKey = ''xcc-dns/foo'', FQDN = ''Foo.b.c'', Addresses = [''FOO.com'']\<rparr>"

definition ex_cache :: DNSCache where
  "ex_cache = Upsert plain_dns (Upsert plain_dns newDNSCache ex_wild) ex_foo"

lemma ex_cache_wf: "cache_wf plain_dns ex_cache"
  unfolding ex_cache_def by (intro plain.cache_wf_Upsert cache_wf_new)

lemma ex_cache_foo:
  "entriesOf ex_cache (CanonicalName plain_dns ''foo.b.c'') = Some [canonEntry plain_dns ex_foo]"
  by code_simp

text \<open>
  C8. The cache refines a map from resource keys to entries: \<open>Upsert\<close> stores the entry
  in canonical form under its key, \<open>DeleteByResourceKey\<close> removes one key, and
  \<open>Delete\<close> removes the keys whose entries carry the name; every other key keeps its entry.
\<close>

theorem cache_refines_map:
  assumes "dns_names L" and "cache_wf L d"
  shows "LookupByResourceKey (Upsert L d e) = (LookupByResourceKey d)(ResourceKey e \<mapsto> canonEntry L e) \<and>
    LookupByResourceKey (DeleteByResourceKey d k) = (LookupByResourceKey d)(k := None) \<and>
    LookupByResourceKey (Delete L d f) = (\<lambda>k. case LookupByResourceKey d k of
           Some e \<Rightarrow> if CanonicalName L (FQDN e) = CanonicalName L f then None else Some e
         | None \<Rightarrow> None)"
proof (intro conjI)
  show "LookupByResourceKey (Upsert L d e) = (LookupByResourceKey d)(ResourceKey e \<mapsto> canonEntry L e)"
    using dns_names.LookupByResourceKey_Upsert [OF assms] by (simp add: fun_eq_iff)
  show "LookupByResourceKey (DeleteByResourceKey d k) = (LookupByResourceKey d)(k := None)"
    using dns_names.LookupByResourceKey_delete [OF assms] by (simp add: fun_eq_iff)
  show "LookupByResourceKey (Delete L d f) = (\<lambda>k. case LookupByResourceKey d k of
           Some e \<Rightarrow> if CanonicalName L (FQDN e) = CanonicalName L f then None else Some e
         | None \<Rightarrow> None)"
    using dns_names.name_of_key [OF assms]
    by (auto simp: fun_eq_iff dns_names.LookupByResourceKey_Delete [OF assms] split: option.splits)
qed

theorem cache_refines_map_witness:
  "dns_names plain_dns \<and> cache_wf plain_dns ex_cache \<and>
   LookupByResourceKey (DeleteByResourceKey ex_cache ''xcc-dns/wild'') ''xcc-dns/foo''
     = LookupByResourceKey ex_cache ''xcc-dns/foo''"
  using plain.dns_names_axioms ex_cache_wf
    cache_refines_map [OF plain.dns_names_axioms ex_cache_wf, of ex_foo "''xcc-dns/wild''" "''b.c''"]
  by simp

text \<open>
  C13. Every cache that the operations can produce from an empty one is well formed: the two
  maps agree, no resource has two entries, names are canonical, and every address is an IP
  address or a canonical name.
\<close>

theorem cache_always_wf:
  assumes "dns_names L" and "cache_reachable L d"
  shows "cache_wf L d"
  using assms by (rule dns_names.cache_reachable_wf)

theorem cache_always_wf_witness:
  "cache_reachable plain_dns (DeleteByResourceKey (Upsert plain_dns newDNSCache ex_wild) ''xcc-dns/wild'') \<and>
   cache_wf plain_dns (DeleteByResourceKey (Upsert plain_dns newDNSCache ex_wild) ''xcc-dns/wild'')"
proof -
  have r: "cache_reachable plain_dns (DeleteByResourceKey (Upsert plain_dns newDNSCache ex_wild) ''xcc-dns/wild'')"
    by (meson cache_reachable.intros cache_step.intros)
  with cache_always_wf [OF plain.dns_names_axioms r] show ?thesis by simp
qed

text \<open>
  C11. A lookup answers with the entries of the most specific name that is present: the name
  itself, otherwise the wildcard of its nearest ancestor, with nothing under the wildcards of
  nearer ancestors.
\<close>

theorem Lookup_most_specific:
  assumes "dns_names L" and "cache_wf L d"
    and "labels \<noteq> []" and "\<forall>l\<in>set labels. plain_label l \<and> strings_ToLower l = l"
  shows "Lookup L d (fq labels) =
    (case find (\<lambda>n. entriesOf d n \<noteq> None) (lookup_order (fq labels) labels) of
       None \<Rightarrow> [] | Some n \<Rightarrow> mapGet (entriesOf d) n)"
proof -
  have "CanonicalName L (fq labels) = fq labels" by (rule dns_names.canon_fq [OF assms(1,4)])
  moreover have "SplitDomainName L (fq labels) = labels"
    using assms(3,4) by (intro dns_names.split_plain [OF assms(1)]) auto
  ultimately show ?thesis by (simp add: Lookup_first [OF assms(2)])
qed

theorem Lookup_most_specific_witness:
  "Lookup plain_dns ex_cache (fq [''x'', ''y'', ''b'', ''c''])
     = (case find (\<lambda>n. entriesOf ex_cache n \<noteq> None)
              [''x.y.b.c.'', ''*.y.b.c.'', ''*.b.c.'', ''*.c.'', ''*..''] of
          None \<Rightarrow> [] | Some n \<Rightarrow> mapGet (entriesOf ex_cache) n)"
proof -
  let ?ls = "[''x'', ''y'', ''b'', ''c'']"
  have l: "?ls \<noteq> []" and p: "\<forall>l\<in>set ?ls. plain_label l \<and> strings_ToLower l = l" by code_simp+
  have "lookup_order (fq ?ls) ?ls = [''x.y.b.c.'', ''*.y.b.c.'', ''*.b.c.'', ''*.c.'', ''*..'']"
    by code_simp
  with Lookup_most_specific [OF plain.dns_names_axioms ex_cache_wf l p] show ?thesis by simp
qed

text \<open>
  C14. A lookup of a name that is present returns exactly the entries, one per resource, of the
  resources whose name has the same canonical form.
\<close>

theorem Lookup_exact:
  assumes "dns_names L" and "cache_wf L d" and "entriesOf d (CanonicalName L f) \<noteq> None"
  shows "set (Lookup L d f) =
    {e. CanonicalName L (FQDN e) = CanonicalName L f \<and> LookupByResourceKey d (ResourceKey e) = Some e}
    \<and> distinct (map ResourceKey (Lookup L d f))"
proof (intro conjI)
  have lookup: "Lookup L d f = mapGet (entriesOf d) (CanonicalName L f)"
    using assms(3) by (auto simp: Lookup_first [OF assms(2)] lookup_order_def)
  show "set (Lookup L d f) =
    {e. CanonicalName L (FQDN e) = CanonicalName L f \<and> LookupByResourceKey d (ResourceKey e) = Some e}"
    unfolding lookup by (rule dns_names.entries_by_key [OF assms(1,2)])
  show "distinct (map ResourceKey (Lookup L d f))"
    unfolding lookup using assms(2) by (intro indexed_distinct [of _ "keysOf d"]) (simp add: cache_wf_def)
qed

theorem Lookup_exact_witness:
  "distinct (map ResourceKey (Lookup plain_dns ex_cache ''foo.b.c''))"
  using Lookup_exact [OF plain.dns_names_axioms ex_cache_wf, of "''foo.b.c''"] ex_cache_foo by simp

text \<open>
  Lookups do not depend on the case of the name or on its final dot.
\<close>

theorem Lookup_spelling:
  assumes "dns_names L" and "plain_name s" and "plain_name t" and "s \<noteq> []" and "last s \<noteq> CHR ''.''"
    and "strings_ToLower t = strings_ToLower s \<or> strings_ToLower t = strings_ToLower (s @ ''.'')"
  shows "Lookup L d t = Lookup L d s"
proof -
  have s': "plain_name (s @ ''.'')" using assms(2) by (simp add: plain_name_def plain_char_def)
  have "CanonicalName L t = CanonicalName L s"
    using assms(6) dns_names.canon_case [OF assms(1,3,2)] dns_names.canon_case [OF assms(1,3) s']
      dns_names.canon_dot [OF assms(1,2,4,5)]
    by auto
  then show ?thesis by (simp add: Lookup_def)
qed

theorem Lookup_spelling_witness:
  "Lookup plain_dns ex_cache ''FOO.b.c.'' = Lookup plain_dns ex_cache ''foo.b.c''"
  by (rule Lookup_spelling [OF plain.dns_names_axioms]) code_simp+

text \<open>
  C15. \<open>IsValid\<close> holds of a name exactly when it has entries and their addresses are all
  IP addresses or a single alias: the rule on CNAME records of RFC 1034, section 3.6.2.
\<close>

theorem IsValid_iff:
  assumes "dns_names L"
  shows "IsValid L d f \<longleftrightarrow> Lookup L d f \<noteq> [] \<and>
    (let as = concat (map Addresses (Lookup L d f)) in
     (\<forall>a\<in>set as. ParseIP a \<noteq> None) \<or> (length as = 1 \<and> ParseIP (hd as) = None))"
proof -
  have lookup: "Lookup L d (CanonicalName L f) = Lookup L d f"
    using dns_names.canon_idem [OF assms] by (simp add: Lookup_def)
  have one: "((\<forall>a\<in>set as. ParseIP a \<noteq> None) \<or> length as = 1) \<longleftrightarrow>
      ((\<forall>a\<in>set as. ParseIP a \<noteq> None) \<or> (length as = 1 \<and> ParseIP (hd as) = None))"
    for as :: "string list"
    by (cases as) auto
  show ?thesis
    unfolding IsValid_def lookup Let_def one [symmetric] by (simp add: validEntries_eq Let_def)
qed

theorem IsValid_iff_witness:
  "IsValid plain_dns ex_cache ''foo.b.c'' \<longleftrightarrow> Lookup plain_dns ex_cache ''foo.b.c'' \<noteq> [] \<and>
    (let as = concat (map Addresses (Lookup plain_dns ex_cache ''foo.b.c'')) in
     (\<forall>a\<in>set as. ParseIP a \<noteq> None) \<or> (length as = 1 \<and> ParseIP (hd as) = None))"
  by (rule IsValid_iff [OF plain.dns_names_axioms])

text \<open>
  C17. When \<open>DeleteByResourceKey\<close> removes the last entry of a name, the name stays behind
  with no entries, and a lookup of it finds nothing even where a wildcard covers it; after
  \<open>Delete\<close> of the name the wildcard answers.
\<close>

theorem DeleteByResourceKey_shadows_wildcard:
  assumes "dns_names L" and "cache_wf L d" and "entriesOf d (CanonicalName L f) = Some [e]"
  shows "Lookup L (DeleteByResourceKey d (ResourceKey e)) f = [] \<and>
    Lookup L (Delete L d f) f
      = lookupWildcard ((entriesOf d)(CanonicalName L f := None)) (SplitDomainName L (CanonicalName L f))"
proof (intro conjI)
  show "Lookup L (DeleteByResourceKey d (ResourceKey e)) f = []"
    by (rule dns_names.Lookup_last_deleted [OF assms])
  have "\<not> nilMaps d" using assms(3) nilMaps_wf [OF assms(2)] by auto
  then show "Lookup L (Delete L d f) f
      = lookupWildcard ((entriesOf d)(CanonicalName L f := None)) (SplitDomainName L (CanonicalName L f))"
    by (simp add: Delete_def Let_def Lookup_def)
qed

theorem DeleteByResourceKey_shadows_wildcard_witness:
  "Lookup plain_dns (DeleteByResourceKey ex_cache ''xcc-dns/foo'') ''foo.b.c'' = [] \<and>
   Lookup plain_dns (Delete plain_dns ex_cache ''foo.b.c'') ''foo.b.c'' = [canonEntry plain_dns ex_wild]"
proof -
  have "lookupWildcard ((entriesOf ex_cache)(CanonicalName plain_dns ''foo.b.c'' := None))
      (SplitDomainName plain_dns (CanonicalName plain_dns ''foo.b.c'')) = [canonEntry plain_dns ex_wild]"
    by code_simp
  moreover have "ResourceKey (canonEntry plain_dns ex_foo) = ''xcc-dns/foo''" by code_simp
  ultimately show ?thesis
    using DeleteByResourceKey_shadows_wildcard [OF plain.dns_names_axioms ex_cache_wf ex_cache_foo] by simp
qed

end
