(* ===== verification/Kube_API.thy ===== *)
theory Kube_API
  imports Go_Prelude
begin

text \<open>
  The objects the programs exchange with the API servers: the custom resource \<open>GatewayDNS\<close>
  with its annotations (\<open>apis/connectivity/v1alpha1\<close>), and of the Kubernetes types the
  fields that the programs read, write or compare. Fields that are only carried along are kept
  as uninterpreted name-value pairs. The functions of the Kubernetes libraries that the
  programs call on these objects are parameters, collected in the record \<open>kube_lib\<close>.
\<close>

section \<open>The connectivity API\<close>

definition DNSHostnameAnnotation :: string where
  "DNSHostnameAnnotation = ''connectivity.tanzu.vmware.com/dns-hostname''"

definition GatewayDNSRefAnnotation :: string where
  "GatewayDNSRefAnnotation = ''connectivity.tanzu.vmware.com/gateway-dns-ref''"

lemma annotations_distinct [simp]:
  "DNSHostnameAnnotation \<noteq> GatewayDNSRefAnnotation" "GatewayDNSRefAnnotation \<noteq> DNSHostnameAnnotation"
  by (simp_all add: DNSHostnameAnnotation_def GatewayDNSRefAnnotation_def)

record NamespacedName =
  Namespace :: string
  Name :: string

record LabelSelector =
  MatchLabels :: "(string \<times> string) list"
  MatchExpressions :: "(string \<times> string \<times> string list) list"

record GatewayDNSSpec =
  ClusterSelector :: LabelSelector
  spec_Service :: string
  ResolutionType :: string

definition ResolutionTypeLoadBalancer :: string where
  "ResolutionTypeLoadBalancer = ''loadBalancer''"

record GatewayDNS =
  gd_Namespace :: string
  gd_Name :: string
  gd_Spec :: GatewayDNSSpec

definition gd_key :: "GatewayDNS \<Rightarrow> NamespacedName" where
  "gd_key g = \<lparr>Namespace = gd_Namespace g, Name = gd_Name g\<rparr>"

section \<open>Kubernetes objects\<close>

type_synonym uninterpreted = "(string \<times> string) list"

datatype AddressType = AddressTypeIPv4 | AddressTypeIPv6 | AddressTypeFQDN | AddressTypeOther string

record Endpoint =
  ep_Addresses :: "string list option"
  ep_Other :: uninterpreted

type_synonym EndpointPort = uninterpreted

record EndpointSlice =
  es_Namespace :: string
  es_Name :: string
  es_Annotations :: string_map
  es_Labels :: string_map
  es_AddressType :: AddressType
  es_Endpoints :: "Endpoint list option"
  es_Ports :: "EndpointPort list option"
  es_OtherMeta :: uninterpreted

definition es_key :: "EndpointSlice \<Rightarrow> NamespacedName" where
  "es_key e = \<lparr>Namespace = es_Namespace e, Name = es_Name e\<rparr>"

datatype ServiceType = ServiceTypeLoadBalancer | ServiceTypeOther string

record LoadBalancerIngress =
  ing_IP :: string
  ing_Hostname :: string

record Service =
  svc_Type :: ServiceType
  svc_ClusterIP :: string
  svc_Ingress :: "LoadBalancerIngress list"

record Cluster =
  cl_Namespace :: string
  cl_Name :: string
  cl_Labels :: string_map

definition cl_key :: "Cluster \<Rightarrow> NamespacedName" where
  "cl_key c = \<lparr>Namespace = cl_Namespace c, Name = cl_Name c\<rparr>"

lemma key_simps [simp]:
  "Namespace (gd_key g) = gd_Namespace g" "Name (gd_key g) = gd_Name g"
  "Namespace (es_key e) = es_Namespace e" "Name (es_key e) = es_Name e"
  "Namespace (cl_key c) = cl_Namespace c" "Name (cl_key c) = cl_Name c"
  by (simp_all add: gd_key_def es_key_def cl_key_def)

record ConfigMap =
  cm_key :: NamespacedName
  cm_Data :: string_map
  cm_Other :: uninterpreted

section \<open>Events\<close>

text \<open>The events of a watch, an update with the object before and after, and the objects of an event\<close>

datatype 'o event = CreateEvent 'o | UpdateEvent 'o 'o | DeleteEvent 'o | GenericEvent 'o

primrec event_objects :: "'o event \<Rightarrow> 'o list" where
  "event_objects (CreateEvent x) = [x]"
| "event_objects (UpdateEvent x y) = [x, y]"
| "event_objects (DeleteEvent x) = [x]"
| "event_objects (GenericEvent x) = [x]"

section \<open>Library functions\<close>

text \<open>
  \<open>NamespacedName.String\<close> and \<open>types.Separator\<close> of \<open>k8s.io/apimachinery/pkg/types\<close>, and
  \<open>metav1.LabelSelectorAsSelector\<close>, whose result is used through its method \<open>Matches\<close>.
\<close>

record kube_lib =
  nnString :: "NamespacedName \<Rightarrow> string"
  Separator :: char
  LabelSelectorAsSelector :: "LabelSelector \<Rightarrow> (string_map \<Rightarrow> bool) go_result"

text \<open>
  A namespaced name in the form the API servers admit: its parts are not empty and do not
  contain the separator. The library prints such a name as \<open>namespace/name\<close>; what the
  programs rely on is that different names are printed differently.
\<close>

definition valid_name :: "kube_lib \<Rightarrow> NamespacedName \<Rightarrow> bool" where
  "valid_name K n \<longleftrightarrow> Namespace n \<noteq> [] \<and> Name n \<noteq> [] \<and>
     Separator K \<notin> set (Namespace n) \<and> Separator K \<notin> set (Name n)"

locale kube_names =
  fixes K :: kube_lib
  assumes nnString_valid: "valid_name K n \<Longrightarrow> nnString K n = Namespace n @ Separator K # Name n"
    and selector_returns: "LabelSelectorAsSelector K s \<noteq> Panic p"
begin

lemma nnString_inj:
  assumes "valid_name K m" and "valid_name K n" and "nnString K m = nnString K n"
  shows "m = n"
proof -
  have "strings_Split (nnString K m) (Separator K) = [Namespace m, Name m]"
    and "strings_Split (nnString K n) (Separator K) = [Namespace n, Name n]"
    using assms(1,2) by (auto simp: nnString_valid Split_append Split_no_sep valid_name_def)
  with assms(3) show ?thesis by simp
qed

end

text \<open>
  An instance: names joined by a slash, and selectors that require labels to have given values
  and reject every other requirement.
\<close>

definition slash_kube :: kube_lib where
  "slash_kube = \<lparr>
     nnString = (\<lambda>n. Namespace n @ CHR ''/'' # Name n),
     Separator = CHR ''/'',
     LabelSelectorAsSelector = (\<lambda>s.
       if MatchExpressions s = [] then Ok (\<lambda>ls. \<forall>(k, v)\<in>set (MatchLabels s). smLookup ls k = Some v)
       else Err (OtherError ''not a valid label selector operator''))\<rparr>"

interpretation slash: kube_names slash_kube
  by unfold_locales (simp_all add: slash_kube_def)

end
