(* ===== verification/EndpointSlice_DNS.thy ===== *)
theory EndpointSlice_DNS
  imports DNS_Cache Kube_API
begin

text \<open>
  The controller of the DNS server (\<open>pkg/controllers/endpointslicedns/controller.go\<close>): for
  each EndpointSlice of its namespace that changed it reads the slice and brings the record
  cache up to date. \<open>Client.Get\<close> is a parameter; a call returns the slice, an error or, where
  the code dereferences the entry it did not find, a panic. The log lines are part of the
  result, since the check of \<open>IsValid\<close> is only reported there.

  The second half is the controller in its environment as a step relation: slices are created,
  changed and deleted at any time, each change leaves a request in the work queue, requests are
  reconciled in any order, and a panic restarts the server with an empty cache.
\<close>

section \<open>The reconciler\<close>

datatype dns_log =
    LogDeleted string
  | LogFailedToGet
  | LogInvalidIP string
  | LogSkipping
  | LogSynced string
  | LogInvalidState string

text \<open>The loop over the addresses of an IPv4 slice: addresses that parse are kept in the form Go prints.\<close>

fun ipv4Addresses :: "string list \<Rightarrow> string list \<times> dns_log list" where
  "ipv4Addresses [] = ([], [])"
| "ipv4Addresses (a # as) =
     (let (xs, ls) = ipv4Addresses as in
      case ParseIP a of
        None \<Rightarrow> (xs, LogInvalidIP a # ls)
      | Some ip \<Rightarrow> (ip_String ip # xs, ls))"

definition sliceAddresses :: "EndpointSlice \<Rightarrow> string list" where
  "sliceAddresses s = concat (map (\<lambda>ep. elems (ep_Addresses ep)) (elems (es_Endpoints s)))"

type_synonym dns_outcome = "unit go_result \<times> DNSCache \<times> dns_log list"

definition upsertAndCheck ::
    "dns_lib \<Rightarrow> DNSCache \<Rightarrow> string \<Rightarrow> string \<Rightarrow> string list \<Rightarrow> dns_log list \<Rightarrow> dns_outcome" where
  "upsertAndCheck L d key fqdn addresses ls =
     (let d' = Upsert L d \<lparr>ResourceKey = key, FQDN = fqdn, Addresses = addresses\<rparr> in
      (Ok (), d', ls @ [LogSynced fqdn] @ (if IsValid L d' fqdn then [] else [LogInvalidState fqdn])))"

definition EndpointSliceReconciler_Reconcile ::
    "dns_lib \<Rightarrow> kube_lib \<Rightarrow> (NamespacedName \<Rightarrow> EndpointSlice go_result) \<Rightarrow> DNSCache
       \<Rightarrow> NamespacedName \<Rightarrow> dns_outcome" where
  "EndpointSliceReconciler_Reconcile L K getSlice d req =
     (case getSlice req of
        Err err \<Rightarrow>
          if IsNotFound err then
            (let entry = LookupByResourceKey d (nnString K req);
                 d' = DeleteByResourceKey d (nnString K req)
             in case entry of
                  None \<Rightarrow> (Panic NilPointerDereference, d', [])
                | Some e \<Rightarrow> (Ok (), d', [LogDeleted (FQDN e)]))
          else (Err err, d, [LogFailedToGet])
      | Panic p \<Rightarrow> (Panic p, d, [])
      | Ok s \<Rightarrow>
          (case smLookup (es_Annotations s) DNSHostnameAnnotation of
             None \<Rightarrow> (Ok (), d, [])
           | Some fqdn \<Rightarrow>
               (case es_AddressType s of
                  AddressTypeIPv4 \<Rightarrow>
                    (let (addresses, ls) = ipv4Addresses (sliceAddresses s)
                     in upsertAndCheck L d (nnString K req) fqdn addresses ls)
                | AddressTypeFQDN \<Rightarrow>
                    upsertAndCheck L d (nnString K req) fqdn (sliceAddresses s) []
                | _ \<Rightarrow> (Ok (), d, [LogSkipping]))))"

section \<open>The entry of a slice\<close>

text \<open>
  What a slice should put into the cache: nothing when it carries no name or has a type of
  address the server does not serve.
\<close>

definition slice_addresses :: "EndpointSlice \<Rightarrow> string list option" where
  "slice_addresses s =
     (case es_AddressType s of
        AddressTypeIPv4 \<Rightarrow> Some (map ip_String (List.map_filter ParseIP (sliceAddresses s)))
      | AddressTypeFQDN \<Rightarrow> Some (sliceAddresses s)
      | _ \<Rightarrow> None)"

definition slice_entry :: "string \<Rightarrow> EndpointSlice \<Rightarrow> DNSCacheEntry option" where
  "slice_entry key s =
     (case (smLookup (es_Annotations s) DNSHostnameAnnotation, slice_addresses s) of
        (Some fqdn, Some as) \<Rightarrow> Some \<lparr>ResourceKey = key, FQDN = fqdn, Addresses = as\<rparr>
      | _ \<Rightarrow> None)"

lemma ipv4Addresses_eq: "fst (ipv4Addresses as) = map ip_String (List.map_filter ParseIP as)"
  by (induction as) (auto simp: List.map_filter_simps split: option.splits prod.splits)

lemma slice_entry_key: "slice_entry k s = Some e \<Longrightarrow> ResourceKey e = k"
  by (auto simp: slice_entry_def split: option.splits)

lemma upsertAndCheck_result:
  "fst (upsertAndCheck L d k f as ls) = Ok ()"
  "fst (snd (upsertAndCheck L d k f as ls)) = Upsert L d \<lparr>ResourceKey = k, FQDN = f, Addresses = as\<rparr>"
  by (simp_all add: upsertAndCheck_def Let_def)

lemma Reconcile_found:
  assumes "getSlice req = Ok s"
    and "EndpointSliceReconciler_Reconcile L K getSlice d req = (r, d', ls)"
  shows "r = Ok ()"
    and "d' = (case slice_entry (nnString K req) s of None \<Rightarrow> d | Some e \<Rightarrow> Upsert L d e)"
proof -
  obtain as0 ls0 where ip: "ipv4Addresses (sliceAddresses s) = (as0, ls0)" by fastforce
  then have as0: "as0 = map ip_String (List.map_filter ParseIP (sliceAddresses s))"
    using ipv4Addresses_eq [of "sliceAddresses s"] by simp
  show "r = Ok ()" and "d' = (case slice_entry (nnString K req) s of None \<Rightarrow> d | Some e \<Rightarrow> Upsert L d e)"
    using assms ip as0
    by (auto simp: EndpointSliceReconciler_Reconcile_def slice_entry_def slice_addresses_def
        upsertAndCheck_def Let_def split: option.splits AddressType.splits)
qed

lemma Reconcile_gone:
  assumes "getSlice req = Err NotFound"
    and "EndpointSliceReconciler_Reconcile L K getSlice d req = (r, d', ls)"
  shows "d' = DeleteByResourceKey d (nnString K req)"
    and "r = (if LookupByResourceKey d (nnString K req) = None then Panic NilPointerDereference else Ok ())"
  using assms by (auto simp: EndpointSliceReconciler_Reconcile_def Let_def split: option.splits)

lemma Reconcile_failed:
  assumes "getSlice req = Err err" and "err \<noteq> NotFound"
  shows "EndpointSliceReconciler_Reconcile L K getSlice d req = (Err err, d, [LogFailedToGet])"
  using assms by (simp add: EndpointSliceReconciler_Reconcile_def)

lemmas Reconcile_cases = Reconcile_found Reconcile_gone Reconcile_failed

lemma map_filter_ParseIP:
  "a \<in> set (map ip_String (List.map_filter ParseIP as)) \<Longrightarrow> ParseIP a \<noteq> None"
  by (auto simp: List.map_filter_def ParseIP_String_again)

text \<open>The addresses of an IPv4 slice are IP addresses, also after the cache has stored them.\<close>

lemma slice_entry_ipv4:
  assumes "slice_entry k s = Some e" and "es_AddressType s = AddressTypeIPv4"
  shows "\<forall>a\<in>set (Addresses (canonEntry L e)). ParseIP a \<noteq> None"
proof -
  from assms have "\<forall>a\<in>set (Addresses e). ParseIP a \<noteq> None"
    using map_filter_ParseIP by (auto simp: slice_entry_def slice_addresses_def split: option.splits)
  moreover from this have "Addresses (canonEntry L e) = Addresses e"
    by (auto simp: canonEntry_def intro!: map_idI)
  ultimately show ?thesis by simp
qed

context dns_names
begin

lemma Reconcile_wf:
  assumes "cache_wf L d" and "EndpointSliceReconciler_Reconcile L K getSlice d req = (r, d', ls)"
  shows "cache_wf L d'"
proof (cases "getSlice req")
  case (Ok s)
  with Reconcile_found(2) [OF Ok assms(2)] assms(1) show ?thesis
    by (auto intro: cache_wf_Upsert split: option.splits)
next
  case (Err e)
  show ?thesis
  proof (cases "e = NotFound")
    case True
    with Reconcile_gone(1) [of getSlice req L K d] Err assms show ?thesis
      by (simp add: cache_wf_DeleteByResourceKey)
  next
    case False
    with Reconcile_failed [of getSlice req e L K d] Err assms show ?thesis by simp
  qed
next
  case (Panic p)
  with assms show ?thesis by (simp add: EndpointSliceReconciler_Reconcile_def)
qed

end

section \<open>The controller in its environment\<close>

text \<open>
  The slices of the namespace as the informer shows them, the record cache, and the requests
  that wait in the work queue.
\<close>

record dns_sys =
  slices :: "NamespacedName \<rightharpoonup> EndpointSlice"
  cache :: DNSCache
  queue :: "NamespacedName set"

definition apiGet :: "(NamespacedName \<rightharpoonup> EndpointSlice) \<Rightarrow> NamespacedName \<Rightarrow> EndpointSlice go_result" where
  "apiGet m k = (case m k of None \<Rightarrow> Err NotFound | Some s \<Rightarrow> Ok s)"

text \<open>When the server starts, every slice that exists is reported once.\<close>

definition dns_start :: "(NamespacedName \<rightharpoonup> EndpointSlice) \<Rightarrow> dns_sys" where
  "dns_start m = \<lparr>slices = m, cache = newDNSCache, queue = dom m\<rparr>"

inductive dns_step :: "dns_lib \<Rightarrow> kube_lib \<Rightarrow> dns_sys \<Rightarrow> dns_sys \<Rightarrow> bool"
  for L :: dns_lib and K :: kube_lib where
  change: "valid_name K k \<Longrightarrow>
    dns_step L K s (s\<lparr>slices := (slices s)(k := v), queue := insert k (queue s)\<rparr>)"
| reconciled: "k \<in> queue s \<Longrightarrow>
    EndpointSliceReconciler_Reconcile L K (apiGet (slices s)) (cache s) k = (Ok (), d', ls) \<Longrightarrow>
    dns_step L K s (s\<lparr>cache := d', queue := queue s - {k}\<rparr>)"
| failed: "k \<in> queue s \<Longrightarrow>
    EndpointSliceReconciler_Reconcile L K (\<lambda>_. Err err) (cache s) k = (Err err, d', ls) \<Longrightarrow>
    dns_step L K s (s\<lparr>cache := d'\<rparr>)"
| crashed: "k \<in> queue s \<Longrightarrow>
    EndpointSliceReconciler_Reconcile L K (apiGet (slices s)) (cache s) k = (Panic p, d', ls) \<Longrightarrow>
    dns_step L K s (dns_start (slices s))"

inductive dns_reachable :: "dns_lib \<Rightarrow> kube_lib \<Rightarrow> dns_sys \<Rightarrow> bool"
  for L :: dns_lib and K :: kube_lib where
  start: "\<forall>k\<in>dom m. valid_name K k \<Longrightarrow> dns_reachable L K (dns_start m)"
| step: "dns_reachable L K s \<Longrightarrow> dns_step L K s t \<Longrightarrow> dns_reachable L K t"

inductive_cases dns_stepE: "dns_step L K s t"

text \<open>
  The cache agrees with a slice: it holds the entry of a slice that should have one and no
  entry of a slice that does not exist.
\<close>

definition in_sync :: "dns_lib \<Rightarrow> kube_lib \<Rightarrow> dns_sys \<Rightarrow> NamespacedName \<Rightarrow> bool" where
  "in_sync L K s k =
     (case slices s k of
        None \<Rightarrow> LookupByResourceKey (cache s) (nnString K k) = None
      | Some sl \<Rightarrow>
          (case slice_entry (nnString K k) sl of
             None \<Rightarrow> True
           | Some e \<Rightarrow> LookupByResourceKey (cache s) (nnString K k) = Some (canonEntry L e)))"

definition dns_inv :: "dns_lib \<Rightarrow> kube_lib \<Rightarrow> dns_sys \<Rightarrow> bool" where
  "dns_inv L K s \<longleftrightarrow> cache_wf L (cache s) \<and>
     (\<forall>k\<in>queue s \<union> dom (slices s). valid_name K k) \<and>
     (\<forall>k. valid_name K k \<and> k \<notin> queue s \<longrightarrow> in_sync L K s k)"

lemma dns_inv_start: "\<forall>k\<in>dom m. valid_name K k \<Longrightarrow> dns_inv L K (dns_start m)"
  using cache_wf_new [of L]
  by (auto simp: dns_inv_def dns_start_def in_sync_def LookupByResourceKey_def
      newDNSCache_def nilMaps_def split: option.splits)

lemma in_sync_cong:
  "slices t k = slices s k \<Longrightarrow>
   LookupByResourceKey (cache t) (nnString K k) = LookupByResourceKey (cache s) (nnString K k) \<Longrightarrow>
   in_sync L K t k = in_sync L K s k"
  by (simp add: in_sync_def cong: option.case_cong)

locale dns_controller = dns_names L + kube_names K for L :: dns_lib and K :: kube_lib
begin

text \<open>A reconciliation that returns brings its own key into agreement and leaves the others.\<close>

lemma reconciled_sync:
  assumes "cache_wf L (cache s)"
    and "EndpointSliceReconciler_Reconcile L K (apiGet (slices s)) (cache s) k = (Ok (), d', ls)"
  shows "in_sync L K (s\<lparr>cache := d', queue := q\<rparr>) k"
    and "x \<noteq> nnString K k \<Longrightarrow> LookupByResourceKey d' x = LookupByResourceKey (cache s) x"
proof -
  have "in_sync L K (s\<lparr>cache := d', queue := q\<rparr>) k \<and>
      (x \<noteq> nnString K k \<longrightarrow> LookupByResourceKey d' x = LookupByResourceKey (cache s) x)" for x
  proof (cases "slices s k")
    case None
    then have "apiGet (slices s) k = Err NotFound" by (simp add: apiGet_def)
    then have "d' = DeleteByResourceKey (cache s) (nnString K k)"
      using assms(2) by (rule Reconcile_gone(1))
    with None show ?thesis by (simp add: in_sync_def LookupByResourceKey_delete [OF assms(1)])
  next
    case (Some sl)
    then have "apiGet (slices s) k = Ok sl" by (simp add: apiGet_def)
    then have "d' = (case slice_entry (nnString K k) sl of None \<Rightarrow> cache s | Some e \<Rightarrow> Upsert L (cache s) e)"
      using assms(2) by (rule Reconcile_found(2))
    with Some show ?thesis
      by (auto simp: in_sync_def LookupByResourceKey_Upsert [OF assms(1)] dest: slice_entry_key
          split: option.splits)
  qed
  then show "in_sync L K (s\<lparr>cache := d', queue := q\<rparr>) k"
    and "x \<noteq> nnString K k \<Longrightarrow> LookupByResourceKey d' x = LookupByResourceKey (cache s) x"
    by blast+
qed

lemma dns_step_inv:
  assumes "dns_step L K s t" and "dns_inv L K s"
  shows "dns_inv L K t"
  using assms(1)
proof (cases rule: dns_step.cases)
  case (change k v)
  have "in_sync L K t k'" if "valid_name K k'" and "k' \<notin> queue t" for k'
    using assms(2) that change in_sync_cong [of t k' s K L] by (auto simp: dns_inv_def)
  with assms(2) change show ?thesis by (auto simp: dns_inv_def split: if_splits)
next
  case (reconciled k d' ls)
  from assms(2) have wf: "cache_wf L (cache s)" by (simp add: dns_inv_def)
  note sync = reconciled_sync [OF wf reconciled(3)]
  have "in_sync L K t k'" if k': "valid_name K k'" "k' \<notin> queue t" for k'
  proof (cases "k' = k")
    case True
    with sync(1) reconciled(1) show ?thesis by simp
  next
    case False
    from assms(2) reconciled(2) have "valid_name K k" by (auto simp: dns_inv_def)
    with False k'(1) have "nnString K k' \<noteq> nnString K k" by (auto dest: nnString_inj)
    with sync(2) reconciled(1) have "in_sync L K t k' = in_sync L K s k'"
      by (intro in_sync_cong) auto
    with assms(2) k' False reconciled(1) show ?thesis by (auto simp: dns_inv_def)
  qed
  with assms(2) reconciled(1) Reconcile_wf [OF wf reconciled(3)] show ?thesis
    by (auto simp: dns_inv_def)
next
  case (failed k err d' ls)
  then have "err \<noteq> NotFound \<and> d' = cache s"
    using Reconcile_gone(2) [of "\<lambda>_. Err err" k L K "cache s"] Reconcile_failed [of "\<lambda>_. Err err" k err L K "cache s"]
    by (cases "err = NotFound") (auto split: if_splits)
  with failed(1) assms(2) show ?thesis by simp
next
  case (crashed k p d' ls)
  with assms(2) dns_inv_start [of "slices s" K L] show ?thesis by (simp add: dns_inv_def)
qed

lemma dns_reachable_inv: "dns_reachable L K s \<Longrightarrow> dns_inv L K s"
  by (induction rule: dns_reachable.induct) (auto intro: dns_inv_start dns_step_inv)

end

interpretation plain_slash: dns_controller plain_dns slash_kube ..

lemma ipv4_logs: "l \<in> set (snd (ipv4Addresses as)) \<Longrightarrow> \<exists>a. l = LogInvalidIP a"
  by (induction as) (auto simp: Let_def split: option.splits prod.splits)

lemma Reconcile_logs:
  assumes "getSlice req = Ok s" and "slice_entry (nnString K req) s = Some e"
    and "EndpointSliceReconciler_Reconcile L K getSlice d req = (r, d', ls)"
  shows "LogInvalidState f \<in> set ls \<longleftrightarrow> f = FQDN e \<and> \<not> IsValid L d' f"
proof -
  obtain as0 ls0 where ip: "ipv4Addresses (sliceAddresses s) = (as0, ls0)" by fastforce
  then have "LogInvalidState f \<notin> set ls0" using ipv4_logs [of _ "sliceAddresses s"] by fastforce
  with assms ip show ?thesis
    by (auto simp: EndpointSliceReconciler_Reconcile_def slice_entry_def slice_addresses_def
        upsertAndCheck_def Let_def split: option.splits AddressType.splits if_splits)
qed

context dns_names
begin

lemma Lookup_present:
  assumes "cache_wf L d" and "e \<in> set (mapGet (entriesOf d) (CanonicalName L f))"
  shows "Lookup L d f = mapGet (entriesOf d) (CanonicalName L f)"
  using assms(2) by (cases "entriesOf d (CanonicalName L f)")
    (auto simp: Lookup_first [OF assms(1)] lookup_order_def)

lemma Lookup_of_key:
  assumes "cache_wf L d" and "LookupByResourceKey d (ResourceKey e) = Some e"
  shows "e \<in> set (Lookup L d (FQDN e))"
proof -
  have "e \<in> set (mapGet (entriesOf d) (CanonicalName L (FQDN e)))"
    using entries_by_key [OF assms(1)] assms(2) by blast
  with Lookup_present [OF assms(1)] show ?thesis by metis
qed

lemma canonEntry_name: "CanonicalName L (FQDN (canonEntry L e)) = CanonicalName L (FQDN e)"
  using entry_ok_canonEntry [of e] by (simp add: entry_ok_def)

lemma Lookup_canon: "CanonicalName L f = CanonicalName L g \<Longrightarrow> Lookup L d f = Lookup L d g"
  by (simp add: Lookup_def)

text \<open>A name with the entries of one resource only.\<close>

lemma Lookup_single:
  assumes "cache_wf L d" and "LookupByResourceKey d (ResourceKey e) = Some e"
    and "\<And>x. LookupByResourceKey d (ResourceKey x) = Some x \<Longrightarrow>
      CanonicalName L (FQDN x) = CanonicalName L (FQDN e) \<Longrightarrow> x = e"
  shows "Lookup L d (FQDN e) = [e]"
proof -
  let ?es = "mapGet (entriesOf d) (CanonicalName L (FQDN e))"
  have set: "set ?es = {e}" using entries_by_key [OF assms(1)] assms(2,3) by auto
  moreover have "distinct ?es"
    using assms(1) indexed_distinct [of "entriesOf d" "keysOf d"]
    by (auto simp: cache_wf_def distinct_map)
  ultimately have "?es = [e]" by (intro distinct_singleton)
  with Lookup_present [OF assms(1), of e "FQDN e"] show ?thesis by simp
qed

end

section \<open>Properties of the controller\<close>

text \<open>A slice of addresses and one of an alias, for the witnesses.\<close>

definition ex_slice :: EndpointSlice where
  "ex_slice = \<lparr>es_Namespace = ''xcc-dns'', es_Name = ''gw'',
     es_Annotations = Some [DNSHostnameAnnotation \<mapsto> ''*.gateway.xcc.test''],
     es_Labels = None, es_AddressType = AddressTypeIPv4,
     es_Endpoints = Some [\<lparr>ep_Addresses = Some [''1.2.3.4'', ''not.an.ip''], ep_Other = []\<rparr>],
     es_Ports = None, es_OtherMeta = []\<rparr>"

definition ex_slice_entry :: DNSCacheEntry where
  "ex_slice_entry =
     \<lparr>ResourceKey = ''xcc-dns/gw'', FQDN = ''*.gateway.xcc.test'', Addresses = [''1.2.3.4'']\<rparr>"

lemma ex_slice_entry: "slice_entry (nnString slash_kube (es_key ex_slice)) ex_slice = Some ex_slice_entry"
  by code_simp

text \<open>
  C12. Reconciling a slice that carries a host name and has IPv4 or FQDN addresses returns
  without error and puts exactly its entry into the cache under the key of the slice: the
  addresses of an IPv4 slice that parse, in normal form, or the names of an FQDN slice. All
  other entries stay, and the log reports the name exactly when it is not valid.
\<close>

theorem Reconcile_syncs_slice:
  assumes "dns_names L" and "cache_wf L d" and "getSlice req = Ok s"
    and "slice_entry (nnString K req) s = Some e"
  shows "\<exists>d' ls. EndpointSliceReconciler_Reconcile L K getSlice d req = (Ok (), d', ls) \<and>
    cache_wf L d' \<and>
    LookupByResourceKey d' = (LookupByResourceKey d)(nnString K req \<mapsto> canonEntry L e) \<and>
    (LogInvalidState (FQDN e) \<in> set ls \<longleftrightarrow> \<not> IsValid L d' (FQDN e))"
proof -
  obtain r d' ls where rec: "EndpointSliceReconciler_Reconcile L K getSlice d req = (r, d', ls)"
    by (metis prod_cases3)
  note found = Reconcile_found [OF assms(3) rec]
  have "LookupByResourceKey d' = (LookupByResourceKey d)(nnString K req \<mapsto> canonEntry L e)"
    using found(2) assms(4) slice_entry_key [OF assms(4)]
      dns_names.LookupByResourceKey_Upsert [OF assms(1,2)]
    by (simp add: fun_eq_iff)
  with found(1) rec dns_names.Reconcile_wf [OF assms(1,2) rec] Reconcile_logs [OF assms(3,4) rec]
  show ?thesis by blast
qed

theorem Reconcile_syncs_slice_witness:
  "\<exists>d' ls. EndpointSliceReconciler_Reconcile plain_dns slash_kube (\<lambda>_. Ok ex_slice) ex_cache (es_key ex_slice)
     = (Ok (), d', ls) \<and> LookupByResourceKey d' ''xcc-dns/gw'' = Some (canonEntry plain_dns ex_slice_entry)"
proof -
  have "nnString slash_kube (es_key ex_slice) = ''xcc-dns/gw''" by code_simp
  then show ?thesis
    using Reconcile_syncs_slice [where getSlice = "\<lambda>_. Ok ex_slice",
        OF plain.dns_names_axioms ex_cache_wf refl ex_slice_entry]
    by auto
qed

text \<open>
  C16. Reconciling a slice that does not exist any more removes its entry and no other; the
  call panics on the nil pointer exactly when the cache had no entry of the slice.
\<close>

theorem Reconcile_deleted_slice:
  assumes "dns_names L" and "cache_wf L d" and "getSlice req = Err NotFound"
    and "EndpointSliceReconciler_Reconcile L K getSlice d req = (r, d', ls)"
  shows "LookupByResourceKey d' = (LookupByResourceKey d)(nnString K req := None) \<and>
    (r = Panic NilPointerDereference \<longleftrightarrow> LookupByResourceKey d (nnString K req) = None) \<and>
    (r = Ok () \<longleftrightarrow> LookupByResourceKey d (nnString K req) \<noteq> None)"
  using Reconcile_gone [OF assms(3,4)] dns_names.LookupByResourceKey_delete [OF assms(1,2)]
  by (auto simp: fun_eq_iff)

theorem Reconcile_deleted_slice_witness:
  "fst (EndpointSliceReconciler_Reconcile plain_dns slash_kube (\<lambda>_. Err NotFound) ex_cache (es_key ex_slice))
     = Panic NilPointerDereference"
proof -
  obtain r d' ls where rec: "EndpointSliceReconciler_Reconcile plain_dns slash_kube (\<lambda>_. Err NotFound)
      ex_cache (es_key ex_slice) = (r, d', ls)"
    by (metis prod_cases3)
  have "LookupByResourceKey ex_cache (nnString slash_kube (es_key ex_slice)) = None" by code_simp
  with Reconcile_deleted_slice [OF plain.dns_names_axioms ex_cache_wf refl rec] rec show ?thesis by simp
qed

text \<open>
  C18. Reconciling a slice without a host name annotation, or with addresses of another type,
  returns without error and leaves the cache as it is; an entry that an earlier version of the
  slice put there stays.
\<close>

theorem Reconcile_ignores_slice:
  assumes "getSlice req = Ok s" and "slice_entry (nnString K req) s = None"
  shows "\<exists>ls. EndpointSliceReconciler_Reconcile L K getSlice d req = (Ok (), d, ls)"
proof -
  obtain r d' ls where rec: "EndpointSliceReconciler_Reconcile L K getSlice d req = (r, d', ls)"
    by (metis prod_cases3)
  with Reconcile_found [OF assms(1) rec] assms(2) show ?thesis by simp
qed

theorem Reconcile_ignores_slice_witness:
  "\<exists>ls. EndpointSliceReconciler_Reconcile plain_dns slash_kube
     (\<lambda>_. Ok (ex_slice\<lparr>es_Annotations := None\<rparr>)) ex_cache (es_key ex_slice) = (Ok (), ex_cache, ls)"
  by (rule Reconcile_ignores_slice [OF refl]) code_simp

text \<open>
  A name whose only resource is an IPv4 slice is valid after the slice is reconciled: the
  addresses the controller stores are IP addresses.
\<close>

theorem Reconcile_ipv4_valid:
  assumes "dns_names L" and "cache_wf L d" and "getSlice req = Ok s"
    and "slice_entry (nnString K req) s = Some e" and "es_AddressType s = AddressTypeIPv4"
    and "\<And>k x. k \<noteq> nnString K req \<Longrightarrow> LookupByResourceKey d k = Some x \<Longrightarrow>
      CanonicalName L (FQDN x) \<noteq> CanonicalName L (FQDN e)"
    and "EndpointSliceReconciler_Reconcile L K getSlice d req = (r, d', ls)"
  shows "IsValid L d' (FQDN e)"
proof -
  let ?e = "canonEntry L e"
  have key: "ResourceKey ?e = nnString K req" using slice_entry_key [OF assms(4)] by simp
  have d': "d' = Upsert L d e" using Reconcile_found(2) [OF assms(3,7)] assms(4) by simp
  have find: "LookupByResourceKey d' k = (if k = ResourceKey ?e then Some ?e else LookupByResourceKey d k)" for k
    using dns_names.LookupByResourceKey_Upsert [OF assms(1,2)] d' by simp
  have "Lookup L d' (FQDN ?e) = [?e]"
  proof (rule dns_names.Lookup_single [OF assms(1) dns_names.Reconcile_wf [OF assms(1,2,7)]])
    fix x assume x: "LookupByResourceKey d' (ResourceKey x) = Some x"
      and name: "CanonicalName L (FQDN x) = CanonicalName L (FQDN ?e)"
    show "x = ?e"
    proof (rule ccontr)
      assume "x \<noteq> ?e"
      with x find have "ResourceKey x \<noteq> nnString K req" "LookupByResourceKey d (ResourceKey x) = Some x"
        using key by (auto split: if_splits)
      with assms(6) name show False by (simp add: dns_names.canonEntry_name [OF assms(1)])
    qed
  qed (simp add: find)
  then have "Lookup L d' (CanonicalName L (FQDN e)) = [?e]"
    by (metis assms(1) dns_names.Lookup_canon dns_names.canonEntry_name dns_names.canon_idem)
  with slice_entry_ipv4 [OF assms(4,5), of L] show ?thesis
    by (simp add: IsValid_def validEntries_eq)
qed

theorem Reconcile_ipv4_valid_witness:
  "IsValid plain_dns
     (fst (snd (EndpointSliceReconciler_Reconcile plain_dns slash_kube (\<lambda>_. Ok ex_slice) newDNSCache (es_key ex_slice))))
     (FQDN ex_slice_entry)"
proof -
  obtain r d' ls where rec: "EndpointSliceReconciler_Reconcile plain_dns slash_kube (\<lambda>_. Ok ex_slice)
      newDNSCache (es_key ex_slice) = (r, d', ls)"
    by (metis prod_cases3)
  have "IsValid plain_dns d' (FQDN ex_slice_entry)"
    by (rule Reconcile_ipv4_valid [OF plain.dns_names_axioms cache_wf_new refl ex_slice_entry _ _ rec])
      (simp_all add: ex_slice_def newDNSCache_def LookupByResourceKey_def nilMaps_def)
  with rec show ?thesis by simp
qed

text \<open>
  C6. Once the work queue is empty, whatever the order of changes, reconciliations, failures
  and restarts before: every slice that should be served is found by a lookup of its host name,
  with its current addresses, and a slice that does not exist has no entry.
\<close>

theorem dns_quiescent_in_sync:
  assumes "dns_names L" and "kube_names K" and "dns_reachable L K s" and "queue s = {}"
    and "valid_name K k"
  shows "(slices s k = None \<longrightarrow> LookupByResourceKey (cache s) (nnString K k) = None) \<and>
    (\<forall>sl e. slices s k = Some sl \<and> slice_entry (nnString K k) sl = Some e \<longrightarrow>
       canonEntry L e \<in> set (Lookup L (cache s) (FQDN e)))"
proof -
  have inv: "dns_inv L K s"
    by (rule dns_controller.dns_reachable_inv [OF dns_controller.intro [OF assms(1,2)] assms(3)])
  then have wf: "cache_wf L (cache s)" and sync: "in_sync L K s k"
    using assms(4,5) by (auto simp: dns_inv_def)
  have "canonEntry L e \<in> set (Lookup L (cache s) (FQDN e))"
    if "slices s k = Some sl" and e: "slice_entry (nnString K k) sl = Some e" for sl e
  proof -
    from that sync have "LookupByResourceKey (cache s) (ResourceKey (canonEntry L e)) = Some (canonEntry L e)"
      using slice_entry_key [OF e] by (simp add: in_sync_def)
    then have "canonEntry L e \<in> set (Lookup L (cache s) (FQDN (canonEntry L e)))"
      by (rule dns_names.Lookup_of_key [OF assms(1) wf])
    then show ?thesis
      by (metis assms(1) dns_names.Lookup_canon dns_names.canonEntry_name)
  qed
  with sync show ?thesis by (auto simp: in_sync_def)
qed

theorem dns_quiescent_in_sync_witness:
  "\<exists>s. dns_reachable plain_dns slash_kube s \<and> queue s = {} \<and> slices s (es_key ex_slice) = Some ex_slice \<and>
     canonEntry plain_dns ex_slice_entry \<in> set (Lookup plain_dns (cache s) (FQDN ex_slice_entry))"
proof -
  let ?m = "[es_key ex_slice \<mapsto> ex_slice]" and ?k = "es_key ex_slice"
  have valid: "valid_name slash_kube ?k" by code_simp
  obtain r d' ls where rec: "EndpointSliceReconciler_Reconcile plain_dns slash_kube (apiGet ?m)
      newDNSCache ?k = (r, d', ls)"
    by (metis prod_cases3)
  have r: "r = Ok ()" by (rule Reconcile_found(1) [OF _ rec]) (simp add: apiGet_def)
  let ?s = "(dns_start ?m)\<lparr>cache := d', queue := queue (dns_start ?m) - {?k}\<rparr>"
  have "dns_reachable plain_dns slash_kube (dns_start ?m)" using valid by (intro dns_reachable.start) simp
  moreover have "dns_step plain_dns slash_kube (dns_start ?m) ?s"
    using rec r by (intro dns_step.reconciled) (simp_all add: dns_start_def)
  ultimately have reach: "dns_reachable plain_dns slash_kube ?s" by (rule dns_reachable.step)
  have q: "queue ?s = {}" by (simp add: dns_start_def)
  have "slices ?s ?k = Some ex_slice" by (simp add: dns_start_def)
  with dns_quiescent_in_sync [OF plain.dns_names_axioms slash.kube_names_axioms reach q valid] ex_slice_entry
  have "canonEntry plain_dns ex_slice_entry \<in> set (Lookup plain_dns (cache ?s) (FQDN ex_slice_entry))"
    by blast
  with reach q \<open>slices ?s ?k = Some ex_slice\<close> show ?thesis by blast
qed

end
