(* ===== verification/CrossCluster_Plugin.thy ===== *)
theory CrossCluster_Plugin
  imports EndpointSlice_DNS "HOL-Library.Word"
begin

text \<open>
  The CoreDNS plugin that answers queries from the record cache
  (\<open>pkg/coredns/plugins/crosscluster\<close>): the service backend (\<open>crosscluster.go\<close>), the
  handler (\<open>handler.go\<close>) and the setup from the Corefile (\<open>setup.go\<close>). The functions of
  CoreDNS that the plugin calls are parameters (record \<open>coredns_lib\<close>); they are given the
  backend and call it. The locale \<open>coredns\<close> states what the handler relies on.
\<close>

section \<open>Requests and messages\<close>

datatype qtype = TypeSOA | TypeA | TypeCNAME | TypeOther nat

record request =
  QName :: string
  QType :: qtype

record msg_Service =
  Host :: string
  TTL :: "32 word"

datatype backend_error = errNotImplemented | errNameNotFound | UnknownZone | LibraryError string

type_synonym 'a backend_result = "backend_error + 'a"

definition RcodeSuccess :: nat where "RcodeSuccess = 0"
definition RcodeServerFailure :: nat where "RcodeServerFailure = 2"
definition RcodeNameError :: nat where "RcodeNameError = 3"

record 'rr dns_msg =
  msg_Question :: "request option"
  msg_Rcode :: nat
  msg_Authoritative :: bool
  msg_Answer :: "'rr list"

text \<open>The interface \<open>plugin.ServiceBackend\<close>\<close>

record ServiceBackend =
  be_Services :: "request \<Rightarrow> bool \<Rightarrow> msg_Service list backend_result"
  be_Reverse :: "request \<Rightarrow> bool \<Rightarrow> msg_Service list backend_result"
  be_Lookup :: "request \<Rightarrow> string \<Rightarrow> nat \<Rightarrow> unit backend_result"
  be_Records :: "request \<Rightarrow> bool \<Rightarrow> msg_Service list backend_result"
  be_IsNameError :: "backend_error \<Rightarrow> bool"
  be_Serial :: "request \<Rightarrow> 32 word"
  be_MinTTL :: "request \<Rightarrow> 32 word"
  be_Transfer :: "request \<Rightarrow> nat \<times> backend_error option"

section \<open>The backend\<close>

record CrossCluster =
  RecordsCache :: DNSCache
  Zones :: "string list"

definition Services :: "dns_lib \<Rightarrow> CrossCluster \<Rightarrow> request \<Rightarrow> bool \<Rightarrow> msg_Service list backend_result" where
  "Services L c state exact =
     (let fqdn = strings_ToLower (QName state);
          cacheEntries = Lookup L (RecordsCache c) fqdn
      in if length cacheEntries = 0 then Inl errNameNotFound
         else Inr (concat (map (\<lambda>cacheEntry.
                map (\<lambda>address. \<lparr>Host = address, TTL = 30\<rparr>) (Addresses cacheEntry)) cacheEntries)))"

definition Reverse :: "request \<Rightarrow> bool \<Rightarrow> msg_Service list backend_result" where
  "Reverse state exact = Inl errNotImplemented"

definition CrossCluster_Lookup :: "request \<Rightarrow> string \<Rightarrow> nat \<Rightarrow> unit backend_result" where
  "CrossCluster_Lookup state name typ = Inl errNotImplemented"

definition Records :: "request \<Rightarrow> bool \<Rightarrow> msg_Service list backend_result" where
  "Records state exact = Inl errNotImplemented"

definition IsNameError :: "backend_error \<Rightarrow> bool" where
  "IsNameError err \<longleftrightarrow> err = errNameNotFound"

text \<open>\<open>uint32(time.Now().Unix())\<close>, for the time \<open>now\<close>\<close>

definition Serial :: "int \<Rightarrow> request \<Rightarrow> 32 word" where
  "Serial now state = of_int now"

definition MinTTL :: "request \<Rightarrow> 32 word" where
  "MinTTL state = 30"

definition Transfer :: "request \<Rightarrow> nat \<times> backend_error option" where
  "Transfer state = (RcodeServerFailure, None)"

definition backendOf :: "dns_lib \<Rightarrow> int \<Rightarrow> CrossCluster \<Rightarrow> ServiceBackend" where
  "backendOf L now c = \<lparr>be_Services = Services L c, be_Reverse = Reverse, be_Lookup = CrossCluster_Lookup,
     be_Records = Records, be_IsNameError = IsNameError, be_Serial = Serial now, be_MinTTL = MinTTL, be_Transfer = Transfer\<rparr>"

section \<open>The handler\<close>

text \<open>
  What a handler does: the status and error it returns, and the messages it wrote. The library's
  \<open>BackendError\<close> writes its own message.
\<close>

type_synonym 'm handled = "nat \<times> backend_error option \<times> 'm list"

record 'rr coredns_lib =
  Matches :: "string list \<Rightarrow> string \<Rightarrow> string"
  plugin_SOA :: "ServiceBackend \<Rightarrow> string \<Rightarrow> request \<Rightarrow> 'rr list backend_result"
  plugin_A :: "ServiceBackend \<Rightarrow> string \<Rightarrow> request \<Rightarrow> 'rr list backend_result"
  plugin_CNAME :: "ServiceBackend \<Rightarrow> string \<Rightarrow> request \<Rightarrow> 'rr list backend_result"
  BackendError :: "ServiceBackend \<Rightarrow> string \<Rightarrow> nat \<Rightarrow> request \<Rightarrow> backend_error option \<Rightarrow> 'rr dns_msg handled"
  SetReply :: "'rr dns_msg \<Rightarrow> request \<Rightarrow> 'rr dns_msg"

definition newMsg :: "'rr dns_msg" where
  "newMsg = \<lparr>msg_Question = None, msg_Rcode = RcodeSuccess, msg_Authoritative = False, msg_Answer = []\<rparr>"

text \<open>The end of \<open>ServeDNS\<close>, after the records have been looked up\<close>

definition respond ::
    "'rr coredns_lib \<Rightarrow> ServiceBackend \<Rightarrow> string \<Rightarrow> request \<Rightarrow> 'rr list backend_result \<Rightarrow> 'rr dns_msg handled" where
  "respond P b zone state result =
     (case result of
        Inl err \<Rightarrow>
          if be_IsNameError b err then BackendError P b zone RcodeNameError state None
          else BackendError P b zone RcodeServerFailure state (Some err)
      | Inr records \<Rightarrow>
          if length records = 0 then BackendError P b zone RcodeNameError state None
          else let response = SetReply P newMsg state;
                   response = response\<lparr>msg_Authoritative := True\<rparr>;
                   response = response\<lparr>msg_Answer := msg_Answer response @ records\<rparr>
               in (RcodeSuccess, None, [response]))"

definition ServeDNS :: "dns_lib \<Rightarrow> 'rr coredns_lib \<Rightarrow> int \<Rightarrow> CrossCluster \<Rightarrow> request \<Rightarrow> 'rr dns_msg handled" where
  "ServeDNS L P now c state =
     (let b = backendOf L now c; zone = Matches P (Zones c) (QName state) in
      if zone = '''' then (RcodeServerFailure, Some UnknownZone, [])
      else case QType state of
        TypeSOA \<Rightarrow> respond P b zone state (plugin_SOA P b zone state)
      | TypeA \<Rightarrow> respond P b zone state (plugin_A P b zone state)
      | TypeCNAME \<Rightarrow> respond P b zone state (plugin_CNAME P b zone state)
      | TypeOther t \<Rightarrow> BackendError P b zone RcodeNameError state None)"

definition Name_of_plugin :: string where
  "Name_of_plugin = ''crosscluster''"

section \<open>Setup\<close>

text \<open>
  The Corefile as the Caddy controller presents it: whether there is a token for the directive,
  its arguments and the keys of the server block. \<open>NewManager\<close>, \<open>SetupWithManager\<close> and
  \<open>Host.Normalize\<close> are parameters; the manager then runs in the background.
\<close>

record caddy_controller =
  caddy_Next :: bool
  RemainingArgs :: "string list"
  ServerBlockKeys :: "string list"

record 'm setup_lib =
  NewManager :: "string \<Rightarrow> 'm go_result"
  SetupWithManager :: "'m \<Rightarrow> DNSCache \<Rightarrow> unit go_result"
  Normalize :: "string \<Rightarrow> string"

definition setupZones :: "(string \<Rightarrow> string) \<Rightarrow> caddy_controller \<Rightarrow> string list" where
  "setupZones normalise c =
     (if caddy_Next c then
        (let zones = RemainingArgs c;
             zones = (if length zones = 0 then ServerBlockKeys c else zones)
         in map normalise zones)
      else [])"

definition setupController ::
    "'m setup_lib \<Rightarrow> (string \<rightharpoonup> string) \<Rightarrow> caddy_controller \<Rightarrow> CrossCluster process" where
  "setupController S env c =
     (let dnsRecordsCache = newDNSCache in
      case env ''NAMESPACE'' of
        None \<Rightarrow> Exits 1
      | Some namespace \<Rightarrow>
          (case NewManager S namespace of
             Ok mgr \<Rightarrow>
               (case SetupWithManager S mgr dnsRecordsCache of
                  Ok _ \<Rightarrow> Returns \<lparr>RecordsCache = dnsRecordsCache, Zones = setupZones (Normalize S) c\<rparr>
                | Err _ \<Rightarrow> Exits 1
                | Panic _ \<Rightarrow> Exits 2)
           | Err _ \<Rightarrow> Exits 1
           | Panic _ \<Rightarrow> Exits 2))"

text \<open>
  \<open>setup\<close> adds the plugin to the configuration of the server: a function from the next handler
  of the chain to the plugin, which keeps it but never calls it.
\<close>

definition setupPlugin ::
    "'m setup_lib \<Rightarrow> (string \<rightharpoonup> string) \<Rightarrow> caddy_controller \<Rightarrow> ('handler \<Rightarrow> CrossCluster \<times> 'handler) process" where
  "setupPlugin S env c =
     (case setupController S env c of
        Exits n \<Rightarrow> Exits n
      | Returns dnsPlugin \<Rightarrow> Returns (\<lambda>nextHandler. (dnsPlugin, nextHandler)))"

section \<open>What the plugin relies on\<close>

text \<open>
  \<open>Matches\<close> returns one of the zones, or nothing; \<open>plugin.A\<close> asks the backend for the
  services, passes its error on and otherwise makes one kind of record (\<open>newA\<close>) of each service
  that is an IPv4 address; \<open>BackendError\<close> writes one authoritative message with the given
  status and no answers; \<open>SetReply\<close> makes a message the successful reply to a request and leaves
  its answers alone.
\<close>

definition ipv4_host :: "string \<Rightarrow> bool" where
  "ipv4_host h \<longleftrightarrow> (case ParseIP h of None \<Rightarrow> False | Some ip \<Rightarrow> To4 ip \<noteq> None)"

locale coredns =
  fixes P :: "'rr coredns_lib" and newA :: "string \<Rightarrow> msg_Service \<Rightarrow> 'rr"
  assumes matches_zone: "Matches P zs q = '''' \<or> Matches P zs q \<in> set zs"
    and a_error: "be_Services b state False = Inl err \<Longrightarrow> plugin_A P b zone state = Inl err"
    and a_records: "be_Services b state False = Inr svcs \<Longrightarrow> \<forall>s\<in>set svcs. ipv4_host (Host s) \<Longrightarrow>
      \<exists>rs. plugin_A P b zone state = Inr rs \<and> set rs = newA (QName state) ` set svcs"
    and backend_error: "\<exists>m. BackendError P b zone rcode state cause = (RcodeSuccess, cause, [m]) \<and>
      msg_Question m = Some state \<and> msg_Rcode m = rcode \<and> msg_Authoritative m \<and> msg_Answer m = []"
    and set_reply: "msg_Answer (SetReply P m state) = msg_Answer m"
      "msg_Question (SetReply P m state) = Some state" "msg_Rcode (SetReply P m state) = RcodeSuccess"
begin

lemma respond_records:
  assumes "rs \<noteq> []"
  shows "\<exists>m. respond P b zone state (Inr rs) = (RcodeSuccess, None, [m]) \<and> msg_Question m = Some state \<and>
    msg_Rcode m = RcodeSuccess \<and> msg_Authoritative m \<and> msg_Answer m = rs"
  using assms set_reply [of newMsg state] by (simp add: respond_def Let_def newMsg_def)

lemma respond_empty: "respond P b zone state (Inr []) = BackendError P b zone RcodeNameError state None"
  by (simp add: respond_def)

end

text \<open>The addresses of a name, as the backend hands them out\<close>

definition hosts :: "dns_lib \<Rightarrow> CrossCluster \<Rightarrow> string \<Rightarrow> string list" where
  "hosts L c name = concat (map Addresses (Lookup L (RecordsCache c) (strings_ToLower name)))"

lemma Services_eq:
  "Services L c state exact =
     (if Lookup L (RecordsCache c) (strings_ToLower (QName state)) = [] then Inl errNameNotFound
      else Inr (map (\<lambda>a. \<lparr>Host = a, TTL = 30\<rparr>) (hosts L c (QName state))))"
  by (simp add: Services_def hosts_def Let_def map_concat o_def)

lemma ServeDNS_A:
  "QType state = TypeA \<Longrightarrow> Matches P (Zones c) (QName state) \<noteq> '''' \<Longrightarrow>
     ServeDNS L P now c state = respond P (backendOf L now c) (Matches P (Zones c) (QName state)) state
       (plugin_A P (backendOf L now c) (Matches P (Zones c) (QName state)) state)"
  by (simp add: ServeDNS_def Let_def)

context coredns
begin

lemma ServeDNS_hosts:
  assumes "QType state = TypeA" and "Matches P (Zones c) (QName state) \<noteq> ''''"
    and "\<forall>h\<in>set (hosts L c (QName state)). ipv4_host h"
  shows "\<exists>m. ServeDNS L P now c state = (RcodeSuccess, None, [m]) \<and> msg_Question m = Some state \<and> msg_Authoritative m \<and>
    (if hosts L c (QName state) = [] then msg_Rcode m = RcodeNameError \<and> msg_Answer m = []
     else msg_Rcode m = RcodeSuccess \<and>
       set (msg_Answer m) = (\<lambda>h. newA (QName state) \<lparr>Host = h, TTL = 30\<rparr>) ` set (hosts L c (QName state)))"
proof -
  let ?b = "backendOf L now c" and ?z = "Matches P (Zones c) (QName state)"
  note serve = ServeDNS_A [OF assms(1,2), of L now]
  obtain m where nx: "BackendError P ?b ?z RcodeNameError state None = (RcodeSuccess, None, [m])" "msg_Question m = Some state"
    "msg_Rcode m = RcodeNameError" "msg_Authoritative m" "msg_Answer m = []"
    using backend_error by metis
  show ?thesis
  proof (cases "Lookup L (RecordsCache c) (strings_ToLower (QName state)) = []")
    case True
    then have "be_Services ?b state False = Inl errNameNotFound" by (simp add: backendOf_def Services_eq)
    from a_error [OF this] True nx show ?thesis
      by (simp add: serve respond_def backendOf_def IsNameError_def hosts_def)
  next
    case False
    then have sv: "be_Services ?b state False = Inr (map (\<lambda>a. \<lparr>Host = a, TTL = 30\<rparr>) (hosts L c (QName state)))"
      by (simp add: backendOf_def Services_eq)
    have "\<forall>s\<in>set (map (\<lambda>a. \<lparr>Host = a, TTL = 30\<rparr>) (hosts L c (QName state))). ipv4_host (Host s)"
      using assms(3) by simp
    from a_records [OF sv this, of ?z] obtain rs where rs: "plugin_A P ?b ?z state = Inr rs"
      "set rs = (\<lambda>h. newA (QName state) \<lparr>Host = h, TTL = 30\<rparr>) ` set (hosts L c (QName state))"
      by (auto simp: image_image)
    show ?thesis
    proof (cases "rs = []")
      case True
      with rs nx show ?thesis by (simp add: serve respond_empty)
    next
      case False
      with rs have "hosts L c (QName state) \<noteq> []" by auto
      with rs respond_records [OF False, of ?b ?z state] show ?thesis by (auto simp: serve)
    qed
  qed
qed

end

section \<open>An instance of the library\<close>

definition simple_coredns :: "(string \<times> msg_Service) coredns_lib" where
  "simple_coredns = \<lparr>
     Matches = (\<lambda>zs q. case find (\<lambda>z. suffix z q) zs of None \<Rightarrow> '''' | Some z \<Rightarrow> z),
     plugin_SOA = (\<lambda>b zone state. Inr [(zone, \<lparr>Host = zone, TTL = be_MinTTL b state\<rparr>)]),
     plugin_A = (\<lambda>b zone state. case be_Services b state False of
        Inl err \<Rightarrow> Inl err
      | Inr svcs \<Rightarrow> Inr (map (Pair (QName state)) (filter (\<lambda>s. ipv4_host (Host s)) svcs))),
     plugin_CNAME = (\<lambda>b zone state. case be_Services b state True of
        Inl err \<Rightarrow> Inl err
      | Inr svcs \<Rightarrow> Inr (map (Pair (QName state)) (filter (\<lambda>s. ParseIP (Host s) = None) svcs))),
     BackendError = (\<lambda>b zone rcode state err. (RcodeSuccess, err,
        [\<lparr>msg_Question = Some state, msg_Rcode = rcode, msg_Authoritative = True, msg_Answer = []\<rparr>])),
     SetReply = (\<lambda>m state. m\<lparr>msg_Question := Some state, msg_Rcode := RcodeSuccess\<rparr>)\<rparr>"

interpretation simple: coredns simple_coredns Pair
proof (unfold_locales, goal_cases)
  case (1 zs q)
  then show ?case by (auto simp: simple_coredns_def split: option.splits dest: find_SomeD)
qed (simp_all add: simple_coredns_def)

section \<open>Properties\<close>


definition ex_plugin :: CrossCluster where
  "ex_plugin = \<lparr>RecordsCache = ex_cache, Zones = [''xcc.test.'', ''b.c.'']\<rparr>"


text \<open>
  C27. The other outcomes: a query outside the plugin's zones is refused with SERVFAIL and an error,
  and nothing is written; in a zone, a query of a type other than SOA, A and CNAME is answered with
  NXDOMAIN even where the cache has the name; an error of the lookup that does not mean that the
  name is missing is answered with SERVFAIL and returned.
\<close>

theorem ServeDNS_refuses:
  assumes "coredns P newA" and "zone = Matches P (Zones c) (QName state)" and "b = backendOf L now c"
  shows "(zone = '''' \<longrightarrow> ServeDNS L P now c state = (RcodeServerFailure, Some UnknownZone, [])) \<and>
    (zone \<noteq> '''' \<and> QType state = TypeOther t \<longrightarrow>
       (\<exists>m. ServeDNS L P now c state = (RcodeSuccess, None, [m]) \<and> msg_Rcode m = RcodeNameError \<and> msg_Answer m = [])) \<and>
    (zone \<noteq> '''' \<and> err \<noteq> errNameNotFound \<and>
       (QType state = TypeA \<and> plugin_A P b zone state = Inl err \<or>
        QType state = TypeCNAME \<and> plugin_CNAME P b zone state = Inl err \<or>
        QType state = TypeSOA \<and> plugin_SOA P b zone state = Inl err) \<longrightarrow>
       (\<exists>m. ServeDNS L P now c state = (RcodeSuccess, Some err, [m]) \<and> msg_Rcode m = RcodeServerFailure \<and> msg_Answer m = []))"
proof -
  have be: "\<exists>m. BackendError P b' zone' rcode state cause = (RcodeSuccess, cause, [m]) \<and> msg_Rcode m = rcode \<and> msg_Answer m = []"
    for b' zone' rcode cause
    using coredns.backend_error [OF assms(1)] by blast
  show ?thesis
    using be [of b zone RcodeNameError None] be [of b zone RcodeServerFailure "Some err"] assms(2,3)
    by (auto simp: ServeDNS_def Let_def respond_def backendOf_def IsNameError_def)
qed

theorem ServeDNS_refuses_witness:
  "ServeDNS plain_dns simple_coredns 0 ex_plugin \<lparr>QName = ''example.org.'', QType = TypeA\<rparr>
     = (RcodeServerFailure, Some UnknownZone, []) \<and>
   (\<exists>m. ServeDNS plain_dns simple_coredns 0 ex_plugin \<lparr>QName = ''x.b.c.'', QType = TypeOther 28\<rparr> = (RcodeSuccess, None, [m])
     \<and> msg_Rcode m = RcodeNameError \<and> msg_Answer m = [])"
proof -
  have out: "Matches simple_coredns (Zones ex_plugin) ''example.org.'' = ''''"
    and ins: "Matches simple_coredns (Zones ex_plugin) ''x.b.c.'' \<noteq> ''''" by code_simp+
  show ?thesis
    using ServeDNS_refuses [OF simple.coredns_axioms refl refl, of ex_plugin "\<lparr>QName = ''example.org.'', QType = TypeA\<rparr>" plain_dns 0]
      ServeDNS_refuses [OF simple.coredns_axioms refl refl, of ex_plugin "\<lparr>QName = ''x.b.c.'', QType = TypeOther 28\<rparr>" plain_dns 0]
      out ins by simp
qed

text \<open>
  C28. A server that has just been set up serves the zones of its directive, or of its server block
  where the directive names none, in normal form, and answers every query of type A in them with
  NXDOMAIN until the controller has filled the cache; without the namespace variable it does not
  start at all.
\<close>

theorem setupController_starts_empty:
  assumes "coredns P newA" and "QType state = TypeA" and "caddy_Next c"
  shows "(env ''NAMESPACE'' = None \<longrightarrow> setupController S env c = Exits 1) \<and>
    (setupController S env c = Returns p \<longrightarrow>
       (\<forall>z\<in>set (Zones p). \<exists>a\<in>set (RemainingArgs c @ ServerBlockKeys c). z = Normalize S a) \<and>
       (RemainingArgs c \<noteq> [] \<longrightarrow> Zones p = map (Normalize S) (RemainingArgs c)) \<and>
       (Matches P (Zones p) (QName state) \<noteq> '''' \<longrightarrow> Matches P (Zones p) (QName state) \<in> set (Zones p) \<and>
         (\<exists>m. ServeDNS L P now p state = (RcodeSuccess, None, [m]) \<and> msg_Rcode m = RcodeNameError \<and> msg_Answer m = [])))"
proof -
  let ?b = "backendOf L now p" and ?z = "Matches P (Zones p) (QName state)"
  have p: "RecordsCache p = newDNSCache \<and> Zones p = setupZones (Normalize S) c" if "setupController S env c = Returns p"
    using that by (auto simp: setupController_def Let_def split: option.splits go_result.splits)
  have empty: "plugin_A P ?b ?z state = Inl errNameNotFound" if "RecordsCache p = newDNSCache"
    using that by (intro coredns.a_error [OF assms(1)])
      (simp add: backendOf_def Services_def Lookup_def newDNSCache_def nilMaps_def)
  obtain m where "BackendError P ?b ?z RcodeNameError state None = (RcodeSuccess, None, [m])" "msg_Rcode m = RcodeNameError" "msg_Answer m = []"
    using coredns.backend_error [OF assms(1)] by metis
  then have serve: "ServeDNS L P now p state = (RcodeSuccess, None, [m])" if "?z \<noteq> ''''" "RecordsCache p = newDNSCache"
    using that empty [OF that(2)]
    by (simp add: ServeDNS_A [OF assms(2) that(1)] respond_def) (simp add: backendOf_def IsNameError_def)
  have zone: "?z \<noteq> '''' \<Longrightarrow> ?z \<in> set (Zones p)" using coredns.matches_zone [OF assms(1)] by blast
  have z: "(\<forall>z\<in>set (Zones p). \<exists>a\<in>set (RemainingArgs c @ ServerBlockKeys c). z = Normalize S a)
      \<and> (RemainingArgs c \<noteq> [] \<longrightarrow> Zones p = map (Normalize S) (RemainingArgs c))" if "Zones p = setupZones (Normalize S) c"
    using that assms(3) by (auto simp: setupZones_def Let_def)
  have "env ''NAMESPACE'' = None \<Longrightarrow> setupController S env c = Exits 1" by (simp add: setupController_def)
  with p serve zone z \<open>msg_Rcode m = RcodeNameError\<close> \<open>msg_Answer m = []\<close> show ?thesis by blast
qed

definition ex_setup :: "unit setup_lib" where
  "ex_setup = \<lparr>NewManager = (\<lambda>ns. Ok ()), SetupWithManager = (\<lambda>m d. Ok ()), Normalize = (\<lambda>s. s @ ''.'')\<rparr>"

definition ex_directive :: caddy_controller where
  "ex_directive = \<lparr>caddy_Next = True, RemainingArgs = [''xcc.test''], ServerBlockKeys = [''dns://.:53'']\<rparr>"

theorem setupController_starts_empty_witness:
  "\<exists>p m. setupController ex_setup [''NAMESPACE'' \<mapsto> ''xcc''] ex_directive = Returns p \<and> Zones p = [''xcc.test.''] \<and>
     ServeDNS plain_dns simple_coredns 0 p \<lparr>QName = ''a.xcc.test.'', QType = TypeA\<rparr> = (RcodeSuccess, None, [m]) \<and>
     msg_Rcode m = RcodeNameError"
proof -
  let ?q = "\<lparr>QName = ''a.xcc.test.'', QType = TypeA\<rparr>"
  obtain p where p: "setupController ex_setup [''NAMESPACE'' \<mapsto> ''xcc''] ex_directive = Returns p"
    by (simp add: setupController_def ex_setup_def)
  have next': "caddy_Next ex_directive" and args: "RemainingArgs ex_directive \<noteq> []"
    and zs: "map (Normalize ex_setup) (RemainingArgs ex_directive) = [''xcc.test.'']"
    and zone: "Matches simple_coredns [''xcc.test.''] ''a.xcc.test.'' \<noteq> ''''" by code_simp+
  have "QType ?q = TypeA" by simp
  from setupController_starts_empty [OF simple.coredns_axioms this next', of "[''NAMESPACE'' \<mapsto> ''xcc'']" ex_setup p plain_dns 0]
    p args zs zone show ?thesis by auto
qed

end
