(* ===== verification/Cluster_Client.thy ===== *)
theory Cluster_Client
  imports Kube_API
begin

text \<open>
  The clients of the workload clusters, through which the GatewayDNS controller reads services
  and reads and writes EndpointSlices. The client provider and the clients are library code:
  they are parameters, collected in the record \<open>cluster_api\<close>, whose calls act on an abstract
  world. The locale \<open>cluster_world\<close> states what the API documents of the calls in terms of
  the objects that each cluster holds: reads return what is there, a successful write is applied,
  a call on one cluster does not touch another. Nothing is assumed of a write that fails, except
  that \<open>AlreadyExists\<close> means what it says; calls report failure by an error, they do not
  panic. The server may set metadata of its own on an object that it stores.
\<close>

section \<open>Calls\<close>

record ('h, 'w) cluster_api =
  GetClient :: "NamespacedName \<Rightarrow> ('w, 'h) io"
  getNamespace :: "'h \<Rightarrow> string \<Rightarrow> ('w, unit) io"
  getService :: "'h \<Rightarrow> NamespacedName \<Rightarrow> ('w, Service) io"
  listSlices :: "'h \<Rightarrow> string \<Rightarrow> ('w, EndpointSlice list) io"
  getSlice :: "'h \<Rightarrow> NamespacedName \<Rightarrow> ('w, EndpointSlice) io"
  createSlice :: "'h \<Rightarrow> EndpointSlice \<Rightarrow> ('w, unit) io"
  updateSlice :: "'h \<Rightarrow> EndpointSlice \<Rightarrow> ('w, unit) io"
  deleteSlice :: "'h \<Rightarrow> EndpointSlice \<Rightarrow> ('w, unit) io"

section \<open>What the API promises\<close>

text \<open>The objects of the clusters: slices and services by name, and the namespaces.\<close>

record 'w cluster_view =
  objs :: "'w \<Rightarrow> NamespacedName \<Rightarrow> NamespacedName \<rightharpoonup> EndpointSlice"
  svcs :: "'w \<Rightarrow> NamespacedName \<Rightarrow> NamespacedName \<rightharpoonup> Service"
  nss :: "'w \<Rightarrow> NamespacedName \<Rightarrow> string set"

definition same_objects :: "'w cluster_view \<Rightarrow> 'w \<Rightarrow> 'w \<Rightarrow> bool" where
  "same_objects V w w' \<longleftrightarrow> objs V w' = objs V w \<and> svcs V w' = svcs V w \<and> nss V w' = nss V w"

text \<open>Only slices of cluster \<open>c\<close> may differ.\<close>

definition only_slices :: "'w cluster_view \<Rightarrow> NamespacedName \<Rightarrow> 'w \<Rightarrow> 'w \<Rightarrow> bool" where
  "only_slices V c w w' \<longleftrightarrow>
     (\<forall>c'. c' \<noteq> c \<longrightarrow> objs V w' c' = objs V w c') \<and> svcs V w' = svcs V w \<and> nss V w' = nss V w"

lemma same_objects_refl: "same_objects V w w"
  by (simp add: same_objects_def)

lemma same_objects_trans: "same_objects V w w1 \<Longrightarrow> same_objects V w1 w2 \<Longrightarrow> same_objects V w w2"
  by (simp add: same_objects_def)

lemma only_slices_refl: "only_slices V c w w"
  by (simp add: only_slices_def)

lemma only_slices_trans: "only_slices V c w w1 \<Longrightarrow> only_slices V c w1 w2 \<Longrightarrow> only_slices V c w w2"
  by (simp add: only_slices_def)

lemma same_imp_only: "same_objects V w w' \<Longrightarrow> only_slices V c w w'"
  by (simp add: same_objects_def only_slices_def)

lemma reflp_only_slices [simp]: "reflp (only_slices V c)"
  by (auto intro: reflpI only_slices_refl)

lemma transp_only_slices [simp]: "transp (only_slices V c)"
  by (auto intro: transpI only_slices_trans)

lemma reflp_same_objects [simp]: "reflp (same_objects V)"
  by (auto intro: reflpI same_objects_refl)

lemma transp_same_objects [simp]: "transp (same_objects V)"
  by (auto intro: transpI same_objects_trans)

locale cluster_world =
  fixes A :: "('h, 'w) cluster_api" and V :: "'w cluster_view" and cluster_of :: "'h \<Rightarrow> NamespacedName"
  assumes objs_key: "objs V w c k = Some e \<Longrightarrow> es_key e = k"
    and client_returns: "GetClient A c w \<noteq> (Panic p, w')"
    and namespace_returns: "getNamespace A h n w \<noteq> (Panic p, w')"
    and service_returns: "getService A h k w \<noteq> (Panic p, w')"
    and list_returns: "listSlices A h n w \<noteq> (Panic p, w')"
    and get_returns: "getSlice A h k w \<noteq> (Panic p, w')"
    and create_returns: "createSlice A h e w \<noteq> (Panic p, w')"
    and update_returns: "updateSlice A h e w \<noteq> (Panic p, w')"
    and delete_returns: "deleteSlice A h e w \<noteq> (Panic p, w')"
    and client_keeps: "GetClient A c w = (rh, w') \<Longrightarrow> same_objects V w w'"
    and client_ok: "GetClient A c w = (Ok h, w') \<Longrightarrow> cluster_of h = c"
    and namespace_keeps: "getNamespace A h n w = (ru, w') \<Longrightarrow> same_objects V w w'"
    and namespace_ok: "getNamespace A h n w = (Ok u, w') \<Longrightarrow> n \<in> nss V w (cluster_of h)"
    and namespace_missing: "getNamespace A h n w = (Err NotFound, w') \<Longrightarrow> n \<notin> nss V w (cluster_of h)"
    and service_keeps: "getService A h k w = (rs, w') \<Longrightarrow> same_objects V w w'"
    and service_ok: "getService A h k w = (Ok s, w') \<Longrightarrow> svcs V w (cluster_of h) k = Some s"
    and service_missing: "getService A h k w = (Err NotFound, w') \<Longrightarrow> svcs V w (cluster_of h) k = None"
    and list_keeps: "listSlices A h n w = (rl, w') \<Longrightarrow> same_objects V w w'"
    and list_ok: "listSlices A h n w = (Ok es, w') \<Longrightarrow>
      set es = {e. objs V w (cluster_of h) (es_key e) = Some e \<and> es_Namespace e = n}"
    and get_keeps: "getSlice A h k w = (re, w') \<Longrightarrow> same_objects V w w'"
    and get_ok: "getSlice A h k w = (Ok e, w') \<Longrightarrow> objs V w (cluster_of h) k = Some e"
    and create_frame: "createSlice A h e w = (ru, w') \<Longrightarrow> only_slices V (cluster_of h) w w'"
    and create_ok: "createSlice A h e w = (Ok u, w') \<Longrightarrow> es_Ports e = None \<Longrightarrow>
      objs V w (cluster_of h) (es_key e) = None \<and>
      (\<exists>m. objs V w' (cluster_of h) = (objs V w (cluster_of h))(es_key e \<mapsto> e\<lparr>es_OtherMeta := m\<rparr>))"
    and create_exists: "createSlice A h e w = (Err AlreadyExists, w') \<Longrightarrow>
      same_objects V w w' \<and> objs V w (cluster_of h) (es_key e) \<noteq> None"
    and update_frame: "updateSlice A h e w = (ru, w') \<Longrightarrow> only_slices V (cluster_of h) w w'"
    and update_ok: "updateSlice A h e w = (Ok u, w') \<Longrightarrow> es_Ports e = None \<Longrightarrow>
      objs V w (cluster_of h) (es_key e) \<noteq> None \<and>
      (\<exists>m. objs V w' (cluster_of h) = (objs V w (cluster_of h))(es_key e \<mapsto> e\<lparr>es_OtherMeta := m\<rparr>))"
    and delete_frame: "deleteSlice A h e w = (ru, w') \<Longrightarrow> only_slices V (cluster_of h) w w'"
    and delete_ok: "deleteSlice A h e w = (Ok u, w') \<Longrightarrow>
      objs V w' (cluster_of h) = (objs V w (cluster_of h))(es_key e := None)"
begin

lemmas returns = client_returns namespace_returns service_returns list_returns get_returns
  create_returns update_returns delete_returns

lemmas keeps = client_keeps namespace_keeps service_keeps list_keeps get_keeps

lemma list_inj: "listSlices A h n w = (Ok es, w') \<Longrightarrow> inj_on es_key (set es)"
proof (rule inj_onI)
  fix e e' assume l: "listSlices A h n w = (Ok es, w')" and e: "e \<in> set es" "e' \<in> set es" and k: "es_key e = es_key e'"
  from e have "objs V w (cluster_of h) (es_key e) = Some e" and "objs V w (cluster_of h) (es_key e') = Some e'"
    unfolding list_ok [OF l] by blast+
  with k show "e = e'" by (metis option.inject)
qed

end

section \<open>An API server in memory\<close>

text \<open>
  An instance for the witnesses: the slices of all clusters in one list, newest first, and
  clusters that cannot be reached. The last two fields hold the objects of the management
  cluster.
\<close>

text \<open>\<open>firsts key xs\<close> keeps of \<open>xs\<close> the first element with each key.\<close>

fun firsts :: "('a \<Rightarrow> 'k) \<Rightarrow> 'a list \<Rightarrow> 'a list" where
  "firsts key [] = []"
| "firsts key (x # xs) = x # filter (\<lambda>y. key y \<noteq> key x) (firsts key xs)"

lemma set_firsts: "x \<in> set (firsts key xs) \<longleftrightarrow> map_of (map (\<lambda>x. (key x, x)) xs) (key x) = Some x"
  by (induction xs) auto

lemma distinct_firsts [simp]: "distinct (firsts key xs)"
  by (induction xs) auto

record mem_world =
  mw_slices :: "(NamespacedName \<times> EndpointSlice) list"
  mw_services :: "(NamespacedName \<times> NamespacedName \<times> Service) list"
  mw_namespaces :: "(NamespacedName \<times> string) list"
  mw_down :: "NamespacedName list"
  mw_gatewaydns :: "GatewayDNS list"
  mw_clusters :: "Cluster list"

definition mem_objs :: "mem_world \<Rightarrow> NamespacedName \<Rightarrow> NamespacedName \<rightharpoonup> EndpointSlice" where
  "mem_objs w c k = map_of (map (\<lambda>(c, e). ((c, es_key e), e)) (mw_slices w)) (c, k)"

definition mem_svcs :: "mem_world \<Rightarrow> NamespacedName \<Rightarrow> NamespacedName \<rightharpoonup> Service" where
  "mem_svcs w c k = map_of (map (\<lambda>(c, k, s). ((c, k), s)) (mw_services w)) (c, k)"

definition mem_nss :: "mem_world \<Rightarrow> NamespacedName \<Rightarrow> string set" where
  "mem_nss w c = {n. (c, n) \<in> set (mw_namespaces w)}"

definition mem_view :: "mem_world cluster_view" where
  "mem_view = \<lparr>objs = mem_objs, svcs = mem_svcs, nss = mem_nss\<rparr>"

definition mem_put :: "NamespacedName \<Rightarrow> EndpointSlice \<Rightarrow> mem_world \<Rightarrow> mem_world" where
  "mem_put c e w = w\<lparr>mw_slices := (c, e) # mw_slices w\<rparr>"

definition mem_del :: "NamespacedName \<Rightarrow> NamespacedName \<Rightarrow> mem_world \<Rightarrow> mem_world" where
  "mem_del c k w = w\<lparr>mw_slices := filter (\<lambda>(c', e). \<not> (c' = c \<and> es_key e = k)) (mw_slices w)\<rparr>"

definition found :: "'a option \<Rightarrow> 'a go_result" where
  "found x = (case x of None \<Rightarrow> Err NotFound | Some a \<Rightarrow> Ok a)"

definition mem_api :: "(NamespacedName, mem_world) cluster_api" where
  "mem_api = \<lparr>
     GetClient = (\<lambda>c w. (if c \<in> set (mw_down w) then Err (OtherError ''unreachable'') else Ok c, w)),
     getNamespace = (\<lambda>c n w. (if (c, n) \<in> set (mw_namespaces w) then Ok () else Err NotFound, w)),
     getService = (\<lambda>c k w. (found (mem_svcs w c k), w)),
     listSlices = (\<lambda>c n w.
       (Ok (map snd (filter (\<lambda>(c', e). c' = c \<and> es_Namespace e = n)
          (firsts (\<lambda>(c, e). (c, es_key e)) (mw_slices w)))), w)),
     getSlice = (\<lambda>c k w. (found (mem_objs w c k), w)),
     createSlice = (\<lambda>c e w. if mem_objs w c (es_key e) = None then (Ok (), mem_put c e w) else (Err AlreadyExists, w)),
     updateSlice = (\<lambda>c e w. if mem_objs w c (es_key e) = None then (Err NotFound, w) else (Ok (), mem_put c e w)),
     deleteSlice = (\<lambda>c e w. if mem_objs w c (es_key e) = None then (Err NotFound, w)
       else (Ok (), mem_del c (es_key e) w))\<rparr>"

lemma mem_objs_put [simp]:
  "mem_objs (mem_put c e w) c' = (if c' = c then (mem_objs w c)(es_key e \<mapsto> e) else mem_objs w c')"
  by (auto simp: mem_objs_def mem_put_def fun_eq_iff)

lemma mem_other_put [simp]: "mem_svcs (mem_put c e w) = mem_svcs w" "mem_nss (mem_put c e w) = mem_nss w"
  by (simp_all add: mem_svcs_def mem_nss_def mem_put_def fun_eq_iff)

lemma mem_objs_SomeD: "mem_objs w c k = Some e \<Longrightarrow> (c, e) \<in> set (mw_slices w) \<and> es_key e = k"
  by (auto simp: mem_objs_def dest!: map_of_SomeD)

lemma mem_objs_del [simp]:
  "mem_objs (mem_del c k w) c'
     = (if c' = c then (mem_objs w c)(k := None) else mem_objs w c')"
proof -
  have "map_of (map (\<lambda>(c, e). ((c, es_key e), e)) (filter (\<lambda>(c', e). \<not> (c' = c \<and> es_key e = k)) xs)) (c', k')
      = (if c' = c \<and> k' = k then None else map_of (map (\<lambda>(c, e). ((c, es_key e), e)) xs) (c', k'))" for xs k'
    by (induction xs) auto
  then show ?thesis by (auto simp: mem_objs_def mem_del_def fun_eq_iff)
qed

lemma mem_other_del [simp]: "mem_svcs (mem_del c k w) = mem_svcs w" "mem_nss (mem_del c k w) = mem_nss w"
  by (simp_all add: mem_svcs_def mem_nss_def mem_del_def fun_eq_iff)

lemma set_mem_list:
  "snd ` {x \<in> set (firsts (\<lambda>(c, e). (c, es_key e)) (mw_slices w)). case x of (c', e) \<Rightarrow> c' = c \<and> es_Namespace e = n}
     = {e. mem_objs w c (es_key e) = Some e \<and> es_Namespace e = n}"
proof -
  have eq: "map_of (map (\<lambda>x. (case x of (c, e) \<Rightarrow> (c, es_key e), x)) xs) k
      = map_option (\<lambda>e. (fst k, e)) (map_of (map (\<lambda>(c, e). ((c, es_key e), e)) xs) k)" for xs k
    by (induction xs) auto
  have "(c, e) \<in> set (firsts (\<lambda>(c, e). (c, es_key e)) (mw_slices w)) \<longleftrightarrow> mem_objs w c (es_key e) = Some e" for e
    unfolding set_firsts eq by (simp add: mem_objs_def)
  then show ?thesis by force
qed

lemma same_meta: "e\<lparr>es_OtherMeta := es_OtherMeta e\<rparr> = (e :: EndpointSlice)"
  by simp

interpretation mem: cluster_world mem_api mem_view "\<lambda>c. c"
proof (unfold_locales, goal_cases)
  case (22 h e w ru w')
  then show ?case by (auto simp: mem_api_def mem_view_def only_slices_def split: if_splits)
next
  case (23 h e w u w')
  then show ?case
    by (auto simp: mem_api_def mem_view_def split: if_splits intro!: exI [of _ "es_OtherMeta e"])
next
  case (26 h e w u w')
  then show ?case
    by (auto simp: mem_api_def mem_view_def split: if_splits intro!: exI [of _ "es_OtherMeta e"])
next
  case (27 h e w ru w')
  then show ?case
    by (auto simp: mem_api_def mem_view_def only_slices_def split: if_splits)
next
  case (28 h e w u w')
  then show ?case
    by (auto simp: mem_api_def mem_view_def split: if_splits)
qed (auto simp: mem_api_def mem_view_def same_objects_def only_slices_def found_def mem_nss_def set_mem_list
    dest: mem_objs_SomeD split: if_splits option.splits)

end
