(* ===== verification/Management_Client.thy ===== *)
theory Management_Client
  imports Cluster_Client
begin

text \<open>
  The client of the management cluster, which holds the GatewayDNS and Cluster objects. Its
  calls are parameters on the same world as those of \<open>Cluster_Client\<close>. The locale
  \<open>mgmt_world\<close> states that reads return what the management cluster holds and change
  nothing; \<open>controller_world\<close> adds that writes to workload clusters leave the management
  cluster alone.
\<close>

record 'w mgmt_api =
  getGatewayDNS :: "NamespacedName \<Rightarrow> ('w, GatewayDNS) io"
  listGatewayDNS :: "string option \<Rightarrow> ('w, GatewayDNS list) io"
  listClusters :: "string \<Rightarrow> (string_map \<Rightarrow> bool) option \<Rightarrow> ('w, Cluster list) io"

record 'w mgmt_view =
  gdns :: "'w \<Rightarrow> NamespacedName \<rightharpoonup> GatewayDNS"
  clusters :: "'w \<Rightarrow> NamespacedName \<rightharpoonup> Cluster"

text \<open>The options of a \<open>List\<close> call: a namespace, and a selector on labels.\<close>

definition selected :: "(string_map \<Rightarrow> bool) option \<Rightarrow> string_map \<Rightarrow> bool" where
  "selected sel ls = (case sel of None \<Rightarrow> True | Some matches \<Rightarrow> matches ls)"

lemma selected_simps [simp]: "selected None ls" "selected (Some m) ls = m ls"
  by (simp_all add: selected_def)

definition same_mgmt :: "'w mgmt_view \<Rightarrow> 'w \<Rightarrow> 'w \<Rightarrow> bool" where
  "same_mgmt MV w w' \<longleftrightarrow> gdns MV w' = gdns MV w \<and> clusters MV w' = clusters MV w"

lemma reflp_same_mgmt [simp]: "reflp (same_mgmt MV)"
  by (auto intro!: reflpI simp: same_mgmt_def)

lemma transp_same_mgmt [simp]: "transp (same_mgmt MV)"
  by (auto intro!: transpI simp: same_mgmt_def)

locale mgmt_world =
  fixes M :: "'w mgmt_api" and MV :: "'w mgmt_view"
  assumes gdns_key: "gdns MV w k = Some g \<Longrightarrow> gd_key g = k"
    and clusters_key: "clusters MV w k = Some c \<Longrightarrow> cl_key c = k"
    and getGatewayDNS_returns: "getGatewayDNS M k w \<noteq> (Panic p, w')"
    and listGatewayDNS_returns: "listGatewayDNS M no w \<noteq> (Panic p, w')"
    and listClusters_returns: "listClusters M n sel w \<noteq> (Panic p, w')"
    and getGatewayDNS_keeps: "getGatewayDNS M k w = (rg, w') \<Longrightarrow> same_mgmt MV w w'"
    and listGatewayDNS_keeps: "listGatewayDNS M no w = (rgs, w') \<Longrightarrow> same_mgmt MV w w'"
    and listClusters_keeps: "listClusters M n sel w = (rcs, w') \<Longrightarrow> same_mgmt MV w w'"
    and getGatewayDNS_ok: "getGatewayDNS M k w = (Ok g, w') \<Longrightarrow> gdns MV w k = Some g"
    and getGatewayDNS_missing: "getGatewayDNS M k w = (Err NotFound, w') \<Longrightarrow> gdns MV w k = None"
    and listGatewayDNS_ok: "listGatewayDNS M no w = (Ok gs, w') \<Longrightarrow>
      set gs = {g. gdns MV w (gd_key g) = Some g \<and> (\<forall>n. no = Some n \<longrightarrow> gd_Namespace g = n)}"
    and listClusters_ok: "listClusters M n sel w = (Ok cs, w') \<Longrightarrow>
      distinct cs \<and> set cs = {c. clusters MV w (cl_key c) = Some c \<and> cl_Namespace c = n \<and> selected sel (cl_Labels c)}"
begin

lemma clusters_distinct_keys:
  assumes "listClusters M n sel w = (Ok cs, w')"
  shows "distinct (map cl_key cs)"
proof -
  have "c = c'" if "c \<in> set cs" "c' \<in> set cs" "cl_key c = cl_key c'" for c c'
  proof -
    from that(1,2) have "clusters MV w (cl_key c) = Some c" and "clusters MV w (cl_key c') = Some c'"
      using listClusters_ok [OF assms] by blast+
    with that(3) show ?thesis by (metis option.inject)
  qed
  then have "inj_on cl_key (set cs)" by (rule inj_onI)
  with listClusters_ok [OF assms] show ?thesis by (simp only: distinct_map simp_thms)
qed

end

locale controller_world = cluster_world A V cluster_of + mgmt_world M MV
  for A :: "('h, 'w) cluster_api" and V cluster_of and M :: "'w mgmt_api" and MV +
  assumes getGatewayDNS_apart: "getGatewayDNS M k w = (rg, w') \<Longrightarrow> same_objects V w w'"
    and listGatewayDNS_apart: "listGatewayDNS M no w = (rgs, w') \<Longrightarrow> same_objects V w w'"
    and listClusters_apart: "listClusters M n sel w = (rcs, w') \<Longrightarrow> same_objects V w w'"
    and cluster_calls_apart:
      "GetClient A c w = (rh, w') \<Longrightarrow> same_mgmt MV w w'"
      "getNamespace A h n w = (ru, w') \<Longrightarrow> same_mgmt MV w w'"
      "getService A h k w = (rs, w') \<Longrightarrow> same_mgmt MV w w'"
      "listSlices A h n w = (rl, w') \<Longrightarrow> same_mgmt MV w w'"
      "getSlice A h k w = (re, w') \<Longrightarrow> same_mgmt MV w w'"
      "createSlice A h e w = (ru, w') \<Longrightarrow> same_mgmt MV w w'"
      "updateSlice A h e w = (ru, w') \<Longrightarrow> same_mgmt MV w w'"
      "deleteSlice A h e w = (ru, w') \<Longrightarrow> same_mgmt MV w w'"

section \<open>A management cluster in memory\<close>

definition mem_gdns :: "mem_world \<Rightarrow> NamespacedName \<rightharpoonup> GatewayDNS" where
  "mem_gdns w = map_of (map (\<lambda>g. (gd_key g, g)) (mw_gatewaydns w))"

definition mem_clusters :: "mem_world \<Rightarrow> NamespacedName \<rightharpoonup> Cluster" where
  "mem_clusters w = map_of (map (\<lambda>c. (cl_key c, c)) (mw_clusters w))"

definition mem_mgmt_view :: "mem_world mgmt_view" where
  "mem_mgmt_view = \<lparr>gdns = mem_gdns, clusters = mem_clusters\<rparr>"

definition mem_mgmt :: "mem_world mgmt_api" where
  "mem_mgmt = \<lparr>
     getGatewayDNS = (\<lambda>k w. (found (mem_gdns w k), w)),
     listGatewayDNS = (\<lambda>no w. (Ok (filter (\<lambda>g. case no of None \<Rightarrow> True | Some n \<Rightarrow> gd_Namespace g = n)
        (firsts gd_key (mw_gatewaydns w))), w)),
     listClusters = (\<lambda>n sel w. (Ok (filter (\<lambda>c. cl_Namespace c = n \<and> selected sel (cl_Labels c))
        (firsts cl_key (mw_clusters w))), w))\<rparr>"

lemma mem_gdns_SomeD: "mem_gdns w k = Some g \<Longrightarrow> g \<in> set (mw_gatewaydns w) \<and> gd_key g = k"
  by (auto simp: mem_gdns_def dest!: map_of_SomeD)

lemma mem_clusters_SomeD: "mem_clusters w k = Some c \<Longrightarrow> c \<in> set (mw_clusters w) \<and> cl_key c = k"
  by (auto simp: mem_clusters_def dest!: map_of_SomeD)

lemma mem_mgmt_put [simp]:
  "mem_gdns (mem_put c e w) = mem_gdns w" "mem_clusters (mem_put c e w) = mem_clusters w"
  "mem_gdns (mem_del c k w) = mem_gdns w" "mem_clusters (mem_del c k w) = mem_clusters w"
  by (simp_all add: mem_gdns_def mem_clusters_def mem_put_def mem_del_def)

lemma set_mem_mgmt:
  "g \<in> set (firsts gd_key (mw_gatewaydns w)) \<longleftrightarrow> mem_gdns w (gd_key g) = Some g"
  "c \<in> set (firsts cl_key (mw_clusters w)) \<longleftrightarrow> mem_clusters w (cl_key c) = Some c"
  by (simp_all add: set_firsts mem_gdns_def mem_clusters_def)

interpretation mem_mgmt: mgmt_world mem_mgmt mem_mgmt_view
  by unfold_locales
    (auto simp: mem_mgmt_def mem_mgmt_view_def same_mgmt_def found_def set_mem_mgmt
      split: option.splits if_splits
      dest: mem_gdns_SomeD mem_clusters_SomeD)

interpretation mem_ctl: controller_world mem_api mem_view "\<lambda>c. c" mem_mgmt mem_mgmt_view
  by unfold_locales
    (auto simp: mem_mgmt_def mem_api_def mem_mgmt_view_def same_mgmt_def same_objects_def split: if_splits)

end
