(* ===== verification/Cluster_Gateway.thy ===== *)
theory Cluster_Gateway
  imports Management_Client
begin

text \<open>
  Which gateways a GatewayDNS selects (\<open>cluster_searcher.go\<close>,
  \<open>cluster_gateway_collector.go\<close>) and the EndpointSlice that announces a gateway
  (\<open>cluster_gateway.go\<close>), all of \<open>pkg/controllers/gatewaydns\<close>.
\<close>

section \<open>A cluster's gateway and its EndpointSlice\<close>

record ClusterGateway =
  cg_ClusterNamespacedName :: NamespacedName
  cg_Gateway :: "Service option"
  cg_Unreachable :: bool
  cg_DomainSuffix :: string
  cg_ControllerNamespace :: string
  cg_GatewayDNSNamespacedName :: NamespacedName

definition endpointSliceName :: "ClusterGateway \<Rightarrow> string" where
  "endpointSliceName cg =
     Namespace (cg_ClusterNamespacedName cg) @ ''-'' @ Name (cg_ClusterNamespacedName cg) @ ''-gateway''"

definition gatewayHostname :: "ClusterGateway \<Rightarrow> string" where
  "gatewayHostname cg = ''*.gateway.'' @ Name (cg_ClusterNamespacedName cg) @ ''.''
     @ Namespace (cg_ClusterNamespacedName cg) @ ''.clusters.'' @ cg_DomainSuffix cg"

definition ToEndpointSlice :: "kube_lib \<Rightarrow> ClusterGateway \<Rightarrow> EndpointSlice go_result" where
  "ToEndpointSlice K cg =
     (let hostname = gatewayHostname cg in
      case cg_Gateway cg of
        None \<Rightarrow> Panic NilPointerDereference
      | Some svc \<Rightarrow>
          let addresses = map ing_IP (svc_Ingress svc) in
          Ok \<lparr>es_Namespace = cg_ControllerNamespace cg,
              es_Name = endpointSliceName cg,
              es_Annotations = Some [DNSHostnameAnnotation \<mapsto> hostname,
                GatewayDNSRefAnnotation \<mapsto> nnString K (cg_GatewayDNSNamespacedName cg)],
              es_Labels = Some [''kubernetes.io/service-name'' \<mapsto> endpointSliceName cg],
              es_AddressType = AddressTypeIPv4,
              es_Endpoints = Some [\<lparr>ep_Addresses = Some addresses, ep_Other = []\<rparr>],
              es_Ports = None,
              es_OtherMeta = []\<rparr>)"

definition cg_EndpointSliceKey :: "ClusterGateway \<Rightarrow> string" where
  "cg_EndpointSliceKey cg = cg_ControllerNamespace cg @ ''/'' @ endpointSliceName cg"

definition EndpointSliceKey :: "EndpointSlice \<Rightarrow> string" where
  "EndpointSliceKey e = es_Namespace e @ ''/'' @ es_Name e"

lemma ToEndpointSlice_key: "ToEndpointSlice K cg = Ok e \<Longrightarrow> EndpointSliceKey e = cg_EndpointSliceKey cg"
  by (auto simp: ToEndpointSlice_def EndpointSliceKey_def cg_EndpointSliceKey_def Let_def split: option.splits)

lemma ToEndpointSlice_Ok_iff: "(\<exists>e. ToEndpointSlice K cg = Ok e) \<longleftrightarrow> cg_Gateway cg \<noteq> None"
  by (auto simp: ToEndpointSlice_def Let_def split: option.splits)

text \<open>The fields of the slice that announces a gateway\<close>

lemma ToEndpointSlice_fields:
  assumes "ToEndpointSlice K cg = Ok e"
  shows "smLookup (es_Annotations e) DNSHostnameAnnotation = Some (gatewayHostname cg)"
    and "smLookup (es_Annotations e) GatewayDNSRefAnnotation = Some (nnString K (cg_GatewayDNSNamespacedName cg))"
    and "es_Namespace e = cg_ControllerNamespace cg" and "es_Name e = endpointSliceName cg"
    and "es_AddressType e = AddressTypeIPv4" and "es_Ports e = None" and "es_OtherMeta e = []"
    and "es_Annotations e \<noteq> None"
  using assms by (auto simp: ToEndpointSlice_def Let_def split: option.splits)

lemma cg_key_eq_iff [simp]:
  assumes "cg_ControllerNamespace a = cg_ControllerNamespace b"
  shows "cg_EndpointSliceKey a = cg_EndpointSliceKey b \<longleftrightarrow> endpointSliceName a = endpointSliceName b"
  using assms by (simp add: cg_EndpointSliceKey_def)

lemma key_eq_iff:
  "es_Namespace a = es_Namespace b \<Longrightarrow> EndpointSliceKey a = EndpointSliceKey b \<longleftrightarrow> es_key a = es_key b"
  by (simp add: EndpointSliceKey_def es_key_def)

section \<open>Collecting the gateways\<close>

record ClusterGatewayCollector =
  col_DomainSuffix :: string
  col_Namespace :: string

definition newNamespacedNameFromString :: "kube_lib \<Rightarrow> string \<Rightarrow> NamespacedName" where
  "newNamespacedNameFromString K s =
     (let result = strings_Split s (Separator K) in
      if length result = 2 then \<lparr>Namespace = result ! 0, Name = result ! 1\<rparr>
      else \<lparr>Namespace = '''', Name = ''''\<rparr>)"

definition isLoadBalancerWithExternalIP :: "Service \<Rightarrow> bool" where
  "isLoadBalancerWithExternalIP svc =
     (if svc_Type svc \<noteq> ServiceTypeLoadBalancer then False
      else if length (svc_Ingress svc) = 0 then False
      else True)"

definition getExternalIPsFromStatus :: "Service \<Rightarrow> string list" where
  "getExternalIPsFromStatus svc = map ing_IP (svc_Ingress svc)"

definition getLoadBalancerServiceForCluster ::
    "('h, 'w) cluster_api \<Rightarrow> NamespacedName \<Rightarrow> Cluster \<Rightarrow> ('w, Service option) io" where
  "getLoadBalancerServiceForCluster A serviceNamespacedName cluster =
     io_handle (GetClient A \<lparr>Namespace = cl_Namespace cluster, Name = cl_Name cluster\<rparr>)
       (\<lambda>clusterClient.
          io_handle (getService A clusterClient serviceNamespacedName)
            (\<lambda>service. io_return (if isLoadBalancerWithExternalIP service then Some service else None))
            (\<lambda>err. if IsNotFound err then io_return None else io_err err))
       (\<lambda>err. io_err err)"

text \<open>The struct literal of the loop body, with \<open>Gateway\<close> set to the service\<close>

definition clusterGatewayOf ::
    "ClusterGatewayCollector \<Rightarrow> GatewayDNS \<Rightarrow> Cluster \<Rightarrow> Service option \<Rightarrow> bool \<Rightarrow> ClusterGateway" where
  "clusterGatewayOf e gatewayDNS cluster service failed =
     \<lparr>cg_ClusterNamespacedName = \<lparr>Namespace = cl_Namespace cluster, Name = cl_Name cluster\<rparr>,
      cg_Gateway = service,
      cg_Unreachable = failed,
      cg_DomainSuffix = col_DomainSuffix e,
      cg_ControllerNamespace = col_Namespace e,
      cg_GatewayDNSNamespacedName = \<lparr>Namespace = gd_Namespace gatewayDNS, Name = gd_Name gatewayDNS\<rparr>\<rparr>"

text \<open>
  The body of the loop: the gateway is appended where the cluster could not be queried or
  where it has a service.
\<close>

definition collectGateway ::
    "('h, 'w) cluster_api \<Rightarrow> ClusterGatewayCollector \<Rightarrow> GatewayDNS \<Rightarrow> NamespacedName \<Rightarrow> Cluster
      \<Rightarrow> ('w, ClusterGateway list) io" where
  "collectGateway A e gatewayDNS svcName cluster =
     io_handle (getLoadBalancerServiceForCluster A svcName cluster)
       (\<lambda>service. io_return (if service \<noteq> None then [clusterGatewayOf e gatewayDNS cluster service False] else []))
       (\<lambda>err. io_return [clusterGatewayOf e gatewayDNS cluster None True])"

primrec collectGateways ::
    "('h, 'w) cluster_api \<Rightarrow> ClusterGatewayCollector \<Rightarrow> GatewayDNS \<Rightarrow> NamespacedName \<Rightarrow> Cluster list
      \<Rightarrow> ('w, ClusterGateway list) io" where
  "collectGateways A e g svcName [] = io_return []"
| "collectGateways A e g svcName (cluster # cs) =
     io_bind (collectGateway A e g svcName cluster) (\<lambda>xs.
       io_bind (collectGateways A e g svcName cs) (\<lambda>ys. io_return (xs @ ys)))"

definition GetGatewaysForClusters ::
    "kube_lib \<Rightarrow> ('h, 'w) cluster_api \<Rightarrow> ClusterGatewayCollector \<Rightarrow> GatewayDNS \<Rightarrow> Cluster list
      \<Rightarrow> ('w, ClusterGateway list) io" where
  "GetGatewaysForClusters K A e gatewayDNS cs =
     collectGateways A e gatewayDNS (newNamespacedNameFromString K (spec_Service (gd_Spec gatewayDNS))) cs"

section \<open>Searching for clusters\<close>

definition ListMatchingClusters :: "kube_lib \<Rightarrow> 'w mgmt_api \<Rightarrow> GatewayDNS \<Rightarrow> ('w, Cluster list) io" where
  "ListMatchingClusters K M gatewayDNS =
     io_bind (io_of (LabelSelectorAsSelector K (ClusterSelector (gd_Spec gatewayDNS)))) (\<lambda>selector.
       listClusters M (gd_Namespace gatewayDNS) (Some selector))"

section \<open>Names\<close>

lemma sep_append_eq:
  "c \<notin> set s \<Longrightarrow> c \<notin> set t \<Longrightarrow> s @ c # a = t @ c # b \<Longrightarrow> s = t \<and> a = b"
proof (induction s arbitrary: t)
  case Nil
  then show ?case by (cases t) auto
next
  case (Cons x s)
  then show ?case by (cases t) auto
qed

lemma append_sep_eq:
  assumes "c \<notin> set s" and "c \<notin> set t" and "a @ c # s = b @ c # t"
  shows "a = b \<and> s = t"
proof -
  have "rev s @ c # rev a = rev t @ c # rev b"
    using assms(3) by (metis append.assoc append_Cons append_Nil rev.simps(2) rev_append)
  then have "rev s = rev t \<and> rev a = rev b"
    using assms(1,2) sep_append_eq [of c "rev s" "rev t" "rev a" "rev b"] by simp
  then show ?thesis by simp
qed

lemma gatewayHostname_inj:
  assumes "gatewayHostname a = gatewayHostname b" and "cg_DomainSuffix a = cg_DomainSuffix b"
    and "CHR ''.'' \<notin> set (Namespace (cg_ClusterNamespacedName a))"
    and "CHR ''.'' \<notin> set (Namespace (cg_ClusterNamespacedName b))"
  shows "cg_ClusterNamespacedName a = cg_ClusterNamespacedName b"
proof -
  from assms(1,2) have "Name (cg_ClusterNamespacedName a) @ CHR ''.'' # Namespace (cg_ClusterNamespacedName a)
      = Name (cg_ClusterNamespacedName b) @ CHR ''.'' # Namespace (cg_ClusterNamespacedName b)"
    by (simp add: gatewayHostname_def)
  from append_sep_eq [OF assms(3,4) this] show ?thesis by simp
qed

text \<open>
  Gateways of different clusters of a namespace get different EndpointSlices and are
  announced under different host names, so that in one cluster no announcement overwrites
  another: equal names or equal host names mean the same cluster.
\<close>

theorem gateways_of_namespace_apart:
  assumes "Namespace (cg_ClusterNamespacedName a) = Namespace (cg_ClusterNamespacedName b)"
    and "CHR ''.'' \<notin> set (Namespace (cg_ClusterNamespacedName a))"
    and "cg_DomainSuffix a = cg_DomainSuffix b" and "cg_ControllerNamespace a = cg_ControllerNamespace b"
    and "cg_EndpointSliceKey a = cg_EndpointSliceKey b \<or> gatewayHostname a = gatewayHostname b"
  shows "cg_ClusterNamespacedName a = cg_ClusterNamespacedName b"
  using assms(5)
proof
  assume "cg_EndpointSliceKey a = cg_EndpointSliceKey b"
  with assms(1,4) show ?thesis by (simp add: endpointSliceName_def)
next
  assume "gatewayHostname a = gatewayHostname b"
  then show ?thesis by (rule gatewayHostname_inj) (use assms(1-3) in simp_all)
qed

definition ex_cg :: "string \<Rightarrow> string \<Rightarrow> ClusterGateway" where
  "ex_cg n c = \<lparr>cg_ClusterNamespacedName = \<lparr>Namespace = n, Name = c\<rparr>,
     cg_Gateway = Some \<lparr>svc_Type = ServiceTypeLoadBalancer, svc_ClusterIP = ''10.0.0.1'',
       svc_Ingress = [\<lparr>ing_IP = ''1.2.3.4'', ing_Hostname = ''''\<rparr>]\<rparr>,
     cg_Unreachable = False, cg_DomainSuffix = ''xcc.test'', cg_ControllerNamespace = ''xcc'',
     cg_GatewayDNSNamespacedName = \<lparr>Namespace = n, Name = ''gw''\<rparr>\<rparr>"

theorem gateways_of_namespace_apart_witness:
  "cg_ClusterNamespacedName (ex_cg ''dev'' ''a.b'') = cg_ClusterNamespacedName ((ex_cg ''dev'' ''a.b'')\<lparr>cg_Unreachable := True\<rparr>)
   \<and> gatewayHostname (ex_cg ''dev'' ''a.b'') = ''*.gateway.a.b.dev.clusters.xcc.test''"
  using gateways_of_namespace_apart [of "ex_cg ''dev'' ''a.b''" "(ex_cg ''dev'' ''a.b'')\<lparr>cg_Unreachable := True\<rparr>"]
  by (simp add: ex_cg_def gatewayHostname_def)

text \<open>
  Across namespaces the names of the slices are not unique: the cluster \<open>b-c\<close> of
  namespace \<open>a\<close> and the cluster \<open>c\<close> of namespace \<open>a-b\<close> have the same EndpointSlice
  name, although their host names differ.
\<close>

theorem slice_names_collide_across_namespaces:
  "cg_EndpointSliceKey (ex_cg ''a'' ''b-c'') = cg_EndpointSliceKey (ex_cg ''a-b'' ''c'')
   \<and> gatewayHostname (ex_cg ''a'' ''b-c'') \<noteq> gatewayHostname (ex_cg ''a-b'' ''c'')"
  by (simp add: ex_cg_def cg_EndpointSliceKey_def endpointSliceName_def gatewayHostname_def)

context kube_names
begin

lemma name_round_trip: "valid_name K n \<Longrightarrow> newNamespacedNameFromString K (nnString K n) = n"
  by (simp add: newNamespacedNameFromString_def nnString_valid Split_append Split_no_sep valid_name_def)

lemma name_from_string_valid:
  assumes "newNamespacedNameFromString K s = n" and "n \<noteq> \<lparr>Namespace = '''', Name = ''''\<rparr>"
  shows "s = Namespace n @ Separator K # Name n"
proof -
  let ?r = "strings_Split s (Separator K)"
  from assms have len: "length ?r = 2"
    by (auto simp: newNamespacedNameFromString_def Let_def split: if_splits)
  with assms(1) have "?r = [Namespace n, Name n]"
    by (auto simp: newNamespacedNameFromString_def Let_def length_Suc_conv numeral_2_eq_2)
  with Join_Split [of s "Separator K"] show ?thesis by simp
qed

end

section \<open>What the collector returns\<close>

text \<open>
  \<open>query_ok\<close>: the cluster can be reached in world \<open>v\<close> and answers whether it has the
  service. \<open>gateways_of\<close>: what the collector should return for a cluster, given the service
  that the cluster has, if any.
\<close>

definition query_ok :: "('h, 'w) cluster_api \<Rightarrow> NamespacedName \<Rightarrow> Cluster \<Rightarrow> 'w \<Rightarrow> bool" where
  "query_ok A svcName c v =
     (case GetClient A (cl_key c) v of
        (Ok h, v') \<Rightarrow> (case fst (getService A h svcName v') of
            Ok s \<Rightarrow> True | Err e \<Rightarrow> e = NotFound | Panic p \<Rightarrow> False)
      | (Err e, v') \<Rightarrow> False
      | (Panic p, v') \<Rightarrow> False)"

definition gateways_of ::
    "ClusterGatewayCollector \<Rightarrow> GatewayDNS \<Rightarrow> Service option \<Rightarrow> bool \<Rightarrow> Cluster \<Rightarrow> ClusterGateway list" where
  "gateways_of e g svc up c =
     (if \<not> up then [clusterGatewayOf e g c None True]
      else case svc of
        None \<Rightarrow> []
      | Some s \<Rightarrow> if svc_Type s = ServiceTypeLoadBalancer \<and> svc_Ingress s \<noteq> [] then [clusterGatewayOf e g c (Some s) False] else [])"

lemma isLoadBalancer_iff:
  "isLoadBalancerWithExternalIP s \<longleftrightarrow> svc_Type s = ServiceTypeLoadBalancer \<and> svc_Ingress s \<noteq> []"
  by (simp add: isLoadBalancerWithExternalIP_def)

lemma cl_key_literal: "\<lparr>Namespace = cl_Namespace c, Name = cl_Name c\<rparr> = cl_key c"
  by (simp add: cl_key_def)

context cluster_world
begin

lemma collectGateway_spec:
  assumes "collectGateway A e g svc c w = (r, w')"
  shows "r = Ok (gateways_of e g (svcs V w (cl_key c) svc) (query_ok A svc c w) c) \<and> same_objects V w w'"
proof -
  obtain rh w1 where cl: "GetClient A (cl_key c) w = (rh, w1)" by fastforce
  have s1: "same_objects V w w1" by (rule client_keeps [OF cl])
  show ?thesis
  proof (cases rh)
    case (Ok h)
    obtain rs w2 where sv: "getService A h svc w1 = (rs, w2)" by fastforce
    have s2: "same_objects V w w2" by (rule same_objects_trans [OF s1 service_keeps [OF sv]])
    have h: "cluster_of h = cl_key c" using cl Ok client_ok by simp
    have "svcs V w1 = svcs V w" using s1 by (simp add: same_objects_def)
    with h have svc: "rs = Ok s \<Longrightarrow> svcs V w (cl_key c) svc = Some s"
      "rs = Err NotFound \<Longrightarrow> svcs V w (cl_key c) svc = None" for s
      using service_ok [of h svc w1 s w2] service_missing [of h svc w1 w2] sv by simp_all
    show ?thesis
    proof (cases rs)
      case (Ok s)
      with assms cl sv \<open>rh = Ok h\<close> s2 svc(1) show ?thesis
        by (auto simp: collectGateway_def getLoadBalancerServiceForCluster_def cl_key_literal io_handle_def
            io_return_def query_ok_def gateways_of_def isLoadBalancer_iff)
    next
      case (Err er)
      with assms cl sv \<open>rh = Ok h\<close> s2 svc(2) show ?thesis
        by (auto simp: collectGateway_def getLoadBalancerServiceForCluster_def cl_key_literal io_handle_def
            io_return_def io_err_def query_ok_def gateways_of_def)
    next
      case (Panic p)
      with sv service_returns show ?thesis by blast
    qed
  next
    case (Err er)
    with assms cl s1 show ?thesis
      by (auto simp: collectGateway_def getLoadBalancerServiceForCluster_def cl_key_literal io_handle_def
          io_return_def io_err_def query_ok_def gateways_of_def)
  next
    case (Panic p)
    with cl client_returns show ?thesis by blast
  qed
qed

lemma collectGateways_spec:
  assumes "collectGateways A e g svc cs w = (r, w')"
  shows "\<exists>ws. length ws = length cs \<and> (\<forall>v\<in>set ws. same_objects V w v) \<and> same_objects V w w' \<and>
    r = Ok (concat (map2 (\<lambda>c v. gateways_of e g (svcs V w (cl_key c) svc) (query_ok A svc c v) c) cs ws))"
  using assms
proof (induction cs arbitrary: w r)
  case Nil
  then show ?case by (simp add: io_return_def same_objects_refl)
next
  case (Cons c cs)
  obtain r1 w1 where one: "collectGateway A e g svc c w = (r1, w1)" by fastforce
  let ?x = "gateways_of e g (svcs V w (cl_key c) svc) (query_ok A svc c w) c"
  from collectGateway_spec [OF one] have r1: "r1 = Ok ?x" and s1: "same_objects V w w1" by auto
  obtain r2 where rest: "collectGateways A e g svc cs w1 = (r2, w')"
    and r: "r = (case r2 of Ok ys \<Rightarrow> Ok (?x @ ys) | Err er \<Rightarrow> Err er | Panic p \<Rightarrow> Panic p)"
    using Cons.prems one r1 by (auto simp: io_bind_def io_return_def split: prod.splits go_result.splits)
  from Cons.IH [OF rest] obtain ws where ws: "length ws = length cs" "\<forall>v\<in>set ws. same_objects V w1 v"
    "same_objects V w1 w'"
    "r2 = Ok (concat (map2 (\<lambda>c v. gateways_of e g (svcs V w1 (cl_key c) svc) (query_ok A svc c v) c) cs ws))"
    by blast
  have sv: "svcs V w1 = svcs V w" using s1 by (simp add: same_objects_def)
  show ?case
    using ws s1 r sv by (intro exI [of _ "w # ws"]) (auto intro: same_objects_refl same_objects_trans)
qed

end

text \<open>
  C22. The collector reports exactly the gateways of the clusters it was given, in order: a
  cluster that could not be queried is reported as unreachable and without a service; a
  cluster that answered is reported, with its service, if and only if it has the service that
  the GatewayDNS names, of type LoadBalancer and with an ingress. It changes no object, never
  fails and never panics, whatever calls fail.
\<close>

theorem GetGatewaysForClusters_spec:
  assumes "cluster_world A V cluster_of"
    and "GetGatewaysForClusters K A e g cs w = (r, w')"
    and "svc = newNamespacedNameFromString K (spec_Service (gd_Spec g))"
  shows "\<exists>ws. length ws = length cs \<and> (\<forall>v\<in>set ws. same_objects V w v) \<and> same_objects V w w' \<and>
    r = Ok (concat (map2 (\<lambda>c v. gateways_of e g (svcs V w (cl_key c) svc) (query_ok A svc c v) c) cs ws))"
  using cluster_world.collectGateways_spec [OF assms(1)] assms(2,3)
  by (simp add: GetGatewaysForClusters_def)

definition ex_lb :: Service where
  "ex_lb = \<lparr>svc_Type = ServiceTypeLoadBalancer, svc_ClusterIP = ''10.0.0.1'',
     svc_Ingress = [\<lparr>ing_IP = ''1.2.3.4'', ing_Hostname = ''''\<rparr>, \<lparr>ing_IP = ''1.2.3.5'', ing_Hostname = ''''\<rparr>]\<rparr>"

definition ex_cluster :: "string \<Rightarrow> Cluster" where
  "ex_cluster n = \<lparr>cl_Namespace = ''dev'', cl_Name = n, cl_Labels = Some [''env'' \<mapsto> ''dev'']\<rparr>"

definition ex_gdns :: GatewayDNS where
  "ex_gdns = \<lparr>gd_Namespace = ''dev'', gd_Name = ''gw'',
     gd_Spec = \<lparr>ClusterSelector = \<lparr>MatchLabels = [(''env'', ''dev'')], MatchExpressions = []\<rparr>,
       spec_Service = ''ingress/envoy'', ResolutionType = ''loadBalancer''\<rparr>\<rparr>"

definition ex_collector :: ClusterGatewayCollector where
  "ex_collector = \<lparr>col_DomainSuffix = ''xcc.test'', col_Namespace = ''xcc''\<rparr>"

text \<open>Three clusters: one with a load balancer, one that cannot be reached, one without the service\<close>

definition ex_world :: mem_world where
  "ex_world = \<lparr>mw_slices = [],
     mw_services = [(cl_key (ex_cluster ''a''), \<lparr>Namespace = ''ingress'', Name = ''envoy''\<rparr>, ex_lb)],
     mw_namespaces = [(cl_key (ex_cluster ''a''), ''xcc''), (cl_key (ex_cluster ''c''), ''xcc'')],
     mw_down = [cl_key (ex_cluster ''b'')],
     mw_gatewaydns = [ex_gdns], mw_clusters = map ex_cluster [''a'', ''b'', ''c'']\<rparr>"

theorem GetGatewaysForClusters_spec_witness:
  "\<exists>gs. GetGatewaysForClusters slash_kube mem_api ex_collector ex_gdns (map ex_cluster [''a'', ''b'', ''c'']) ex_world
      = (Ok gs, ex_world)
    \<and> gs = [clusterGatewayOf ex_collector ex_gdns (ex_cluster ''a'') (Some ex_lb) False,
            clusterGatewayOf ex_collector ex_gdns (ex_cluster ''b'') None True]
    \<and> (\<exists>ws. length ws = length (map ex_cluster [''a'', ''b'', ''c'']) \<and> gs = concat (map2 (\<lambda>c v. gateways_of ex_collector ex_gdns
          (svcs mem_view ex_world (cl_key c) \<lparr>Namespace = ''ingress'', Name = ''envoy''\<rparr>)
          (query_ok mem_api \<lparr>Namespace = ''ingress'', Name = ''envoy''\<rparr> c v) c) (map ex_cluster [''a'', ''b'', ''c'']) ws))"
proof -
  let ?gs = "[clusterGatewayOf ex_collector ex_gdns (ex_cluster ''a'') (Some ex_lb) False,
            clusterGatewayOf ex_collector ex_gdns (ex_cluster ''b'') None True]"
  have svc: "\<lparr>Namespace = ''ingress'', Name = ''envoy''\<rparr>
      = newNamespacedNameFromString slash_kube (spec_Service (gd_Spec ex_gdns))" by code_simp
  have run: "GetGatewaysForClusters slash_kube mem_api ex_collector ex_gdns (map ex_cluster [''a'', ''b'', ''c'']) ex_world
      = (Ok ?gs, ex_world)"
    by (simp add: GetGatewaysForClusters_def collectGateway_def getLoadBalancerServiceForCluster_def mem_api_def
        svc [symmetric] ex_world_def ex_cluster_def cl_key_def io_bind_def io_handle_def io_return_def io_err_def
        mem_svcs_def found_def ex_lb_def isLoadBalancer_iff)
  have "\<exists>ws. length ws = length (map ex_cluster [''a'', ''b'', ''c'']) \<and> ?gs = concat (map2 (\<lambda>c v. gateways_of ex_collector ex_gdns
          (svcs mem_view ex_world (cl_key c) \<lparr>Namespace = ''ingress'', Name = ''envoy''\<rparr>)
          (query_ok mem_api \<lparr>Namespace = ''ingress'', Name = ''envoy''\<rparr> c v) c) (map ex_cluster [''a'', ''b'', ''c'']) ws)"
    using GetGatewaysForClusters_spec [OF mem.cluster_world_axioms run svc] by blast
  with run show ?thesis by blast
qed

end
