(* ===== verification/EndpointSlice_Diff.thy ===== *)
theory EndpointSlice_Diff
  imports Cluster_Gateway
begin

text \<open>
  The difference between the EndpointSlices a workload cluster has and those that the gateways
  of a GatewayDNS call for (\<open>diffCluster\<close>, \<open>merge\<close> and \<open>compareEndpointSlices\<close> of
  \<open>pkg/controllers/gatewaydns/endpoint_slice_reconciler.go\<close>). The order in which Go ranges
  over its maps is a parameter. The specification \<open>converge_spec\<close> says what the slices of
  a cluster become; the lemmas show that applying the difference leads there in every order.
\<close>

section \<open>Comparing and merging slices\<close>

definition merge :: "EndpointSlice \<Rightarrow> EndpointSlice \<Rightarrow> EndpointSlice" where
  "merge source dest =
     (let annotations = (case es_Annotations dest of None \<Rightarrow> Map.empty | Some m \<Rightarrow> m) in
      dest\<lparr>es_Annotations := Some (annotations
             (DNSHostnameAnnotation \<mapsto> smGet (es_Annotations source) DNSHostnameAnnotation,
              GatewayDNSRefAnnotation \<mapsto> smGet (es_Annotations source) GatewayDNSRefAnnotation)),
           es_AddressType := es_AddressType source,
           es_Endpoints := es_Endpoints source,
           es_Ports := es_Ports source\<rparr>)"

definition compareEndpointSlices :: "EndpointSlice \<Rightarrow> EndpointSlice \<Rightarrow> bool" where
  "compareEndpointSlices a b \<longleftrightarrow>
     smGet (es_Annotations a) DNSHostnameAnnotation = smGet (es_Annotations b) DNSHostnameAnnotation \<and>
     es_AddressType a = es_AddressType b \<and>
     es_Endpoints a = es_Endpoints b \<and>
     es_Ports a = es_Ports b"

definition flattenEndpoints :: "Endpoint list \<Rightarrow> string list" where
  "flattenEndpoints endpoints = concat (map (\<lambda>endpoint. elems (ep_Addresses endpoint)) endpoints)"

section \<open>The difference\<close>

record ClusterDiff =
  undesired :: "EndpointSlice list"
  missing :: "EndpointSlice list"
  changed :: "EndpointSlice list"

text \<open>The two maps that \<open>diffCluster\<close> ranges over, in an order that may differ from run to run\<close>

record 'w map_order =
  rangeGateways :: "'w \<Rightarrow> (string \<times> ClusterGateway) list \<Rightarrow> (string \<times> ClusterGateway) list"
  rangeSlices :: "'w \<Rightarrow> (string \<times> EndpointSlice) list \<Rightarrow> (string \<times> EndpointSlice) list"

text \<open>The slices that the filter of the first loop lets through: those of the GatewayDNS\<close>

definition ownedBy :: "kube_lib \<Rightarrow> NamespacedName \<Rightarrow> EndpointSlice \<Rightarrow> bool" where
  "ownedBy K gatewayDNS e =
     (case smLookup (es_Annotations e) DNSHostnameAnnotation of
        None \<Rightarrow> False
      | Some _ \<Rightarrow> (case smLookup (es_Annotations e) GatewayDNSRefAnnotation of
            None \<Rightarrow> False
          | Some ref \<Rightarrow> \<not> (ref \<noteq> nnString K gatewayDNS)))"

definition existingMap :: "kube_lib \<Rightarrow> NamespacedName \<Rightarrow> EndpointSlice list \<Rightarrow> (string \<times> EndpointSlice) list" where
  "existingMap K gatewayDNS items =
     fold (\<lambda>e m. if ownedBy K gatewayDNS e then mapPut (EndpointSliceKey e) e m else m) items []"

primrec diffDesired ::
    "kube_lib \<Rightarrow> (string \<times> EndpointSlice) list \<Rightarrow> (string \<times> ClusterGateway) list \<Rightarrow> ClusterDiff
      \<Rightarrow> ClusterDiff go_result" where
  "diffDesired K existing [] d = Ok d"
| "diffDesired K existing (kv # rest) d =
     (let desiredClusterGateway = snd kv in
      if cg_Unreachable desiredClusterGateway then diffDesired K existing rest d
      else case ToEndpointSlice K desiredClusterGateway of
        Ok desiredEndpointSlice \<Rightarrow>
          (case map_of existing (cg_EndpointSliceKey desiredClusterGateway) of
             Some existingItem \<Rightarrow>
               if \<not> compareEndpointSlices desiredEndpointSlice existingItem
               then diffDesired K existing rest (d\<lparr>changed := changed d @ [merge desiredEndpointSlice existingItem]\<rparr>)
               else diffDesired K existing rest d
           | None \<Rightarrow> diffDesired K existing rest (d\<lparr>missing := missing d @ [desiredEndpointSlice]\<rparr>))
      | Err e \<Rightarrow> Err e
      | Panic p \<Rightarrow> Panic p)"

primrec diffExisting ::
    "(string \<times> ClusterGateway) list \<Rightarrow> (string \<times> EndpointSlice) list \<Rightarrow> ClusterDiff \<Rightarrow> ClusterDiff" where
  "diffExisting desired [] d = d"
| "diffExisting desired (kv # rest) d =
     (let existingEndpointSlice = snd kv in
      case map_of desired (EndpointSliceKey existingEndpointSlice) of
        Some _ \<Rightarrow> diffExisting desired rest d
      | None \<Rightarrow> diffExisting desired rest (d\<lparr>undesired := undesired d @ [existingEndpointSlice]\<rparr>))"

definition diffCluster ::
    "kube_lib \<Rightarrow> 'w map_order \<Rightarrow> ('h, 'w) cluster_api \<Rightarrow> string \<Rightarrow> NamespacedName \<Rightarrow> 'h \<Rightarrow> ClusterGateway list
      \<Rightarrow> ('w, ClusterDiff) io" where
  "diffCluster K R A ns gatewayDNS clusterClient desiredClusterGateways =
     io_bind (listSlices A clusterClient ns) (\<lambda>items w.
       let existing = existingMap K gatewayDNS items;
           desired = mapOfList cg_EndpointSliceKey desiredClusterGateways
       in (case diffDesired K existing (rangeGateways R w desired) \<lparr>undesired = [], missing = [], changed = []\<rparr> of
             Ok d \<Rightarrow> Ok (diffExisting desired (rangeSlices R w existing) d)
           | Err e \<Rightarrow> Err e
           | Panic p \<Rightarrow> Panic p, w))"

section \<open>Specification\<close>

text \<open>
  Metadata that the server sets is left out of the comparison; the gateways are those of one
  GatewayDNS, announced in one namespace, and a gateway without a service is unreachable.
\<close>

definition strip :: "EndpointSlice \<Rightarrow> EndpointSlice" where
  "strip e = e\<lparr>es_OtherMeta := []\<rparr>"

definition stripped :: "(NamespacedName \<rightharpoonup> EndpointSlice) \<Rightarrow> (NamespacedName \<rightharpoonup> EndpointSlice)" where
  "stripped m = (\<lambda>k. map_option strip (m k))"

definition gateways_ok :: "string \<Rightarrow> NamespacedName \<Rightarrow> ClusterGateway list \<Rightarrow> bool" where
  "gateways_ok ns gw gws \<longleftrightarrow> (\<forall>cg\<in>set gws. cg_ControllerNamespace cg = ns \<and>
     cg_GatewayDNSNamespacedName cg = gw \<and> (\<not> cg_Unreachable cg \<longrightarrow> cg_Gateway cg \<noteq> None))"

text \<open>
  What a cluster's slices become. In the controller's namespace: the slice of a reachable
  gateway is there and announces it, keeping what else a slice of that name had; the slice of
  an unreachable gateway stays as it is; every other slice of the GatewayDNS is gone. All
  other slices stay.
\<close>

definition converge_spec ::
    "kube_lib \<Rightarrow> string \<Rightarrow> NamespacedName \<Rightarrow> ClusterGateway list \<Rightarrow> (NamespacedName \<rightharpoonup> EndpointSlice)
      \<Rightarrow> (NamespacedName \<rightharpoonup> EndpointSlice)" where
  "converge_spec K ns gw gws m = (\<lambda>k.
     if Namespace k \<noteq> ns then m k
     else case find (\<lambda>cg. endpointSliceName cg = Name k) (rev gws) of
       None \<Rightarrow> (case m k of None \<Rightarrow> None | Some e \<Rightarrow> if ownedBy K gw e then None else Some e)
     | Some cg \<Rightarrow>
         if cg_Unreachable cg then m k
         else (case ToEndpointSlice K cg of
             Ok d \<Rightarrow> Some (case m k of None \<Rightarrow> d | Some e \<Rightarrow> merge d e)
           | Err e \<Rightarrow> m k
           | Panic p \<Rightarrow> m k))"

lemma stripped_None [simp]: "stripped m k = None \<longleftrightarrow> m k = None"
  by (simp add: stripped_def)

lemma ownedBy_iff:
  "ownedBy K gw e \<longleftrightarrow> smLookup (es_Annotations e) DNSHostnameAnnotation \<noteq> None
     \<and> smLookup (es_Annotations e) GatewayDNSRefAnnotation = Some (nnString K gw)"
  by (auto simp: ownedBy_def split: option.splits)

lemma strip_simps [simp]:
  "es_key (strip e) = es_key e" "es_Namespace (strip e) = es_Namespace e" "es_Name (strip e) = es_Name e"
  "ownedBy K gw (strip e) = ownedBy K gw e" "strip (strip e) = strip e"
  "strip (e\<lparr>es_OtherMeta := mt\<rparr>) = strip e" "compareEndpointSlices d (strip e) = compareEndpointSlices d e"
  by (simp_all add: strip_def es_key_def ownedBy_iff compareEndpointSlices_def)

lemma merge_simps [simp]:
  "es_key (merge d e) = es_key e" "es_Namespace (merge d e) = es_Namespace e" "es_Name (merge d e) = es_Name e"
  "es_Ports (merge d e) = es_Ports d" "es_OtherMeta (merge d e) = es_OtherMeta e" "strip (merge d e) = merge d (strip e)"
  by (simp_all add: merge_def strip_def es_key_def Let_def)

lemma stripped_simps [simp]:
  "stripped (m(k := None)) = (stripped m)(k := None)"
  "stripped (m(k \<mapsto> e)) = (stripped m)(k \<mapsto> strip e)"
  "stripped (stripped m) = stripped m"
  by (simp_all add: stripped_def fun_eq_iff option.map_comp o_def)

lemma merge_lookup:
  "smLookup (es_Annotations (merge d e)) a =
     (if a = GatewayDNSRefAnnotation then Some (smGet (es_Annotations d) GatewayDNSRefAnnotation)
      else if a = DNSHostnameAnnotation then Some (smGet (es_Annotations d) DNSHostnameAnnotation)
      else smLookup (es_Annotations e) a)"
  by (simp add: merge_def Let_def split: option.split)

text \<open>A merged slice belongs to the GatewayDNS and is up to date; merging is idempotent.\<close>

lemma compare_merge [simp]: "compareEndpointSlices d (merge d e)"
  by (simp add: compareEndpointSlices_def merge_def Let_def smGet_def)

lemma compare_self [simp]: "compareEndpointSlices d d"
  by (simp add: compareEndpointSlices_def)

lemma desired_owned:
  assumes "ToEndpointSlice K cg = Ok d" and "cg_GatewayDNSNamespacedName cg = gw"
  shows "ownedBy K gw d" and "ownedBy K gw (merge d e)" and "strip d = d"
  using ToEndpointSlice_fields [OF assms(1)] assms(2)
  by (auto simp: ownedBy_iff merge_lookup strip_def)

lemma merge_current:
  assumes "ToEndpointSlice K cg = Ok d" and "cg_GatewayDNSNamespacedName cg = gw"
    and "ownedBy K gw e" and "compareEndpointSlices d e"
  shows "merge d e = e"
proof -
  from assms(3) obtain m where m: "es_Annotations e = Some m" "m DNSHostnameAnnotation \<noteq> None"
    "m GatewayDNSRefAnnotation = Some (nnString K gw)"
    by (auto simp: ownedBy_iff smLookup_def split: option.splits)
  moreover from this assms(4) have "m DNSHostnameAnnotation = Some (smGet (es_Annotations d) DNSHostnameAnnotation)"
    by (auto simp: compareEndpointSlices_def smGet_def)
  moreover have "smGet (es_Annotations d) GatewayDNSRefAnnotation = nnString K gw"
    using ToEndpointSlice_fields(2) [OF assms(1)] assms(2) by simp
  ultimately have "m(DNSHostnameAnnotation \<mapsto> smGet (es_Annotations d) DNSHostnameAnnotation,
      GatewayDNSRefAnnotation \<mapsto> smGet (es_Annotations d) GatewayDNSRefAnnotation) = m"
    by (metis fun_upd_triv)
  with m(1) assms(4) show ?thesis by (simp add: merge_def compareEndpointSlices_def)
qed

lemma merge_idem: "merge d (merge d e) = merge d e"
  by (simp add: merge_def Let_def fun_upd_twist)

text \<open>The specification itself is idempotent: a converged cluster is its fixed point.\<close>

lemma merge_self:
  assumes "ToEndpointSlice K cg = Ok d"
  shows "merge d d = d"
  using merge_current [OF assms refl desired_owned(1) [OF assms refl]] by simp

lemma converge_spec_idem:
  "converge_spec K ns gw gws (converge_spec K ns gw gws m) = converge_spec K ns gw gws m"
  by (rule ext)
    (auto simp: converge_spec_def merge_idem merge_self split: option.splits go_result.splits)

lemma converge_spec_stripped:
  assumes "gateways_ok ns gw gws"
  shows "converge_spec K ns gw gws (stripped m) = stripped (converge_spec K ns gw gws m)"
proof
  fix k :: NamespacedName
  have "strip d = d" if "find (\<lambda>cg. endpointSliceName cg = Name k) (rev gws) = Some cg" "ToEndpointSlice K cg = Ok d" for cg d
    using desired_owned(3) [OF that(2) refl] .
  then show "converge_spec K ns gw gws (stripped m) k = stripped (converge_spec K ns gw gws m) k"
    by (auto simp: converge_spec_def stripped_def split: option.splits go_result.splits)
qed

section \<open>What the difference contains\<close>

definition keyString :: "NamespacedName \<Rightarrow> string" where
  "keyString k = Namespace k @ ''/'' @ Name k"

definition missingOf :: "kube_lib \<Rightarrow> (string \<times> EndpointSlice) list \<Rightarrow> (string \<times> ClusterGateway) \<Rightarrow> EndpointSlice option" where
  "missingOf K existing kv =
     (if cg_Unreachable (snd kv) then None
      else case ToEndpointSlice K (snd kv) of
        Ok d \<Rightarrow> (case map_of existing (cg_EndpointSliceKey (snd kv)) of None \<Rightarrow> Some d | Some e \<Rightarrow> None)
      | Err e \<Rightarrow> None
      | Panic p \<Rightarrow> None)"

definition changedOf :: "kube_lib \<Rightarrow> (string \<times> EndpointSlice) list \<Rightarrow> (string \<times> ClusterGateway) \<Rightarrow> EndpointSlice option" where
  "changedOf K existing kv =
     (if cg_Unreachable (snd kv) then None
      else case ToEndpointSlice K (snd kv) of
        Ok d \<Rightarrow> (case map_of existing (cg_EndpointSliceKey (snd kv)) of
            None \<Rightarrow> None | Some e \<Rightarrow> if compareEndpointSlices d e then None else Some (merge d e))
      | Err e \<Rightarrow> None
      | Panic p \<Rightarrow> None)"

definition undesiredOf :: "(string \<times> ClusterGateway) list \<Rightarrow> (string \<times> EndpointSlice) \<Rightarrow> EndpointSlice option" where
  "undesiredOf desired kv =
     (case map_of desired (EndpointSliceKey (snd kv)) of None \<Rightarrow> Some (snd kv) | Some cg \<Rightarrow> None)"

lemma diffDesired_eq:
  assumes "\<forall>kv\<in>set kvs. \<not> cg_Unreachable (snd kv) \<longrightarrow> cg_Gateway (snd kv) \<noteq> None"
  shows "diffDesired K existing kvs d = Ok (d\<lparr>missing := missing d @ List.map_filter (missingOf K existing) kvs,
     changed := changed d @ List.map_filter (changedOf K existing) kvs\<rparr>)"
  using assms
proof (induction kvs arbitrary: d)
  case (Cons kv kvs)
  show ?case
  proof (cases "cg_Unreachable (snd kv)")
    case True
    with Cons show ?thesis by (simp add: List.map_filter_simps missingOf_def changedOf_def)
  next
    case False
    with Cons.prems obtain e where "ToEndpointSlice K (snd kv) = Ok e"
      using ToEndpointSlice_Ok_iff [of K "snd kv"] by auto
    with Cons False show ?thesis
      by (auto simp: List.map_filter_simps missingOf_def changedOf_def split: option.splits)
  qed
qed (simp add: List.map_filter_simps)

lemma diffExisting_eq:
  "diffExisting desired kvs d = d\<lparr>undesired := undesired d @ List.map_filter (undesiredOf desired) kvs\<rparr>"
  by (induction kvs arbitrary: d) (simp_all add: List.map_filter_simps undesiredOf_def split: option.splits)

lemma existingMap_filter:
  "existingMap K gw items = mapOfList EndpointSliceKey (filter (ownedBy K gw) items)"
proof -
  have "fold (\<lambda>e m. if ownedBy K gw e then mapPut (EndpointSliceKey e) e m else m) items m0
      = fold (\<lambda>x m. mapPut (EndpointSliceKey x) x m) (filter (ownedBy K gw) items) m0" for m0
    by (induction items arbitrary: m0) auto
  then show ?thesis by (simp add: existingMap_def mapOfList_def)
qed

lemma keyString_es_key [simp]: "keyString (es_key e) = EndpointSliceKey e"
  by (simp add: keyString_def EndpointSliceKey_def)

lemma keyString_inj: "Namespace k = Namespace k' \<Longrightarrow> keyString k = keyString k' \<Longrightarrow> k = k'"
  by (simp add: keyString_def)

text \<open>
  The items of a namespace, as a listing returns them, for the objects \<open>m\<close> of the cluster
\<close>

definition lists_namespace :: "(NamespacedName \<rightharpoonup> EndpointSlice) \<Rightarrow> string \<Rightarrow> EndpointSlice list \<Rightarrow> bool" where
  "lists_namespace m ns items \<longleftrightarrow>
     set items = {e. m (es_key e) = Some e \<and> es_Namespace e = ns} \<and> (\<forall>k e. m k = Some e \<longrightarrow> es_key e = k)"

lemma map_of_existing:
  assumes "lists_namespace m ns items" and "Namespace k = ns"
  shows "map_of (existingMap K gw items) (keyString k) =
    (case m k of None \<Rightarrow> None | Some e \<Rightarrow> if ownedBy K gw e then Some e else None)"
proof -
  let ?f = "filter (ownedBy K gw) items"
  have items: "e \<in> set ?f \<longleftrightarrow> m (es_key e) = Some e \<and> es_Namespace e = ns \<and> ownedBy K gw e" for e
    using assms(1) by (auto simp: lists_namespace_def)
  have "inj_on EndpointSliceKey (set ?f)"
  proof (rule inj_onI)
    fix x y assume "x \<in> set ?f" "y \<in> set ?f" "EndpointSliceKey x = EndpointSliceKey y"
    then have "es_key x = es_key y" and "m (es_key x) = Some x" and "m (es_key y) = Some y"
      by (simp_all only: items key_eq_iff)
    then show "x = y" by (metis option.inject)
  qed
  note look = map_of_mapOfList_inj [OF this, of "keyString k"]
  have key: "EndpointSliceKey e = keyString k \<longleftrightarrow> es_key e = k" if "es_Namespace e = ns" for e
    using that assms(2) keyString_inj [of "es_key e" k] by auto
  have eq: "map_of (existingMap K gw items) (keyString k) = Some e \<longleftrightarrow> m k = Some e \<and> ownedBy K gw e" for e
  proof -
    have "m k = Some e \<Longrightarrow> es_key e = k \<and> es_Namespace e = ns"
      using assms by (metis key_simps(3) lists_namespace_def)
    then show ?thesis unfolding existingMap_filter look items using key [of e] by auto
  qed
  show ?thesis
    by (cases "m k"; cases "map_of (existingMap K gw items) (keyString k)") (use eq in auto)
qed

lemma existing_SomeD:
  assumes "lists_namespace m ns items" and "(s, e) \<in> set (existingMap K gw items)"
  shows "s = EndpointSliceKey e" and "m (es_key e) = Some e" and "es_Namespace e = ns" and "ownedBy K gw e"
proof -
  have "map_of (existingMap K gw items) s = Some e"
    using assms(2) by (simp add: existingMap_filter)
  then have "e \<in> set (filter (ownedBy K gw) items) \<and> EndpointSliceKey e = s"
    unfolding existingMap_filter by (rule map_of_mapOfList_SomeD)
  with assms(1) show "s = EndpointSliceKey e" "m (es_key e) = Some e" "es_Namespace e = ns" "ownedBy K gw e"
    by (auto simp: lists_namespace_def)
qed

lemma map_of_desired:
  assumes "gateways_ok ns gw gws" and "Namespace k = ns"
  shows "map_of (mapOfList cg_EndpointSliceKey gws) (keyString k)
    = find (\<lambda>cg. endpointSliceName cg = Name k) (rev gws)"
proof -
  have "find (\<lambda>cg. cg_EndpointSliceKey cg = keyString k) xs = find (\<lambda>cg. endpointSliceName cg = Name k) xs"
    if "set xs \<subseteq> set gws" for xs
    using that assms
    by (induction xs) (auto simp: gateways_ok_def cg_EndpointSliceKey_def keyString_def)
  then show ?thesis by (simp add: map_of_mapOfList rev_map map_of_keyed)
qed

lemma desired_SomeD:
  assumes "gateways_ok ns gw gws" and "(s, cg) \<in> set (mapOfList cg_EndpointSliceKey gws)"
  shows "s = cg_EndpointSliceKey cg" and "cg \<in> set gws" and "cg_ControllerNamespace cg = ns"
    and "\<not> cg_Unreachable cg \<longrightarrow> cg_Gateway cg \<noteq> None" and "cg_GatewayDNSNamespacedName cg = gw"
proof -
  have "map_of (mapOfList cg_EndpointSliceKey gws) s = Some cg" using assms(2) by simp
  from map_of_mapOfList_SomeD [OF this] assms(1)
  show "s = cg_EndpointSliceKey cg" "cg \<in> set gws" "cg_ControllerNamespace cg = ns"
    "\<not> cg_Unreachable cg \<longrightarrow> cg_Gateway cg \<noteq> None" "cg_GatewayDNSNamespacedName cg = gw"
    by (auto simp: gateways_ok_def)
qed

text \<open>
  The difference for given items, with the two maps visited in the orders \<open>gs\<close> and
  \<open>ss\<close>, and what it contains in terms of the objects \<open>m\<close> of the cluster
\<close>

definition diff_of ::
    "kube_lib \<Rightarrow> NamespacedName \<Rightarrow> ClusterGateway list \<Rightarrow> EndpointSlice list \<Rightarrow> (string \<times> ClusterGateway) list
      \<Rightarrow> (string \<times> EndpointSlice) list \<Rightarrow> ClusterDiff" where
  "diff_of K gw gws items gs ss =
     \<lparr>undesired = List.map_filter (undesiredOf (mapOfList cg_EndpointSliceKey gws)) ss,
      missing = List.map_filter (missingOf K (existingMap K gw items)) gs,
      changed = List.map_filter (changedOf K (existingMap K gw items)) gs\<rparr>"

definition gateway_at :: "ClusterGateway list \<Rightarrow> string \<Rightarrow> ClusterGateway option" where
  "gateway_at gws n = find (\<lambda>cg. endpointSliceName cg = n) (rev gws)"

lemma gateway_at_SomeD:
  "gateway_at gws n = Some cg \<Longrightarrow> cg \<in> set gws \<and> endpointSliceName cg = n"
  unfolding gateway_at_def by (drule find_SomeD) simp

lemma ordered_gateway:
  assumes "gateways_ok ns gw gws" and "set gs = set (mapOfList cg_EndpointSliceKey gws)"
  shows "(s, cg) \<in> set gs \<longleftrightarrow> s = cg_EndpointSliceKey cg \<and> gateway_at gws (endpointSliceName cg) = Some cg"
proof -
  have eq: "(s, cg) \<in> set gs \<longleftrightarrow> map_of (mapOfList cg_EndpointSliceKey gws) s = Some cg"
    using assms(2) by simp
  have look: "map_of (mapOfList cg_EndpointSliceKey gws) (cg_EndpointSliceKey cg)
      = gateway_at gws (endpointSliceName cg)" if "cg_ControllerNamespace cg = ns"
    using map_of_desired [OF assms(1), of "\<lparr>Namespace = ns, Name = endpointSliceName cg\<rparr>"] that
    by (simp add: keyString_def cg_EndpointSliceKey_def gateway_at_def)
  show ?thesis
  proof
    assume "(s, cg) \<in> set gs"
    with assms desired_SomeD(1,3) [OF assms(1), of s cg] eq look
    show "s = cg_EndpointSliceKey cg \<and> gateway_at gws (endpointSliceName cg) = Some cg" by simp
  next
    assume r: "s = cg_EndpointSliceKey cg \<and> gateway_at gws (endpointSliceName cg) = Some cg"
    then have "cg \<in> set gws" using gateway_at_SomeD by blast
    with assms(1) look r eq show "(s, cg) \<in> set gs" by (simp add: gateways_ok_def)
  qed
qed

lemma desired_slice:
  assumes "gateways_ok ns gw gws" and "gateway_at gws n = Some cg" and "ToEndpointSlice K cg = Ok d"
  shows "es_key d = \<lparr>Namespace = ns, Name = n\<rparr>" and "cg_GatewayDNSNamespacedName cg = gw"
  using assms gateway_at_SomeD [OF assms(2)] ToEndpointSlice_fields(3,4) [OF assms(3)]
  by (auto simp: gateways_ok_def es_key_def)

lemma existing_at:
  assumes "lists_namespace m ns items" and "cg_ControllerNamespace cg = ns"
  shows "map_of (existingMap K gw items) (cg_EndpointSliceKey cg) =
    (case m \<lparr>Namespace = ns, Name = endpointSliceName cg\<rparr> of
       None \<Rightarrow> None | Some e \<Rightarrow> if ownedBy K gw e then Some e else None)"
  using map_of_existing [OF assms(1), of "\<lparr>Namespace = ns, Name = endpointSliceName cg\<rparr>"] assms(2)
  by (simp add: keyString_def cg_EndpointSliceKey_def)

text \<open>The slice that the gateway of name \<open>n\<close> calls for, if it is reachable\<close>

definition wanted :: "kube_lib \<Rightarrow> ClusterGateway list \<Rightarrow> string \<Rightarrow> EndpointSlice option" where
  "wanted K gws n = (case gateway_at gws n of
     None \<Rightarrow> None
   | Some cg \<Rightarrow> if cg_Unreachable cg then None
       else case ToEndpointSlice K cg of Ok d \<Rightarrow> Some d | Err e \<Rightarrow> None | Panic p \<Rightarrow> None)"

definition held :: "kube_lib \<Rightarrow> NamespacedName \<Rightarrow> (NamespacedName \<rightharpoonup> EndpointSlice) \<Rightarrow> NamespacedName \<Rightarrow> EndpointSlice option" where
  "held K gw m k = (case m k of None \<Rightarrow> None | Some e \<Rightarrow> if ownedBy K gw e then Some e else None)"

lemma wanted_SomeD:
  assumes "gateways_ok ns gw gws" and "wanted K gws n = Some d"
  obtains cg where "gateway_at gws n = Some cg" and "\<not> cg_Unreachable cg" and "ToEndpointSlice K cg = Ok d"
    and "es_key d = \<lparr>Namespace = ns, Name = n\<rparr>" and "cg_GatewayDNSNamespacedName cg = gw" and "cg \<in> set gws"
proof -
  from assms(2) obtain cg where cg: "gateway_at gws n = Some cg" "\<not> cg_Unreachable cg" "ToEndpointSlice K cg = Ok d"
    by (auto simp: wanted_def split: option.splits if_splits go_result.splits)
  from desired_slice [OF assms(1) cg(1,3)] gateway_at_SomeD [OF cg(1)] cg show thesis by (intro that) auto
qed

lemma held_at:
  assumes "lists_namespace m ns items" and "gateways_ok ns gw gws" and "gateway_at gws n = Some cg"
  shows "map_of (existingMap K gw items) (cg_EndpointSliceKey cg) = held K gw m \<lparr>Namespace = ns, Name = n\<rparr>"
proof -
  from gateway_at_SomeD [OF assms(3)] assms(2) have "cg_ControllerNamespace cg = ns" and n: "endpointSliceName cg = n"
    by (auto simp: gateways_ok_def)
  from existing_at [OF assms(1) this(1), of K gw] n show ?thesis by (simp only: held_def)
qed

lemma diff_entries:
  assumes "lists_namespace m ns items" and "gateways_ok ns gw gws" and "gateway_at gws n = Some cg"
  shows "missingOf K (existingMap K gw items) (s, cg) = Some d \<longleftrightarrow>
      wanted K gws n = Some d \<and> held K gw m \<lparr>Namespace = ns, Name = n\<rparr> = None"
    and "changedOf K (existingMap K gw items) (s, cg) = Some x \<longleftrightarrow>
      (\<exists>d e. wanted K gws n = Some d \<and> held K gw m \<lparr>Namespace = ns, Name = n\<rparr> = Some e
        \<and> \<not> compareEndpointSlices d e \<and> x = merge d e)"
  using held_at [OF assms, of K] assms(3)
  by (auto simp: missingOf_def changedOf_def wanted_def split: go_result.splits option.splits)

lemma wanted_at: "wanted K gws n = Some d \<Longrightarrow> \<exists>cg. gateway_at gws n = Some cg"
  by (auto simp: wanted_def split: option.splits)

lemma diff_sets:
  assumes items: "lists_namespace m ns items" and ok: "gateways_ok ns gw gws"
    and gs: "set gs = set (mapOfList cg_EndpointSliceKey gws)"
  shows "d \<in> set (List.map_filter (missingOf K (existingMap K gw items)) gs) \<longleftrightarrow>
      (\<exists>n. wanted K gws n = Some d \<and> held K gw m \<lparr>Namespace = ns, Name = n\<rparr> = None)" (is ?missing)
    and "x \<in> set (List.map_filter (changedOf K (existingMap K gw items)) gs) \<longleftrightarrow>
      (\<exists>n d e. wanted K gws n = Some d \<and> held K gw m \<lparr>Namespace = ns, Name = n\<rparr> = Some e
        \<and> \<not> compareEndpointSlices d e \<and> x = merge d e)" (is ?changed)
proof -
  have ex: "(\<exists>kv\<in>set gs. P kv) \<longleftrightarrow> (\<exists>n cg. gateway_at gws n = Some cg \<and> P (cg_EndpointSliceKey cg, cg))" for P
    using ordered_gateway [OF ok gs] gateway_at_SomeD by (metis surj_pair)
  show ?missing
    unfolding set_map_filter_eq mem_Collect_eq ex using diff_entries(1) [OF items ok] wanted_at by blast
  show ?changed
    unfolding set_map_filter_eq mem_Collect_eq ex using diff_entries(2) [OF items ok] wanted_at by blast
qed

definition ordered :: "('k \<times> 'v) list \<Rightarrow> ('k \<times> 'v) list \<Rightarrow> bool" where
  "ordered m kvs \<longleftrightarrow> mset kvs = mset m"

lemma orderedD:
  assumes "ordered m kvs" and "distinct (map fst m)"
  shows "set kvs = set m" and "distinct (map fst kvs)"
  using assms by (auto simp: ordered_def dest: mset_eq_setD)
    (metis mset_map mset_eq_imp_distinct_iff)

lemma distinct_existing [simp]: "distinct (map fst (existingMap K gw items))"
  by (simp add: existingMap_filter)

lemma undesired_set:
  assumes items: "lists_namespace m ns items" and ok: "gateways_ok ns gw gws"
    and ss: "set ss = set (existingMap K gw items)"
  shows "e \<in> set (List.map_filter (undesiredOf (mapOfList cg_EndpointSliceKey gws)) ss) \<longleftrightarrow>
    es_Namespace e = ns \<and> held K gw m (es_key e) = Some e \<and> gateway_at gws (es_Name e) = None"
proof -
  have look: "map_of (mapOfList cg_EndpointSliceKey gws) (EndpointSliceKey e) = gateway_at gws (es_Name e)"
    if "es_Namespace e = ns" for e
    using map_of_desired [OF ok, of "es_key e"] that by (simp add: gateway_at_def)
  have mem: "(s, e) \<in> set ss \<longleftrightarrow> map_of (existingMap K gw items) s = Some e" for s e
    unfolding ss by (simp add: existingMap_filter)
  have at: "map_of (existingMap K gw items) (EndpointSliceKey e) = held K gw m (es_key e)" if "es_Namespace e = ns" for e
    using map_of_existing [OF items, of "es_key e" K gw] that by (simp add: held_def)
  have "(s, e) \<in> set ss \<longleftrightarrow> s = EndpointSliceKey e \<and> es_Namespace e = ns \<and> held K gw m (es_key e) = Some e" for s e
  proof
    assume r: "(s, e) \<in> set ss"
    then have "s = EndpointSliceKey e" and "es_Namespace e = ns"
      using existing_SomeD(1,3) [OF items, of s e K gw] ss by blast+
    with r mem at show "s = EndpointSliceKey e \<and> es_Namespace e = ns \<and> held K gw m (es_key e) = Some e" by simp
  next
    assume "s = EndpointSliceKey e \<and> es_Namespace e = ns \<and> held K gw m (es_key e) = Some e"
    then show "(s, e) \<in> set ss" unfolding mem using at [of e] by simp
  qed
  then have ss': "(\<exists>kv\<in>set ss. P kv) \<longleftrightarrow>
      (\<exists>e. es_Namespace e = ns \<and> held K gw m (es_key e) = Some e \<and> P (EndpointSliceKey e, e))" for P
    by (metis surj_pair)
  have "undesiredOf (mapOfList cg_EndpointSliceKey gws) (EndpointSliceKey e', e') = Some e \<longleftrightarrow>
      e = e' \<and> gateway_at gws (es_Name e') = None" if "es_Namespace e' = ns" for e'
    unfolding undesiredOf_def snd_conv look [OF that] by (auto split: option.split)
  then show ?thesis unfolding set_map_filter_eq mem_Collect_eq ss' by blast
qed

lemma diff_keys_distinct:
  assumes items: "lists_namespace m ns items" and ok: "gateways_ok ns gw gws"
    and gs: "ordered (mapOfList cg_EndpointSliceKey gws) gs" and ss: "ordered (existingMap K gw items) ss"
  shows "distinct (map es_key (missing (diff_of K gw gws items gs ss)))"
    and "distinct (map es_key (changed (diff_of K gw gws items gs ss)))"
    and "distinct (map es_key (undesired (diff_of K gw gws items gs ss)))"
proof -
  note gs' = orderedD [OF gs distinct_mapOfList] and ss' = orderedD [OF ss distinct_existing]
  have key: "fst kv = cg_EndpointSliceKey (snd kv)" if "kv \<in> set gs" for kv
    using desired_SomeD(1) [OF ok, of "fst kv" "snd kv"] that gs'(1) by simp
  show "distinct (map es_key (missing (diff_of K gw gws items gs ss)))"
    unfolding diff_of_def ClusterDiff.simps
  proof (rule distinct_map_filter [where h = keyString, OF gs'(2)])
    fix kv y assume "kv \<in> set gs" and "missingOf K (existingMap K gw items) kv = Some y"
    then show "keyString (es_key y) = fst kv"
      using key [of kv] by (auto simp: missingOf_def ToEndpointSlice_key split: if_splits go_result.splits option.splits)
  qed
  show "distinct (map es_key (changed (diff_of K gw gws items gs ss)))"
    unfolding diff_of_def ClusterDiff.simps
  proof (rule distinct_map_filter [where h = keyString, OF gs'(2)])
    fix kv y assume kv: "kv \<in> set gs" and "changedOf K (existingMap K gw items) kv = Some y"
    then obtain d e where y: "y = merge d e" and "map_of (existingMap K gw items) (cg_EndpointSliceKey (snd kv)) = Some e"
      by (auto simp: changedOf_def split: if_splits go_result.splits option.splits)
    then have "EndpointSliceKey e = cg_EndpointSliceKey (snd kv)"
      using existing_SomeD(1) [OF items] map_of_SomeD by fastforce
    with y key [OF kv] show "keyString (es_key y) = fst kv" by simp
  qed
  show "distinct (map es_key (undesired (diff_of K gw gws items gs ss)))"
    unfolding diff_of_def ClusterDiff.simps
  proof (rule distinct_map_filter [where h = keyString, OF ss'(2)])
    fix kv y assume "kv \<in> set ss" and "undesiredOf (mapOfList cg_EndpointSliceKey gws) kv = Some y"
    then show "keyString (es_key y) = fst kv"
      using existing_SomeD(1) [OF items, of "fst kv" "snd kv"] ss'(1) by (auto simp: undesiredOf_def split: option.splits)
  qed
qed

text \<open>The effect of the three loops of \<open>convergeCluster\<close> on the stripped objects\<close>

definition createdAs :: "EndpointSlice \<Rightarrow> EndpointSlice option \<Rightarrow> EndpointSlice option" where
  "createdAs d old = Some (case old of None \<Rightarrow> d | Some e \<Rightarrow> merge d e)"

definition applied :: "ClusterDiff \<Rightarrow> (NamespacedName \<rightharpoonup> EndpointSlice) \<Rightarrow> (NamespacedName \<rightharpoonup> EndpointSlice)" where
  "applied D m =
     fold (updAt es_key (\<lambda>_ _. None)) (undesired D)
       (fold (updAt es_key (\<lambda>e _. Some (strip e))) (changed D)
         (fold (updAt es_key createdAs) (missing D) m))"

lemma converge_spec_alt:
  "converge_spec K ns gw gws m k =
     (if Namespace k \<noteq> ns then m k
      else case wanted K gws (Name k) of
        Some d \<Rightarrow> createdAs d (m k)
      | None \<Rightarrow> if gateway_at gws (Name k) = None \<and> held K gw m k \<noteq> None then None else m k)"
  by (simp add: converge_spec_def wanted_def held_def gateway_at_def createdAs_def split: option.splits go_result.splits)

lemma held_stripped [simp]: "held K gw (stripped m) k = map_option strip (held K gw m k)"
  by (simp add: held_def stripped_def split: option.splits)

lemma diff_members:
  assumes items: "lists_namespace m ns items" and ok: "gateways_ok ns gw gws"
    and gs: "ordered (mapOfList cg_EndpointSliceKey gws) gs" and ss: "ordered (existingMap K gw items) ss"
  shows "d \<in> set (missing (diff_of K gw gws items gs ss)) \<longleftrightarrow>
      (\<exists>n. wanted K gws n = Some d \<and> held K gw m \<lparr>Namespace = ns, Name = n\<rparr> = None)"
    and "x \<in> set (changed (diff_of K gw gws items gs ss)) \<longleftrightarrow>
      (\<exists>n d e. wanted K gws n = Some d \<and> held K gw m \<lparr>Namespace = ns, Name = n\<rparr> = Some e
        \<and> \<not> compareEndpointSlices d e \<and> x = merge d e)"
    and "e \<in> set (undesired (diff_of K gw gws items gs ss)) \<longleftrightarrow>
      es_Namespace e = ns \<and> held K gw m (es_key e) = Some e \<and> gateway_at gws (es_Name e) = None"
  using diff_sets [OF items ok orderedD(1) [OF gs distinct_mapOfList]]
    undesired_set [OF items ok orderedD(1) [OF ss distinct_existing]]
  by (simp_all add: diff_of_def)

lemma held_key: "lists_namespace m ns items \<Longrightarrow> held K gw m k = Some e \<Longrightarrow> es_key e = k"
  by (auto simp: held_def lists_namespace_def split: option.splits if_splits)

lemma wanted_key: "gateways_ok ns gw gws \<Longrightarrow> wanted K gws n = Some d \<Longrightarrow> es_key d = \<lparr>Namespace = ns, Name = n\<rparr>"
  by (erule (1) wanted_SomeD)

lemma diff_keys:
  assumes items: "lists_namespace m ns items" and ok: "gateways_ok ns gw gws"
    and gs: "ordered (mapOfList cg_EndpointSliceKey gws) gs" and ss: "ordered (existingMap K gw items) ss"
  shows "k \<in> es_key ` set (missing (diff_of K gw gws items gs ss)) \<Longrightarrow>
      Namespace k = ns \<and> held K gw m k = None \<and> wanted K gws (Name k) \<noteq> None"
    and "k \<in> es_key ` set (changed (diff_of K gw gws items gs ss)) \<Longrightarrow> Namespace k = ns \<and>
      (\<exists>d e. held K gw m k = Some e \<and> wanted K gws (Name k) = Some d \<and> \<not> compareEndpointSlices d e)"
    and "k \<in> es_key ` set (undesired (diff_of K gw gws items gs ss)) \<Longrightarrow>
      Namespace k = ns \<and> held K gw m k \<noteq> None \<and> gateway_at gws (Name k) = None"
proof -
  note mem = diff_members [OF assms]
  {
    assume "k \<in> es_key ` set (missing (diff_of K gw gws items gs ss))"
    then obtain d n where d: "k = es_key d" "wanted K gws n = Some d" "held K gw m \<lparr>Namespace = ns, Name = n\<rparr> = None"
      by (auto simp only: mem)
    then have "k = \<lparr>Namespace = ns, Name = n\<rparr>" using wanted_key [OF ok] by (simp only:)
    with d(2,3) show "Namespace k = ns \<and> held K gw m k = None \<and> wanted K gws (Name k) \<noteq> None" by simp
  next
    assume "k \<in> es_key ` set (changed (diff_of K gw gws items gs ss))"
    then obtain y where "y \<in> set (changed (diff_of K gw gws items gs ss))" and y: "k = es_key y" by blast
    then obtain n d e where x: "y = merge d e" "wanted K gws n = Some d"
      "held K gw m \<lparr>Namespace = ns, Name = n\<rparr> = Some e" "\<not> compareEndpointSlices d e"
      unfolding mem by blast
    then have "k = \<lparr>Namespace = ns, Name = n\<rparr>" using held_key [OF items x(3)] y by (simp only: merge_simps)
    with x(2-4) show "Namespace k = ns \<and>
      (\<exists>d e. held K gw m k = Some e \<and> wanted K gws (Name k) = Some d \<and> \<not> compareEndpointSlices d e)" by simp
  next
    assume "k \<in> es_key ` set (undesired (diff_of K gw gws items gs ss))"
    then show "Namespace k = ns \<and> held K gw m k \<noteq> None \<and> gateway_at gws (Name k) = None" by (auto simp: mem)
  }
qed

lemma applied_unwanted:
  assumes items: "lists_namespace m ns items" and ok: "gateways_ok ns gw gws"
    and gs: "ordered (mapOfList cg_EndpointSliceKey gws) gs" and ss: "ordered (existingMap K gw items) ss"
    and k: "Namespace k = ns" and none: "wanted K gws (Name k) = None"
  shows "applied (diff_of K gw gws items gs ss) (stripped m) k = converge_spec K ns gw gws (stripped m) k"
proof -
  let ?D = "diff_of K gw gws items gs ss"
  note mem = diff_members [OF items ok gs ss] and keys = diff_keys [OF items ok gs ss, of k]
  have out: "k \<notin> es_key ` set (missing ?D)" "k \<notin> es_key ` set (changed ?D)"
    using keys(1,2) none by (metis option.distinct(1))+
  show ?thesis
  proof (cases "gateway_at gws (Name k) = None \<and> held K gw m k \<noteq> None")
    case gone: True
    then obtain e where "held K gw m k = Some e" by blast
    with held_key [OF items this] k gone have "e \<in> set (undesired ?D)" and "es_key e = k" by (auto simp: mem)
    with fold_upd_in [OF diff_keys_distinct(3) [OF items ok gs ss] this(1)] k none gone show ?thesis
      by (simp add: applied_def converge_spec_alt)
  next
    case False
    with keys(3) have "k \<notin> es_key ` set (undesired ?D)" by blast
    with out k none False show ?thesis by (auto simp: applied_def fold_upd_out converge_spec_alt)
  qed
qed

lemma applied_missing:
  assumes items: "lists_namespace m ns items" and ok: "gateways_ok ns gw gws"
    and gs: "ordered (mapOfList cg_EndpointSliceKey gws) gs" and ss: "ordered (existingMap K gw items) ss"
    and k: "Namespace k = ns" and d: "wanted K gws (Name k) = Some d" and none: "held K gw m k = None"
  shows "applied (diff_of K gw gws items gs ss) (stripped m) k = converge_spec K ns gw gws (stripped m) k"
proof -
  let ?D = "diff_of K gw gws items gs ss"
  note mem = diff_members [OF items ok gs ss] and keys = diff_keys [OF items ok gs ss, of k]
  from k have key: "\<lparr>Namespace = ns, Name = Name k\<rparr> = k" by simp
  have "k \<notin> es_key ` set (undesired ?D)" using keys(3) wanted_at [OF d] by (metis option.distinct(1))
  moreover have "k \<notin> es_key ` set (changed ?D)" using keys(2) none by (metis option.distinct(1))
  moreover have "d \<in> set (missing ?D)" using none d key by (auto simp: mem)
  from fold_upd_in [OF diff_keys_distinct(1) [OF items ok gs ss] this] wanted_key [OF ok d] key
  have "fold (updAt es_key createdAs) (missing ?D) (stripped m) k = createdAs d (stripped m k)" by simp
  ultimately show ?thesis using k d by (simp add: applied_def fold_upd_out converge_spec_alt)
qed

lemma applied_held:
  assumes items: "lists_namespace m ns items" and ok: "gateways_ok ns gw gws"
    and gs: "ordered (mapOfList cg_EndpointSliceKey gws) gs" and ss: "ordered (existingMap K gw items) ss"
    and k: "Namespace k = ns" and d: "wanted K gws (Name k) = Some d" and held: "held K gw m k = Some e"
  shows "applied (diff_of K gw gws items gs ss) (stripped m) k = converge_spec K ns gw gws (stripped m) k"
proof -
  let ?D = "diff_of K gw gws items gs ss"
  note mem = diff_members [OF items ok gs ss] and keys = diff_keys [OF items ok gs ss, of k]
  have und: "k \<notin> es_key ` set (undesired ?D)" using keys(3) wanted_at [OF d] by (metis option.distinct(1))
  have mis: "k \<notin> es_key ` set (missing ?D)" using keys(1) held by (metis option.distinct(1))
  have st: "stripped m k = Some (strip e)" and own: "ownedBy K gw (strip e)"
    using held by (auto simp: held_def stripped_def split: option.splits if_splits)
  obtain cg where cg: "ToEndpointSlice K cg = Ok d" "cg_GatewayDNSNamespacedName cg = gw"
    using wanted_SomeD [OF ok d] by blast
  show ?thesis
  proof (cases "compareEndpointSlices d e")
    case same: True
    with keys(2) d held have "k \<notin> es_key ` set (changed ?D)" by (metis option.inject)
    moreover have "merge d (strip e) = strip e" using merge_current [OF cg own] same by simp
    ultimately show ?thesis using und mis k d st
      by (simp add: applied_def fold_upd_out converge_spec_alt createdAs_def)
  next
    case False
    from k have "\<lparr>Namespace = ns, Name = Name k\<rparr> = k" by simp
    then have "held K gw m \<lparr>Namespace = ns, Name = Name k\<rparr> = Some e" using held by (simp only:)
    with d False have "merge d e \<in> set (changed ?D)" unfolding mem by blast
    from fold_upd_in [OF diff_keys_distinct(2) [OF items ok gs ss] this] held_key [OF items held]
    have "fold (updAt es_key (\<lambda>e _. Some (strip e))) (changed ?D) m' k = Some (merge d (strip e))" for m'
      by (metis merge_simps(1,6))
    then show ?thesis using und k d st
      by (simp add: applied_def fold_upd_out converge_spec_alt createdAs_def)
  qed
qed

lemma applied_diff:
  assumes items: "lists_namespace m ns items" and ok: "gateways_ok ns gw gws"
    and gs: "ordered (mapOfList cg_EndpointSliceKey gws) gs" and ss: "ordered (existingMap K gw items) ss"
  shows "applied (diff_of K gw gws items gs ss) (stripped m) = converge_spec K ns gw gws (stripped m)"
proof
  fix k :: NamespacedName
  let ?D = "diff_of K gw gws items gs ss"
  show "applied ?D (stripped m) k = converge_spec K ns gw gws (stripped m) k"
  proof (cases "Namespace k = ns")
    case False
    with diff_keys [OF assms, of k]
    have "k \<notin> es_key ` set (missing ?D)" "k \<notin> es_key ` set (changed ?D)" "k \<notin> es_key ` set (undesired ?D)" by blast+
    with False show ?thesis by (simp add: applied_def fold_upd_out converge_spec_alt)
  next
    case True
    then show ?thesis
      using applied_unwanted [OF assms True] applied_missing [OF assms True] applied_held [OF assms True]
      by (cases "wanted K gws (Name k)"; cases "held K gw m k") blast+
  qed
qed

end
