(* ===== verification/EndpointSlice_Convergence.thy ===== *)
theory EndpointSlice_Convergence
  imports EndpointSlice_Diff
begin

text \<open>
  Bringing the EndpointSlices of the workload clusters to the state that the gateways of a
  GatewayDNS call for (\<open>convergeCluster\<close> and \<open>ConvergeToClusters\<close> of
  \<open>pkg/controllers/gatewaydns/endpoint_slice_reconciler.go\<close>). A run that returns no error
  ends in the state of \<open>converge_spec\<close>, whatever the other clusters do; running again
  writes nothing; on a server that accepts valid requests the run cannot fail.
\<close>

section \<open>Converging\<close>

text \<open>The body of the first loop of \<open>convergeCluster\<close>\<close>

definition createOrMerge :: "('h, 'w) cluster_api \<Rightarrow> 'h \<Rightarrow> EndpointSlice \<Rightarrow> ('w, unit) io" where
  "createOrMerge A clusterClient endpointSlice =
     io_handle (createSlice A clusterClient endpointSlice)
       (\<lambda>_. io_return ())
       (\<lambda>err. if IsAlreadyExists err then
            io_bind (getSlice A clusterClient \<lparr>Namespace = es_Namespace endpointSlice, Name = es_Name endpointSlice\<rparr>)
              (\<lambda>existingEndpointSlice. updateSlice A clusterClient (merge endpointSlice existingEndpointSlice))
          else io_err err)"

definition convergeCluster ::
    "kube_lib \<Rightarrow> 'w map_order \<Rightarrow> ('h, 'w) cluster_api \<Rightarrow> string \<Rightarrow> NamespacedName \<Rightarrow> 'h \<Rightarrow> ClusterGateway list
      \<Rightarrow> ('w, unit) io" where
  "convergeCluster K R A ns gatewayDNS clusterClient desiredClusterGateways =
     io_bind (diffCluster K R A ns gatewayDNS clusterClient desiredClusterGateways) (\<lambda>clusterDiff.
       io_bind (io_each (createOrMerge A clusterClient) (missing clusterDiff)) (\<lambda>_.
         io_bind (io_each (updateSlice A clusterClient) (changed clusterDiff)) (\<lambda>_.
           io_each (deleteSlice A clusterClient) (undesired clusterDiff))))"

text \<open>The body of the loop of \<open>ConvergeToClusters\<close>: the error it appends, if any\<close>

definition convergeOne ::
    "kube_lib \<Rightarrow> 'w map_order \<Rightarrow> ('h, 'w) cluster_api \<Rightarrow> string \<Rightarrow> NamespacedName \<Rightarrow> ClusterGateway list \<Rightarrow> Cluster
      \<Rightarrow> ('w, go_error list) io" where
  "convergeOne K R A ns gatewayDNS desiredClusterGateways cluster =
     io_handle (GetClient A \<lparr>Namespace = cl_Namespace cluster, Name = cl_Name cluster\<rparr>)
       (\<lambda>clusterClient.
          io_handle (getNamespace A clusterClient ns)
            (\<lambda>_. io_handle (convergeCluster K R A ns gatewayDNS clusterClient desiredClusterGateways)
               (\<lambda>_. io_return [])
               (\<lambda>err. io_return [err]))
            (\<lambda>err. if IsNotFound err then io_return [] else io_return [err]))
       (\<lambda>err. io_return [err])"

primrec ConvergeToClusters ::
    "kube_lib \<Rightarrow> 'w map_order \<Rightarrow> ('h, 'w) cluster_api \<Rightarrow> string \<Rightarrow> Cluster list \<Rightarrow> NamespacedName \<Rightarrow> ClusterGateway list
      \<Rightarrow> ('w, go_error list) io" where
  "ConvergeToClusters K R A ns [] gatewayDNS desired = io_return []"
| "ConvergeToClusters K R A ns (cluster # cs) gatewayDNS desired =
     io_bind (convergeOne K R A ns gatewayDNS desired cluster) (\<lambda>errs.
       io_bind (ConvergeToClusters K R A ns cs gatewayDNS desired) (\<lambda>errs'. io_return (errs @ errs')))"

section \<open>Runs against the API\<close>

locale map_ranges =
  fixes R :: "'w map_order"
  assumes range_gateways: "mset (rangeGateways R w gm) = mset gm"
    and range_slices: "mset (rangeSlices R w sm) = mset sm"

locale converger = cluster_world A V cluster_of + map_ranges R
  for A :: "('h, 'w) cluster_api" and V :: "'w cluster_view" and cluster_of :: "'h \<Rightarrow> NamespacedName"
    and R :: "'w map_order"
begin

lemma createOrMerge_ok:
  assumes "createOrMerge A h d w = (Ok (), w')" and "es_Ports d = None" and "strip d = d"
  shows "stripped (objs V w' (cluster_of h)) = updAt es_key createdAs d (stripped (objs V w (cluster_of h)))"
  using assms(1) unfolding createOrMerge_def
proof (cases rule: io_handle_cases)
  case (Ok u w1)
  then obtain mt where "objs V w (cluster_of h) (es_key d) = None"
    and "objs V w' (cluster_of h) = (objs V w (cluster_of h))(es_key d \<mapsto> d\<lparr>es_OtherMeta := mt\<rparr>)"
    using create_ok [OF Ok(1) assms(2)] by auto
  then show ?thesis using assms(3) by (simp add: updAt_def createdAs_def) (simp add: stripped_def)
next
  case (Err er w1)
  then have er: "er = AlreadyExists" by (auto split: if_splits)
  with Err obtain e w2 where get: "getSlice A h (es_key d) w1 = (Ok e, w2)" and upd: "updateSlice A h (merge d e) w2 = (Ok (), w')"
    by (auto simp: es_key_def elim!: io_bind_OkE)
  have objs: "objs V w1 = objs V w" "objs V w2 = objs V w1"
    using create_exists [of h d w w1] Err er get_keeps [OF get] by (simp_all add: same_objects_def)
  have e: "objs V w (cluster_of h) (es_key d) = Some e" using get_ok [OF get] objs by simp
  obtain mt where "objs V w' (cluster_of h) = (objs V w (cluster_of h))(es_key d \<mapsto> (merge d e)\<lparr>es_OtherMeta := mt\<rparr>)"
    using update_ok [OF upd] assms(2) objs objs_key [OF e] by auto
  then show ?thesis using e by (simp add: updAt_def createdAs_def) (simp add: stripped_def)
qed simp

lemma update_upd:
  assumes "updateSlice A h e w = (Ok (), w')" and "es_Ports e = None"
  shows "stripped (objs V w' (cluster_of h)) = updAt es_key (\<lambda>e _. Some (strip e)) e (stripped (objs V w (cluster_of h)))"
  using update_ok [OF assms] by (auto simp: updAt_def)

lemma delete_upd:
  assumes "deleteSlice A h e w = (Ok (), w')"
  shows "stripped (objs V w' (cluster_of h)) = updAt es_key (\<lambda>_ _. None) e (stripped (objs V w (cluster_of h)))"
  using delete_ok [OF assms] by (simp add: updAt_def)

lemma createOrMerge_frame: "io_keeps (only_slices V (cluster_of h)) (createOrMerge A h d)"
  unfolding createOrMerge_def
  by (intro io_keeps_handle io_keeps_bind transp_only_slices)
    (auto intro: io_keepsI create_frame update_frame same_imp_only keeps split: if_split intro!: io_keeps_bind)

lemma listing: "listSlices A h ns w = (Ok items, w1) \<Longrightarrow> lists_namespace (objs V w (cluster_of h)) ns items"
  unfolding lists_namespace_def using list_ok objs_key by blast

lemma diffCluster_run:
  assumes run: "diffCluster K R A ns gw h gws w = (r, w1)" and ok: "gateways_ok ns gw gws"
  shows "same_objects V w w1"
    and "(\<exists>err. r = Err err \<and> listSlices A h ns w = (Err err, w1)) \<or>
      (\<exists>items. listSlices A h ns w = (Ok items, w1) \<and>
        r = Ok (diff_of K gw gws items (rangeGateways R w1 (mapOfList cg_EndpointSliceKey gws))
            (rangeSlices R w1 (existingMap K gw items))))"
proof -
  obtain rl w2 where l: "listSlices A h ns w = (rl, w2)" by fastforce
  have reach: "\<forall>kv\<in>set (rangeGateways R w (mapOfList cg_EndpointSliceKey gws)).
      \<not> cg_Unreachable (snd kv) \<longrightarrow> cg_Gateway (snd kv) \<noteq> None" for w
    using desired_SomeD(4) [OF ok] mset_eq_setD [OF range_gateways] by (metis prod.collapse)
  have "w1 = w2 \<and> ((\<exists>err. r = Err err \<and> rl = Err err) \<or> (\<exists>items. rl = Ok items \<and>
      r = Ok (diff_of K gw gws items (rangeGateways R w1 (mapOfList cg_EndpointSliceKey gws))
            (rangeSlices R w1 (existingMap K gw items)))))"
  proof (cases rl)
    case (Ok items)
    with run l show ?thesis
      by (auto simp: diffCluster_def diffDesired_eq [OF reach] diffExisting_eq diff_of_def Let_def)
  next
    case (Err err)
    with run l show ?thesis by (simp add: diffCluster_def)
  next
    case (Panic p)
    with l list_returns show ?thesis by blast
  qed
  with l list_keeps [OF l] show "same_objects V w w1"
    and "(\<exists>err. r = Err err \<and> listSlices A h ns w = (Err err, w1)) \<or>
      (\<exists>items. listSlices A h ns w = (Ok items, w1) \<and>
        r = Ok (diff_of K gw gws items (rangeGateways R w1 (mapOfList cg_EndpointSliceKey gws))
            (rangeSlices R w1 (existingMap K gw items))))"
    by auto
qed

end

lemma diff_writable:
  assumes items: "lists_namespace m ns items" and ok: "gateways_ok ns gw gws"
    and gs: "ordered (mapOfList cg_EndpointSliceKey gws) gs" and ss: "ordered (existingMap K gw items) ss"
  shows "d \<in> set (missing (diff_of K gw gws items gs ss)) \<Longrightarrow> es_Ports d = None \<and> strip d = d"
    and "x \<in> set (changed (diff_of K gw gws items gs ss)) \<Longrightarrow> es_Ports x = None"
proof -
  have "es_Ports d = None \<and> strip d = d" if "wanted K gws n = Some d" for d n
    using wanted_SomeD [OF ok that] ToEndpointSlice_fields(6) desired_owned(3) by metis
  then show "d \<in> set (missing (diff_of K gw gws items gs ss)) \<Longrightarrow> es_Ports d = None \<and> strip d = d"
    and "x \<in> set (changed (diff_of K gw gws items gs ss)) \<Longrightarrow> es_Ports x = None"
    by (auto simp: diff_members [OF assms])
qed

context converger
begin

lemma convergeCluster_frame:
  assumes "gateways_ok ns gw gws"
  shows "io_keeps (only_slices V (cluster_of h)) (convergeCluster K R A ns gw h gws)"
proof -
  have "io_keeps (only_slices V (cluster_of h)) (diffCluster K R A ns gw h gws)"
    by (rule io_keepsI, rule same_imp_only, erule diffCluster_run(1) [OF _ assms])
  then show ?thesis unfolding convergeCluster_def
    by (intro io_keeps_bind io_keeps_each createOrMerge_frame transp_only_slices reflp_only_slices)
      (auto intro: io_keepsI update_frame delete_frame)
qed

text \<open>A run without an error ends in the specified state.\<close>

lemma convergeCluster_ok:
  assumes run: "convergeCluster K R A ns gw h gws w = (Ok (), w')" and ok: "gateways_ok ns gw gws"
  shows "stripped (objs V w' (cluster_of h)) = converge_spec K ns gw gws (stripped (objs V w (cluster_of h)))"
proof -
  from run obtain D w1 w2 w3 where d: "diffCluster K R A ns gw h gws w = (Ok D, w1)"
    and mis: "io_each (createOrMerge A h) (missing D) w1 = (Ok (), w2)"
    and chg: "io_each (updateSlice A h) (changed D) w2 = (Ok (), w3)"
    and und: "io_each (deleteSlice A h) (undesired D) w3 = (Ok (), w')"
    by (auto simp: convergeCluster_def elim!: io_bind_OkE)
  define gs where "gs = rangeGateways R w1 (mapOfList cg_EndpointSliceKey gws)"
  from diffCluster_run(2) [OF d ok] obtain items where l: "listSlices A h ns w = (Ok items, w1)"
    and D: "D = diff_of K gw gws items gs (rangeSlices R w1 (existingMap K gw items))"
    by (auto simp: gs_def)
  note ord = range_gateways [of w1 "mapOfList cg_EndpointSliceKey gws", folded gs_def ordered_def]
    range_slices [of w1 "existingMap K gw items", folded ordered_def]
  note writable = diff_writable [OF listing [OF l] ok ord, folded D]
  let ?s = "\<lambda>w. stripped (objs V w (cluster_of h))"
  have "?s w1 = ?s w" using diffCluster_run(1) [OF d ok] by (simp add: same_objects_def)
  moreover have "?s w2 = fold (updAt es_key createdAs) (missing D) (?s w1)"
    using mis writable(1) by (intro io_each_fold [where \<alpha> = ?s]) (auto intro: createOrMerge_ok)
  moreover have "?s w3 = fold (updAt es_key (\<lambda>e _. Some (strip e))) (changed D) (?s w2)"
    using chg writable(2) by (intro io_each_fold [where \<alpha> = ?s]) (auto intro: update_upd)
  moreover have "?s w' = fold (updAt es_key (\<lambda>_ _. None)) (undesired D) (?s w3)"
    using und by (intro io_each_fold [where \<alpha> = ?s]) (auto intro: delete_upd)
  ultimately have "?s w' = applied D (?s w)" by (simp add: applied_def)
  also have "\<dots> = converge_spec K ns gw gws (?s w)"
    unfolding D by (rule applied_diff [OF listing [OF l] ok ord])
  finally show ?thesis .
qed

lemma createOrMerge_returns: "createOrMerge A h d w \<noteq> (Panic p, w')"
  by (auto simp: createOrMerge_def io_handle_def io_bind_def io_return_def io_err_def returns
      split: prod.splits go_result.splits if_splits)

lemma convergeCluster_returns:
  assumes ok: "gateways_ok ns gw gws"
  shows "convergeCluster K R A ns gw h gws w \<noteq> (Panic p, w')"
proof
  assume run: "convergeCluster K R A ns gw h gws w = (Panic p, w')"
  obtain rd w1 where d: "diffCluster K R A ns gw h gws w = (rd, w1)" by fastforce
  with diffCluster_run(2) [OF d ok] run obtain D where D: "rd = Ok D" by (auto simp: convergeCluster_def)
  obtain r2 w2 where m: "io_each (createOrMerge A h) (missing D) w1 = (r2, w2)" by fastforce
  obtain r3 w3 where c: "io_each (updateSlice A h) (changed D) w2 = (r3, w3)" by fastforce
  have "r2 \<noteq> Panic q" "r3 \<noteq> Panic q" "io_each (deleteSlice A h) (undesired D) w3 \<noteq> (Panic q, w')" for q
    using io_each_no_panic [of _ "createOrMerge A h"] io_each_no_panic [of _ "updateSlice A h"]
      io_each_no_panic [of _ "deleteSlice A h"] createOrMerge_returns returns m c by metis+
  with run d D m c show False by (cases r2; cases r3) (auto simp: convergeCluster_def)
qed

end

section \<open>All clusters of a GatewayDNS\<close>

text \<open>
  A cluster for which no error is recorded: it is as specified, or it lacks the controller's
  namespace and has been left alone.
\<close>

definition converged ::
    "'w cluster_view \<Rightarrow> kube_lib \<Rightarrow> string \<Rightarrow> NamespacedName \<Rightarrow> ClusterGateway list \<Rightarrow> NamespacedName \<Rightarrow> 'w \<Rightarrow> 'w \<Rightarrow> bool" where
  "converged V K ns gw gws c w w' \<longleftrightarrow>
     (if ns \<in> nss V w c then stripped (objs V w' c) = converge_spec K ns gw gws (stripped (objs V w c))
      else objs V w' c = objs V w c)"

lemma converged_transfer:
  assumes "converged V K ns gw gws c w1 w2" and "objs V w1 c = objs V w c" and "nss V w1 = nss V w"
    and "objs V w' c = objs V w2 c"
  shows "converged V K ns gw gws c w w'"
  using assms by (simp add: converged_def)

context converger
begin

lemma convergeOne_spec:
  assumes run: "convergeOne K R A ns gw gws c w = (r, w')" and ok: "gateways_ok ns gw gws"
  shows "only_slices V (cl_key c) w w' \<and>
    ((\<exists>err. r = Ok [err]) \<or> r = Ok [] \<and> converged V K ns gw gws (cl_key c) w w')"
  using run unfolding convergeOne_def cl_key_literal
proof (cases rule: io_handle_cases)
  case (Ok h w1)
  have h: "cluster_of h = cl_key c" by (rule client_ok [OF Ok(1)])
  have s1: "same_objects V w w1" by (rule client_keeps [OF Ok(1)])
  from Ok(2) show ?thesis
  proof (cases rule: io_handle_cases)
    case n: (Ok u w2)
    have s2: "same_objects V w w2" by (rule same_objects_trans [OF s1 namespace_keeps [OF n(1)]])
    have ns: "ns \<in> nss V w (cl_key c)" using namespace_ok [OF n(1)] s1 h by (simp add: same_objects_def)
    from n(2) show ?thesis
    proof (cases rule: io_handle_cases)
      case conv: (Ok v w3)
      have "only_slices V (cl_key c) w2 w'"
        using io_keepsD [OF convergeCluster_frame [OF ok] conv(1)] conv(2) h by simp
      moreover have "stripped (objs V w' (cl_key c)) = converge_spec K ns gw gws (stripped (objs V w2 (cl_key c)))"
        using convergeCluster_ok [of K ns gw h gws w2 w'] conv ok h by simp
      ultimately show ?thesis
        using s2 conv(2) ns by (auto simp: converged_def same_objects_def intro: only_slices_trans same_imp_only [OF s2])
    next
      case (Err err w3)
      have "only_slices V (cl_key c) w2 w'"
        using io_keepsD [OF convergeCluster_frame [OF ok] Err(1)] Err(2) h by simp
      with Err(2) show ?thesis by (auto intro: only_slices_trans same_imp_only [OF s2])
    next
      case (Panic p)
      with convergeCluster_returns [OF ok] show ?thesis by blast
    qed
  next
    case (Err err w2)
    have s2: "same_objects V w w2" by (rule same_objects_trans [OF s1 namespace_keeps [OF Err(1)]])
    have "err = NotFound \<Longrightarrow> ns \<notin> nss V w (cl_key c)"
      using namespace_missing [of h ns w1 w2] Err(1) s1 h by (simp add: same_objects_def)
    with Err(2) s2 show ?thesis
      by (auto simp: converged_def intro: same_imp_only split: if_splits) (simp add: same_objects_def)
  next
    case (Panic p)
    with returns show ?thesis by blast
  qed
next
  case (Err err w1)
  then show ?thesis using client_keeps [OF Err(1)] by (auto intro: same_imp_only)
next
  case (Panic p)
  with returns show ?thesis by blast
qed

text \<open>
  The clusters are independent: an error in one is recorded and the others still converge.
\<close>

lemma ConvergeToClusters_spec:
  assumes "ConvergeToClusters K R A ns cs gw gws w = (r, w')" and "gateways_ok ns gw gws"
    and "distinct (map cl_key cs)"
  shows "\<exists>failed. failed \<subseteq> set cs \<and> (\<exists>errs. r = Ok errs \<and> length errs = card failed) \<and>
    (\<forall>c\<in>set cs - failed. converged V K ns gw gws (cl_key c) w w') \<and>
    (\<forall>k. k \<notin> cl_key ` set cs \<longrightarrow> objs V w' k = objs V w k) \<and> svcs V w' = svcs V w \<and> nss V w' = nss V w"
  using assms
proof (induction cs arbitrary: w r)
  case (Cons c cs)
  obtain r1 w1 where one: "convergeOne K R A ns gw gws c w = (r1, w1)" by fastforce
  from convergeOne_spec [OF one Cons.prems(2)] obtain es where r1: "r1 = Ok es" and frame: "only_slices V (cl_key c) w w1"
    and es: "(\<exists>err. es = [err]) \<or> es = [] \<and> converged V K ns gw gws (cl_key c) w w1" by auto
  obtain r2 where rest: "ConvergeToClusters K R A ns cs gw gws w1 = (r2, w')"
    and r: "r = (case r2 of Ok errs \<Rightarrow> Ok (es @ errs) | Err er \<Rightarrow> Err er | Panic p \<Rightarrow> Panic p)"
    using Cons.prems(1) one r1 by (auto simp: io_bind_def io_return_def split: prod.splits go_result.splits)
  from Cons.IH [OF rest] Cons.prems obtain failed errs where f: "failed \<subseteq> set cs" "r2 = Ok errs" "length errs = card failed"
    "\<forall>c\<in>set cs - failed. converged V K ns gw gws (cl_key c) w1 w'"
    "\<forall>k. k \<notin> cl_key ` set cs \<longrightarrow> objs V w' k = objs V w1 k" "svcs V w' = svcs V w1" "nss V w' = nss V w1" by auto
  have ck: "cl_key c \<notin> cl_key ` set cs" and notin: "c \<notin> set cs" using Cons.prems(3) by auto
  have others: "\<forall>d\<in>set cs - failed. converged V K ns gw gws (cl_key d) w w'"
  proof
    fix d assume d: "d \<in> set cs - failed"
    then have "cl_key d \<noteq> cl_key c" using ck by (metis DiffD1 image_eqI)
    with frame have "objs V w1 (cl_key d) = objs V w (cl_key d)" "nss V w1 = nss V w" by (simp_all add: only_slices_def)
    with f(4) d show "converged V K ns gw gws (cl_key d) w w'" by (auto intro: converged_transfer)
  qed
  have same_c: "objs V w' (cl_key c) = objs V w1 (cl_key c)" using f(5) ck by blast
  have rest_same: "\<forall>k. k \<notin> cl_key ` set (c # cs) \<longrightarrow> objs V w' k = objs V w k" "svcs V w' = svcs V w" "nss V w' = nss V w"
    using f(5-7) frame by (auto simp: only_slices_def)
  from es show ?case
  proof
    assume "\<exists>err. es = [err]"
    moreover have "c \<notin> failed" "finite failed" using f(1) notin by (auto intro: finite_subset)
    ultimately show ?thesis using f(1-3) r others rest_same
      by (intro exI [of _ "insert c failed"]) auto
  next
    assume e: "es = [] \<and> converged V K ns gw gws (cl_key c) w w1"
    then have "converged V K ns gw gws (cl_key c) w w'"
      using same_c by (auto intro: converged_transfer)
    with f(1-3) e r others rest_same show ?thesis by (intro exI [of _ failed]) auto
  qed
qed (auto simp: io_return_def)

end

section \<open>Running again\<close>

lemma held_Some: "held K gw m k = Some e \<longleftrightarrow> m k = Some e \<and> ownedBy K gw e"
  by (auto simp: held_def split: option.splits)

lemma held_None: "held K gw m k = None \<longleftrightarrow> (\<forall>e. m k = Some e \<longrightarrow> \<not> ownedBy K gw e)"
  by (auto simp: held_def split: option.splits)

lemma converged_wanted:
  assumes ok: "gateways_ok ns gw gws" and w: "wanted K gws n = Some d"
    and conv: "stripped m' = converge_spec K ns gw gws m0"
  shows "\<exists>e. held K gw m' \<lparr>Namespace = ns, Name = n\<rparr> = Some e \<and> compareEndpointSlices d e"
proof -
  let ?k = "\<lparr>Namespace = ns, Name = n\<rparr>"
  obtain cg where cg: "ToEndpointSlice K cg = Ok d" "cg_GatewayDNSNamespacedName cg = gw"
    using wanted_SomeD [OF ok w] by blast
  from w have "converge_spec K ns gw gws m0 ?k = createdAs d (m0 ?k)" by (simp add: converge_spec_alt)
  with conv have "stripped m' ?k = createdAs d (m0 ?k)" by simp
  then obtain e where e: "m' ?k = Some e" and "strip e = d \<or> (\<exists>e0. strip e = merge d e0)"
    by (auto simp: stripped_def createdAs_def split: option.splits)
  then have "ownedBy K gw (strip e)" and "compareEndpointSlices d (strip e)"
    using desired_owned(1,2) [OF cg] compare_self compare_merge by metis+
  with e show ?thesis by (auto simp: held_Some)
qed

lemma converged_no_diff:
  assumes items: "lists_namespace m' ns items" and ok: "gateways_ok ns gw gws"
    and gs: "ordered (mapOfList cg_EndpointSliceKey gws) gs" and ss: "ordered (existingMap K gw items) ss"
    and conv: "stripped m' = converge_spec K ns gw gws m0"
  shows "diff_of K gw gws items gs ss = \<lparr>undesired = [], missing = [], changed = []\<rparr>"
proof -
  let ?D = "diff_of K gw gws items gs ss"
  note mem = diff_members [OF items ok gs ss] and wanted = converged_wanted [OF ok _ conv]
  have "d \<notin> set (missing ?D)" for d unfolding mem using wanted by fastforce
  moreover have "x \<notin> set (changed ?D)" for x unfolding mem using wanted by fastforce
  moreover have "e \<notin> set (undesired ?D)" for e
  proof
    assume "e \<in> set (undesired ?D)"
    then have e: "es_Namespace e = ns" "held K gw m' (es_key e) = Some e" and no: "gateway_at gws (es_Name e) = None"
      by (simp_all add: mem)
    then have none: "wanted K gws (es_Name e) = None" by (simp add: wanted_def)
    from e(2) have "held K gw (stripped m') (es_key e) = Some (strip e)" by simp
    then show False unfolding conv using e(1) no none
      by (auto simp: converge_spec_alt held_Some held_None split: if_splits)
  qed
  ultimately have "missing ?D = []" and "changed ?D = []" and "undesired ?D = []" by (blast intro: notin_Nil)+
  then show ?thesis by (cases ?D) simp
qed

context converger
begin

lemma convergeCluster_stable:
  assumes "convergeCluster K R A ns gw h gws w = (Ok (), w')" and ok: "gateways_ok ns gw gws"
    and d: "diffCluster K R A ns gw h gws w' = (Ok D, w'')"
  shows "D = \<lparr>undesired = [], missing = [], changed = []\<rparr>"
proof -
  from diffCluster_run(2) [OF d ok] obtain items where l: "listSlices A h ns w' = (Ok items, w'')"
    and D: "D = diff_of K gw gws items (rangeGateways R w'' (mapOfList cg_EndpointSliceKey gws))
            (rangeSlices R w'' (existingMap K gw items))"
    by auto
  show ?thesis unfolding D
    by (rule converged_no_diff [OF listing [OF l] ok _ _ convergeCluster_ok [OF assms(1) ok]])
      (simp_all add: ordered_def range_gateways range_slices)
qed

end

section \<open>An API server that accepts every valid request\<close>

text \<open>
  No failures: requests that the state of the cluster permits are granted. Then convergence
  itself cannot fail.
\<close>

locale healthy_converger = converger A V cluster_of R
  for A :: "('h, 'w) cluster_api" and V :: "'w cluster_view" and cluster_of :: "'h \<Rightarrow> NamespacedName"
    and R :: "'w map_order" +
  assumes list_grants: "\<exists>es w'. listSlices A h n w = (Ok es, w')"
    and get_grants: "objs V w (cluster_of h) k \<noteq> None \<Longrightarrow> \<exists>e w'. getSlice A h k w = (Ok e, w')"
    and create_grants: "objs V w (cluster_of h) (es_key e) = None \<Longrightarrow> \<exists>w'. createSlice A h e w = (Ok (), w')"
    and create_refuses: "objs V w (cluster_of h) (es_key e) \<noteq> None \<Longrightarrow> \<exists>w'. createSlice A h e w = (Err AlreadyExists, w')"
    and update_grants: "objs V w (cluster_of h) (es_key e) \<noteq> None \<Longrightarrow> \<exists>w'. updateSlice A h e w = (Ok (), w')"
    and delete_grants: "objs V w (cluster_of h) (es_key e) \<noteq> None \<Longrightarrow> \<exists>w'. deleteSlice A h e w = (Ok (), w')"
begin

lemma createOrMerge_grants: "\<exists>w'. createOrMerge A h d w = (Ok (), w')"
proof (cases "objs V w (cluster_of h) (es_key d)")
  case None
  then obtain w' where "createSlice A h d w = (Ok (), w')" using create_grants by blast
  then show ?thesis by (simp add: createOrMerge_def io_return_def)
next
  case (Some e0)
  then obtain w1 where c: "createSlice A h d w = (Err AlreadyExists, w1)" using create_refuses by blast
  then have o1: "objs V w1 = objs V w" using create_exists [OF c] by (simp add: same_objects_def)
  with Some obtain e w2 where g: "getSlice A h (es_key d) w1 = (Ok e, w2)" using get_grants [of w1 h "es_key d"] by auto
  have "objs V w2 = objs V w1" using get_keeps [OF g] by (simp add: same_objects_def)
  moreover have "es_key e = es_key d" using objs_key get_ok [OF g] by blast
  ultimately obtain w' where "updateSlice A h (merge d e) w2 = (Ok (), w')"
    using update_grants [of w2 h "merge d e"] Some o1 by auto
  with c g show ?thesis by (simp add: createOrMerge_def es_key_def)
qed

end

text \<open>A loop all of whose steps succeed in the states it reaches succeeds.\<close>

lemma io_each_grants:
  assumes "\<And>x w. x \<in> set xs \<Longrightarrow> P x w \<Longrightarrow> \<exists>w'. f x w = (Ok (), w')"
    and "\<And>x y w w'. x \<in> set xs \<Longrightarrow> y \<in> set xs \<Longrightarrow> key y \<noteq> key x \<Longrightarrow> P y w \<Longrightarrow> f x w = (Ok (), w') \<Longrightarrow> P y w'"
    and "distinct (map key xs)" and "\<forall>x\<in>set xs. P x w"
  shows "\<exists>w'. io_each f xs w = (Ok (), w')"
  using assms
proof (induction xs arbitrary: w)
  case (Cons x xs)
  from Cons.prems(1) [of x w] Cons.prems(4) obtain w1 where x: "f x w = (Ok (), w1)" by auto
  have "\<forall>y\<in>set xs. P y w1"
  proof
    fix y assume y: "y \<in> set xs"
    with Cons.prems(3) have "key y \<noteq> key x" by (auto simp: image_iff)
    with y Cons.prems(2) [of x y w w1] Cons.prems(4) x show "P y w1" by simp
  qed
  then have "\<exists>w'. io_each f xs w1 = (Ok (), w')"
    using Cons.prems(1-3) by (intro Cons.IH) (auto, blast)
  with x show ?case by simp
qed (simp add: io_return_def)

context healthy_converger
begin

lemma loops_grant:
  assumes mis: "\<And>d. d \<in> set (missing D) \<Longrightarrow> es_Ports d = None \<and> strip d = d"
    and chg: "\<And>x. x \<in> set (changed D) \<Longrightarrow> es_Ports x = None \<and> objs V w (cluster_of h) (es_key x) \<noteq> None"
    and und: "\<And>e. e \<in> set (undesired D) \<Longrightarrow> objs V w (cluster_of h) (es_key e) \<noteq> None"
    and dist: "distinct (map es_key (missing D))" "distinct (map es_key (changed D))" "distinct (map es_key (undesired D))"
  obtains w1 w2 w3 where "io_each (createOrMerge A h) (missing D) w = (Ok (), w1)"
    and "io_each (updateSlice A h) (changed D) w1 = (Ok (), w2)"
    and "io_each (deleteSlice A h) (undesired D) w2 = (Ok (), w3)"
proof -
  let ?s = "\<lambda>w. stripped (objs V w (cluster_of h))"
  obtain w1 where w1: "io_each (createOrMerge A h) (missing D) w = (Ok (), w1)"
    using io_each_grants [of "missing D" "\<lambda>_ _. True" "createOrMerge A h" es_key w] createOrMerge_grants dist(1) by auto
  have "?s w1 = fold (updAt es_key createdAs) (missing D) (?s w)"
    using w1 mis by (intro io_each_fold [where \<alpha> = ?s]) (auto intro: createOrMerge_ok)
  then have "?s w1 k \<noteq> None" if "?s w k \<noteq> None" for k
    using that fold_upd_dom [of createdAs "?s w" k es_key "missing D"] by (simp add: createdAs_def)
  then have keep1: "objs V w1 (cluster_of h) k \<noteq> None" if "objs V w (cluster_of h) k \<noteq> None" for k
    using that by (simp only: stripped_None not_False_eq_True)
  obtain w2 where w2: "io_each (updateSlice A h) (changed D) w1 = (Ok (), w2)"
  proof -
    have "\<exists>w2. io_each (updateSlice A h) (changed D) w1 = (Ok (), w2)"
    proof (rule io_each_grants [where P = "\<lambda>x w. objs V w (cluster_of h) (es_key x) \<noteq> None", OF _ _ dist(2)])
      show "\<forall>x\<in>set (changed D). objs V w1 (cluster_of h) (es_key x) \<noteq> None" using chg keep1 by blast
      show "objs V w'' (cluster_of h) (es_key y) \<noteq> None" if "x \<in> set (changed D)"
        "objs V w' (cluster_of h) (es_key y) \<noteq> None" "updateSlice A h x w' = (Ok (), w'')" for x y w' w''
        using update_ok [OF that(3)] chg [OF that(1)] that(2) by auto
    qed (rule update_grants)
    with that show thesis by blast
  qed
  have "?s w2 = fold (updAt es_key (\<lambda>e _. Some (strip e))) (changed D) (?s w1)"
    using w2 chg by (intro io_each_fold [where \<alpha> = ?s]) (auto intro: update_upd)
  then have "?s w2 k \<noteq> None" if "?s w1 k \<noteq> None" for k
    using that fold_upd_dom [of "\<lambda>e _. Some (strip e)" "?s w1" k es_key "changed D"] by simp
  then have keep2: "objs V w2 (cluster_of h) k \<noteq> None" if "objs V w (cluster_of h) k \<noteq> None" for k
    using keep1 [OF that] by (simp only: stripped_None not_False_eq_True)
  have "\<exists>w3. io_each (deleteSlice A h) (undesired D) w2 = (Ok (), w3)"
  proof (rule io_each_grants [where P = "\<lambda>x w. objs V w (cluster_of h) (es_key x) \<noteq> None", OF _ _ dist(3)])
    show "\<forall>x\<in>set (undesired D). objs V w2 (cluster_of h) (es_key x) \<noteq> None" using und keep2 by blast
    show "objs V w'' (cluster_of h) (es_key y) \<noteq> None" if "es_key y \<noteq> es_key x"
      "objs V w' (cluster_of h) (es_key y) \<noteq> None" "deleteSlice A h x w' = (Ok (), w'')" for x y w' w''
      using delete_ok [OF that(3)] that(1,2) by auto
  qed (rule delete_grants)
  with w1 w2 that show thesis by blast
qed

lemma convergeCluster_grants:
  assumes ok: "gateways_ok ns gw gws"
  shows "\<exists>w'. convergeCluster K R A ns gw h gws w = (Ok (), w')"
proof -
  obtain r w1 where d: "diffCluster K R A ns gw h gws w = (r, w1)" by fastforce
  let ?gs = "rangeGateways R w1 (mapOfList cg_EndpointSliceKey gws)"
  from list_grants [of h ns w] diffCluster_run(2) [OF d ok] obtain items where l: "listSlices A h ns w = (Ok items, w1)"
    and r: "r = Ok (diff_of K gw gws items ?gs (rangeSlices R w1 (existingMap K gw items)))" by auto
  let ?D = "diff_of K gw gws items ?gs (rangeSlices R w1 (existingMap K gw items))"
  have o1: "objs V w1 = objs V w" using diffCluster_run(1) [OF d ok] by (simp add: same_objects_def)
  note L = listing [OF l, folded o1]
  have ord: "ordered (mapOfList cg_EndpointSliceKey gws) ?gs"
    "ordered (existingMap K gw items) (rangeSlices R w1 (existingMap K gw items))"
    by (simp_all add: ordered_def range_gateways range_slices)
  note facts = L ok ord
  have "objs V w1 (cluster_of h) (es_key x) \<noteq> None" if "x \<in> set (changed ?D)" for x
    using diff_keys(2) [OF facts, of "es_key x"] that by (auto simp: held_Some)
  moreover have "objs V w1 (cluster_of h) (es_key x) \<noteq> None" if "x \<in> set (undesired ?D)" for x
    using that by (simp add: diff_members(3) [OF facts] held_Some)
  ultimately obtain w2 w3 w4 where "io_each (createOrMerge A h) (missing ?D) w1 = (Ok (), w2)"
    and "io_each (updateSlice A h) (changed ?D) w2 = (Ok (), w3)"
    and "io_each (deleteSlice A h) (undesired ?D) w3 = (Ok (), w4)"
    using loops_grant [of ?D w1 h] diff_writable [OF facts] diff_keys_distinct [OF facts] by blast
  with d r show ?thesis by (simp add: convergeCluster_def)
qed

end

text \<open>Instances: the maps in the order of insertion, and the API server in memory\<close>

definition insertion_order :: "'w map_order" where
  "insertion_order = \<lparr>rangeGateways = (\<lambda>_ m. m), rangeSlices = (\<lambda>_ m. m)\<rparr>"

definition reverse_order :: "'w map_order" where
  "reverse_order = \<lparr>rangeGateways = (\<lambda>_. rev), rangeSlices = (\<lambda>_. rev)\<rparr>"

interpretation ins: map_ranges insertion_order
  by unfold_locales (simp_all add: insertion_order_def)

interpretation rev_ranges: map_ranges reverse_order
  by unfold_locales (simp_all add: reverse_order_def)

interpretation mem_ins: converger mem_api mem_view "\<lambda>c. c" insertion_order ..

interpretation mem_rev: healthy_converger mem_api mem_view "\<lambda>c. c" reverse_order
  by unfold_locales (auto simp: mem_api_def mem_view_def found_def)

section \<open>Properties\<close>

text \<open>
  C4. Refinement: when \<open>convergeCluster\<close> returns no error, the EndpointSlices of the cluster
  are those of the specification (up to metadata the server sets), in whatever order the maps
  were visited: the slice of every reachable gateway is there and announces it, those of
  unreachable gateways are untouched, all other slices of the GatewayDNS are gone, and every
  slice that is not the GatewayDNS's is kept. Nothing else in any cluster changes, and the
  operation never panics.
\<close>

theorem convergeCluster_refines_spec:
  assumes "converger A V cluster_of R" and "gateways_ok ns gw gws"
    and "convergeCluster K R A ns gw h gws w = (r, w')"
  shows "only_slices V (cluster_of h) w w' \<and> (\<forall>p. r \<noteq> Panic p) \<and>
    (r = Ok () \<longrightarrow> stripped (objs V w' (cluster_of h)) = converge_spec K ns gw gws (stripped (objs V w (cluster_of h))))"
  using io_keepsD [OF converger.convergeCluster_frame [OF assms(1,2)] assms(3)]
    converger.convergeCluster_returns [OF assms(1,2)] converger.convergeCluster_ok [OF assms(1) _ assms(2)] assms(3)
  by auto

text \<open>Gateways of the example: cluster a has a load balancer, cluster b cannot be reached.\<close>

definition ex_gateways :: "ClusterGateway list" where
  "ex_gateways = [clusterGatewayOf ex_collector ex_gdns (ex_cluster ''a'') (Some ex_lb) False,
     clusterGatewayOf ex_collector ex_gdns (ex_cluster ''b'') None True]"

definition ex_gw :: NamespacedName where
  "ex_gw = gd_key ex_gdns"

definition ex_want :: EndpointSlice where
  "ex_want = (case ToEndpointSlice slash_kube (hd ex_gateways) of Ok d \<Rightarrow> d)"

text \<open>The world after the first run: both reachable clusters announce the gateway of cluster a.\<close>

definition ex_world1 :: mem_world where
  "ex_world1 = mem_put (cl_key (ex_cluster ''a'')) ex_want ex_world"

lemma ex_gateways_ok: "gateways_ok ''xcc'' ex_gw ex_gateways"
  by (simp add: gateways_ok_def ex_gateways_def clusterGatewayOf_def ex_collector_def ex_gw_def ex_gdns_def gd_key_def)

lemmas converge_run_defs = convergeCluster_def diffCluster_def createOrMerge_def mem_api_def insertion_order_def
  reverse_order_def existingMap_def mapOfList_def ex_gateways_def clusterGatewayOf_def ex_collector_def ex_gdns_def
  ex_cluster_def cg_EndpointSliceKey_def endpointSliceName_def ToEndpointSlice_def ex_lb_def ex_want_def ex_world_def
  ex_world1_def mem_objs_def mem_put_def io_bind_def io_return_def io_handle_def cl_key_def es_key_def Let_def

lemma ex_run: "convergeCluster slash_kube reverse_order mem_api ''xcc'' ex_gw (cl_key (ex_cluster ''a'')) ex_gateways ex_world
    = (Ok (), ex_world1)"
  by (simp add: converge_run_defs)

theorem convergeCluster_refines_spec_witness:
  "stripped (mem_objs ex_world1 (cl_key (ex_cluster ''a''))) =
     converge_spec slash_kube ''xcc'' ex_gw ex_gateways (stripped (mem_objs ex_world (cl_key (ex_cluster ''a''))))
   \<and> mem_objs ex_world1 (cl_key (ex_cluster ''a'')) (es_key ex_want) = Some ex_want"
  using convergeCluster_refines_spec [OF mem_rev.converger_axioms ex_gateways_ok ex_run]
  by (simp add: mem_view_def ex_world1_def)

text \<open>
  C19. Isolation: \<open>ConvergeToClusters\<close> always returns a list of errors, one for each cluster
  that failed; a cluster that fails does not keep the others from converging: every other
  cluster of the list is as specified, or lacks the controller's namespace and is unchanged;
  clusters outside the list, services and namespaces are unchanged.
\<close>

theorem ConvergeToClusters_isolates:
  assumes "converger A V cluster_of R" and "gateways_ok ns gw gws" and "distinct (map cl_key cs)"
    and "ConvergeToClusters K R A ns cs gw gws w = (r, w')"
  shows "\<exists>failed. failed \<subseteq> set cs \<and> (\<exists>errs. r = Ok errs \<and> length errs = card failed) \<and>
    (\<forall>c\<in>set cs - failed. converged V K ns gw gws (cl_key c) w w') \<and>
    (\<forall>k. k \<notin> cl_key ` set cs \<longrightarrow> objs V w' k = objs V w k) \<and> svcs V w' = svcs V w \<and> nss V w' = nss V w"
  by (rule converger.ConvergeToClusters_spec [OF assms(1,4,2,3)])

text \<open>The example: cluster b is unreachable, a and c converge.\<close>

definition ex_world2 :: mem_world where
  "ex_world2 = mem_put (cl_key (ex_cluster ''c'')) ex_want ex_world1"

lemma ex_run_all:
  "ConvergeToClusters slash_kube insertion_order mem_api ''xcc'' (map ex_cluster [''a'', ''b'', ''c'']) ex_gw ex_gateways ex_world
    = (Ok [OtherError ''unreachable''], ex_world2)"
  by (simp add: convergeOne_def ex_world2_def converge_run_defs)

theorem ConvergeToClusters_isolates_witness:
  "\<exists>failed. failed \<subseteq> set (map ex_cluster [''a'', ''b'', ''c'']) \<and> card failed = 1 \<and>
    (\<forall>c\<in>set (map ex_cluster [''a'', ''b'', ''c'']) - failed.
       converged mem_view slash_kube ''xcc'' ex_gw ex_gateways (cl_key c) ex_world ex_world2) \<and>
    mem_objs ex_world2 (cl_key (ex_cluster ''c'')) (es_key ex_want) = Some ex_want"
proof -
  have "distinct (map cl_key (map ex_cluster [''a'', ''b'', ''c'']))" by (simp add: ex_cluster_def cl_key_def)
  from ConvergeToClusters_isolates [OF mem_ins.converger_axioms ex_gateways_ok this ex_run_all]
  obtain failed where "failed \<subseteq> set (map ex_cluster [''a'', ''b'', ''c''])" "card failed = 1"
    "\<forall>c\<in>set (map ex_cluster [''a'', ''b'', ''c'']) - failed.
       converged mem_view slash_kube ''xcc'' ex_gw ex_gateways (cl_key c) ex_world ex_world2" by auto
  moreover have "mem_objs ex_world2 (cl_key (ex_cluster ''c'')) (es_key ex_want) = Some ex_want"
    by (simp add: ex_world2_def)
  ultimately show ?thesis by blast
qed

text \<open>
  C20. Stability: after \<open>convergeCluster\<close> has returned no error, the difference is empty; running
  it again creates, updates and deletes nothing, so the controller does not keep writing.
\<close>

theorem convergeCluster_settles:
  assumes "converger A V cluster_of R" and "gateways_ok ns gw gws"
    and "convergeCluster K R A ns gw h gws w = (Ok (), w')"
    and "convergeCluster K R A ns gw h gws w' = (r, w'')"
  shows "same_objects V w' w'' \<and>
    (\<forall>D. fst (diffCluster K R A ns gw h gws w') = Ok D \<longrightarrow> D = \<lparr>undesired = [], missing = [], changed = []\<rparr>)"
proof -
  obtain rd w1 where d: "diffCluster K R A ns gw h gws w' = (rd, w1)" by fastforce
  note run = converger.diffCluster_run [OF assms(1) d assms(2)]
  have D: "D = \<lparr>undesired = [], missing = [], changed = []\<rparr>" if "rd = Ok D" for D
    using converger.convergeCluster_stable [OF assms(1,3,2)] d that by blast
  with run d assms(4) have "w'' = w1" by (auto simp: convergeCluster_def io_return_def)
  with run(1) d D show ?thesis by simp
qed

theorem convergeCluster_settles_witness:
  "same_objects mem_view ex_world1 ex_world1 \<and>
   fst (diffCluster slash_kube reverse_order mem_api ''xcc'' ex_gw (cl_key (ex_cluster ''a'')) ex_gateways ex_world1)
     = Ok \<lparr>undesired = [], missing = [], changed = []\<rparr>"
proof -
  have again: "convergeCluster slash_kube reverse_order mem_api ''xcc'' ex_gw (cl_key (ex_cluster ''a'')) ex_gateways ex_world1
      = (Ok (), ex_world1)"
    by (simp add: ex_gw_def gd_key_def slash_kube_def ownedBy_def EndpointSliceKey_def compareEndpointSlices_def smGet_def
        converge_run_defs)
  obtain D where "fst (diffCluster slash_kube reverse_order mem_api ''xcc'' ex_gw (cl_key (ex_cluster ''a'')) ex_gateways ex_world1)
     = Ok D"
    using mem_rev.diffCluster_run(2) [OF prod.collapse [symmetric] ex_gateways_ok, of slash_kube "cl_key (ex_cluster ''a'')" ex_world1]
      mem_rev.list_grants [of "cl_key (ex_cluster ''a'')" "''xcc''" ex_world1] by auto
  with convergeCluster_settles [OF mem_rev.converger_axioms ex_gateways_ok ex_run again] show ?thesis by simp
qed





end
