(* ===== verification/GatewayDNS_Controller.thy ===== *)
theory GatewayDNS_Controller
  imports EndpointSlice_Convergence
begin

text \<open>
  The reconciler of GatewayDNS objects (\<open>pkg/controllers/gatewaydns/controller.go\<close>): it
  finds the gateways that a GatewayDNS selects and brings all clusters of its namespace to
  announce them. Also the two sources of requests beside the watch on GatewayDNS objects: the
  periodic poll and the map from Cluster objects to requests. The lemmas put the searcher, the
  collector and the converger together.
\<close>

section \<open>Reconciling\<close>

text \<open>
  The reconcilers and the collector are built in \<open>main\<close>; of their fields, the ones that are
  not clients or loggers. \<open>time.Duration\<close> counts nanoseconds.
\<close>

record GatewayDNSReconciler =
  gr_Namespace :: string
  gr_ClusterGatewayCollector :: ClusterGatewayCollector
  gr_PollingInterval :: int

definition convergeOnClustersForGatewayDNS ::
    "kube_lib \<Rightarrow> 'w map_order \<Rightarrow> ('h, 'w) cluster_api \<Rightarrow> 'w mgmt_api \<Rightarrow> GatewayDNSReconciler \<Rightarrow> NamespacedName
      \<Rightarrow> ClusterGateway list \<Rightarrow> ('w, unit) io" where
  "convergeOnClustersForGatewayDNS K R A M r namespacedName clusterGateways =
     io_bind (listClusters M (Namespace namespacedName) None) (\<lambda>cs.
       io_bind (ConvergeToClusters K R A (gr_Namespace r) cs namespacedName clusterGateways) (\<lambda>errs.
         if length errs > 0 then io_err (OtherError ''Failed to converge EndpointSlices'') else io_return ()))"

definition GatewayDNSReconciler_Reconcile ::
    "kube_lib \<Rightarrow> 'w map_order \<Rightarrow> ('h, 'w) cluster_api \<Rightarrow> 'w mgmt_api \<Rightarrow> GatewayDNSReconciler \<Rightarrow> NamespacedName
      \<Rightarrow> ('w, unit) io" where
  "GatewayDNSReconciler_Reconcile K R A M r req =
     io_handle (getGatewayDNS M req)
       (\<lambda>gatewayDNS.
          io_bind (ListMatchingClusters K M gatewayDNS) (\<lambda>clustersWithEndpoints.
            io_bind (GetGatewaysForClusters K A (gr_ClusterGatewayCollector r) gatewayDNS clustersWithEndpoints) (\<lambda>clusterGateways.
              convergeOnClustersForGatewayDNS K R A M r req clusterGateways)))
       (\<lambda>err. if IsNotFound err then convergeOnClustersForGatewayDNS K R A M r req [] else io_err err)"

section \<open>Sources of requests\<close>

definition defaultPollingInterval :: int where
  "defaultPollingInterval = 30 * 1000000000"

definition pollingInterval :: "GatewayDNSReconciler \<Rightarrow> int" where
  "pollingInterval r = (if gr_PollingInterval r = 0 then defaultPollingInterval else gr_PollingInterval r)"

text \<open>
  One round of the poll: the requests that its events put into the queue. A failed list is
  logged and the loop goes on. \<open>PollGatewayDNS\<close> is the first \<open>n\<close> rounds of the endless loop.
\<close>

definition pollRound :: "'w mgmt_api \<Rightarrow> ('w, NamespacedName list) io" where
  "pollRound M = io_handle (listGatewayDNS M None)
     (\<lambda>gatewayDNSList. io_return (map (\<lambda>g. \<lparr>Namespace = gd_Namespace g, Name = gd_Name g\<rparr>) gatewayDNSList))
     (\<lambda>err. io_return [])"

primrec PollGatewayDNS :: "nat \<Rightarrow> 'w mgmt_api \<Rightarrow> ('w, NamespacedName list list) io" where
  "PollGatewayDNS 0 M = io_return []"
| "PollGatewayDNS (Suc n) M = io_bind (pollRound M) (\<lambda>reqs.
     io_bind (PollGatewayDNS n M) (\<lambda>rest. io_return (reqs # rest)))"

primrec matchingRequests :: "kube_lib \<Rightarrow> string_map \<Rightarrow> GatewayDNS list \<Rightarrow> NamespacedName list go_result" where
  "matchingRequests K clusterLabels [] = Ok []"
| "matchingRequests K clusterLabels (gatewayDNS # gs) =
     (case LabelSelectorAsSelector K (ClusterSelector (gd_Spec gatewayDNS)) of
        Ok matches \<Rightarrow> (case matchingRequests K clusterLabels gs of
            Ok rest \<Rightarrow> Ok (if matches clusterLabels
                then \<lparr>Namespace = gd_Namespace gatewayDNS, Name = gd_Name gatewayDNS\<rparr> # rest else rest)
          | Err e \<Rightarrow> Err e
          | Panic p \<Rightarrow> Panic p)
      | Err e \<Rightarrow> matchingRequests K clusterLabels gs
      | Panic p \<Rightarrow> Panic p)"

definition ClusterToGatewayDNS :: "kube_lib \<Rightarrow> 'w mgmt_api \<Rightarrow> Cluster \<Rightarrow> ('w, NamespacedName list) io" where
  "ClusterToGatewayDNS K M cluster =
     io_handle (listGatewayDNS M (Some (cl_Namespace cluster)))
       (\<lambda>gatewayDNSList. io_of (matchingRequests K (cl_Labels cluster) gatewayDNSList))
       (\<lambda>err. io_return [])"

definition clustersToNames :: "Cluster list \<Rightarrow> string list" where
  "clustersToNames cs = map (\<lambda>c. cl_Namespace c @ ''/'' @ cl_Name c) cs"

text \<open>
  The handlers of the controller library that turn events into requests: for the watched object
  itself, or for what a function returns for it.
\<close>

record 'w handler_lib =
  EnqueueRequestForObject :: "GatewayDNS event \<Rightarrow> NamespacedName list"
  EnqueueRequestsFromMapFunc :: "(Cluster \<Rightarrow> ('w, NamespacedName list) io) \<Rightarrow> Cluster event \<Rightarrow> ('w, NamespacedName list) io"

datatype watched = ForGatewayDNS "GatewayDNS event" | PollEvent "GatewayDNS event" | ClusterEvent "Cluster event"

text \<open>The handler of poll events has a function for generic events only.\<close>

definition pollGenericFunc :: "GatewayDNS event \<Rightarrow> NamespacedName list" where
  "pollGenericFunc e = (case e of
     GenericEvent g \<Rightarrow> [\<lparr>Namespace = gd_Namespace g, Name = gd_Name g\<rparr>]
   | _ \<Rightarrow> [])"

text \<open>\<open>SetupWithManager\<close> registers the three watches: the requests that an event adds to the work queue.\<close>

definition GatewayDNS_SetupWithManager ::
    "'w handler_lib \<Rightarrow> kube_lib \<Rightarrow> 'w mgmt_api \<Rightarrow> watched \<Rightarrow> ('w, NamespacedName list) io" where
  "GatewayDNS_SetupWithManager H K M ev =
     (case ev of
        ForGatewayDNS e \<Rightarrow> io_return (EnqueueRequestForObject H e)
      | PollEvent e \<Rightarrow> io_return (pollGenericFunc e)
      | ClusterEvent e \<Rightarrow> EnqueueRequestsFromMapFunc H (ClusterToGatewayDNS K M) e)"

section \<open>The collected gateways\<close>

lemma gd_key_literal: "\<lparr>Namespace = gd_Namespace g, Name = gd_Name g\<rparr> = gd_key g"
  by (simp add: gd_key_def)

lemma clusterGatewayOf_simps [simp]:
  "cg_ClusterNamespacedName (clusterGatewayOf e g c s u) = cl_key c"
  "cg_Gateway (clusterGatewayOf e g c s u) = s"
  "cg_Unreachable (clusterGatewayOf e g c s u) = u"
  "cg_DomainSuffix (clusterGatewayOf e g c s u) = col_DomainSuffix e"
  "cg_ControllerNamespace (clusterGatewayOf e g c s u) = col_Namespace e"
  "cg_GatewayDNSNamespacedName (clusterGatewayOf e g c s u) = gd_key g"
  by (simp_all add: clusterGatewayOf_def cl_key_def gd_key_def)

lemma gateways_of_ok: "cg \<in> set (gateways_of e g svc up c) \<Longrightarrow>
    cg_ControllerNamespace cg = col_Namespace e \<and> cg_GatewayDNSNamespacedName cg = gd_key g \<and>
    cg_ClusterNamespacedName cg = cl_key c \<and> (\<not> cg_Unreachable cg \<longrightarrow> cg_Gateway cg \<noteq> None)"
  by (auto simp: gateways_of_def split: if_splits option.splits)

lemma collected_ok:
  "gateways_ok (col_Namespace e) (gd_key g) (concat (map2 (\<lambda>c v. gateways_of e g (svc c) (up c v) c) cs ws))"
  by (auto simp: gateways_ok_def dest!: gateways_of_ok)

section \<open>What a reconciliation achieves\<close>

text \<open>
  All clusters of the namespace of the GatewayDNS \<open>req\<close> are converged to the gateways
  \<open>gws\<close>; everything else is as before.
\<close>

definition namespace_converged ::
    "'w cluster_view \<Rightarrow> 'w mgmt_view \<Rightarrow> kube_lib \<Rightarrow> string \<Rightarrow> NamespacedName \<Rightarrow> ClusterGateway list \<Rightarrow> 'w \<Rightarrow> 'w \<Rightarrow> bool" where
  "namespace_converged V MV K ns req gws w w' \<longleftrightarrow>
     (\<forall>c. clusters MV w (cl_key c) = Some c \<and> cl_Namespace c = Namespace req \<longrightarrow> converged V K ns req gws (cl_key c) w w') \<and>
     (\<forall>k. Namespace k \<noteq> Namespace req \<or> clusters MV w k = None \<longrightarrow> objs V w' k = objs V w k) \<and>
     svcs V w' = svcs V w \<and> nss V w' = nss V w"

lemma namespace_converged_from:
  assumes "namespace_converged V MV K ns req gws w1 w'" and "same_objects V w w1" and "same_mgmt MV w w1"
  shows "namespace_converged V MV K ns req gws w w'"
  using assms unfolding namespace_converged_def
  by (auto simp: same_objects_def same_mgmt_def intro: converged_transfer)

locale gatewaydns_controller = controller_world A V cluster_of M MV + map_ranges R + kube_names K
  for A :: "('h, 'w) cluster_api" and V :: "'w cluster_view" and cluster_of :: "'h \<Rightarrow> NamespacedName"
    and M :: "'w mgmt_api" and MV :: "'w mgmt_view" and R :: "'w map_order" and K :: kube_lib
begin

sublocale converger A V cluster_of R ..

lemma mgmt_call_same:
  "getGatewayDNS M k w = (rg, w') \<Longrightarrow> same_objects V w w' \<and> same_mgmt MV w w'"
  "listClusters M n sel w = (rcs, w') \<Longrightarrow> same_objects V w w' \<and> same_mgmt MV w w'"
  by (auto intro: getGatewayDNS_apart listClusters_apart getGatewayDNS_keeps listClusters_keeps)

lemma convergeOn_spec:
  assumes run: "convergeOnClustersForGatewayDNS K R A M r req gws w = (res, w')"
    and ok: "gateways_ok (gr_Namespace r) req gws"
  shows "(\<forall>p. res \<noteq> Panic p) \<and> (res = Ok () \<longrightarrow> namespace_converged V MV K (gr_Namespace r) req gws w w')"
proof -
  obtain rc w1 where l: "listClusters M (Namespace req) None w = (rc, w1)" by fastforce
  note same = mgmt_call_same(2) [OF l]
  show ?thesis
  proof (cases rc)
    case (Ok cs)
    with l have l': "listClusters M (Namespace req) None w = (Ok cs, w1)" by simp
    have cs: "set cs = {c. clusters MV w (cl_key c) = Some c \<and> cl_Namespace c = Namespace req}"
      using listClusters_ok [OF l'] by simp
    obtain re w2 where conv: "ConvergeToClusters K R A (gr_Namespace r) cs req gws w1 = (re, w2)" by fastforce
    from ConvergeToClusters_spec [OF conv ok clusters_distinct_keys [OF l']] obtain failed errs where
      f: "failed \<subseteq> set cs" "re = Ok errs" "length errs = card failed"
      "\<forall>c\<in>set cs - failed. converged V K (gr_Namespace r) req gws (cl_key c) w1 w2"
      "\<forall>k. k \<notin> cl_key ` set cs \<longrightarrow> objs V w2 k = objs V w1 k" "svcs V w2 = svcs V w1" "nss V w2 = nss V w1"
      by blast
    have res: "w' = w2 \<and> res = (if length errs > 0 then Err (OtherError ''Failed to converge EndpointSlices'') else Ok ())"
      using run l' conv f(2) by (auto simp: convergeOnClustersForGatewayDNS_def io_err_def io_return_def)
    have "namespace_converged V MV K (gr_Namespace r) req gws w1 w2" if "length errs = 0"
    proof -
      have "failed = {}" using f(1,3) that finite_subset [OF f(1)] by simp
      moreover have "k \<notin> cl_key ` set cs" if "Namespace k \<noteq> Namespace req \<or> clusters MV w k = None" for k
        using that cs by auto
      ultimately show ?thesis using f(4-7) cs same by (auto simp: namespace_converged_def same_mgmt_def)
    qed
    with res same show ?thesis by (auto intro: namespace_converged_from)
  next
    case (Err e)
    with run l show ?thesis by (auto simp: convergeOnClustersForGatewayDNS_def)
  next
    case (Panic p)
    with l listClusters_returns show ?thesis by blast
  qed
qed

lemma collector_apart: "io_keeps (same_mgmt MV) (collectGateways A e g svc cs)"
proof (induction cs)
  case (Cons c cs)
  then show ?case
    unfolding collectGateways.simps collectGateway_def getLoadBalancerServiceForCluster_def
    by (intro io_keeps_bind io_keeps_handle transp_same_mgmt io_keeps_return io_keeps_err reflp_same_mgmt)
      (auto intro: io_keepsI cluster_calls_apart(1,3) split: if_split)
qed (auto intro: io_keeps_return)

end

text \<open>
  The gateways that a reconciliation collects: \<open>selected_clusters\<close> are the clusters of the
  namespace that the selector of the GatewayDNS matches; \<open>collected\<close> says that \<open>gws\<close> are
  their gateways, each as found in a state \<open>v\<close> of the world with the same objects.
\<close>

definition selected_clusters :: "kube_lib \<Rightarrow> 'w mgmt_view \<Rightarrow> 'w \<Rightarrow> GatewayDNS \<Rightarrow> Cluster set" where
  "selected_clusters K MV w g = {c. clusters MV w (cl_key c) = Some c \<and> cl_Namespace c = gd_Namespace g \<and>
     (case LabelSelectorAsSelector K (ClusterSelector (gd_Spec g)) of
        Ok matches \<Rightarrow> matches (cl_Labels c) | Err e \<Rightarrow> False | Panic p \<Rightarrow> False)}"

definition collected ::
    "kube_lib \<Rightarrow> ('h, 'w) cluster_api \<Rightarrow> 'w cluster_view \<Rightarrow> 'w mgmt_view \<Rightarrow> ClusterGatewayCollector \<Rightarrow> GatewayDNS \<Rightarrow> 'w
      \<Rightarrow> ClusterGateway list \<Rightarrow> bool" where
  "collected K A V MV e g w gws \<longleftrightarrow>
     (let svc = newNamespacedNameFromString K (spec_Service (gd_Spec g)) in
      \<exists>cs ws. distinct (map cl_key cs) \<and> set cs = selected_clusters K MV w g \<and> length ws = length cs \<and>
        (\<forall>v\<in>set ws. same_objects V w v) \<and>
        gws = concat (map2 (\<lambda>c v. gateways_of e g (svcs V w (cl_key c) svc) (query_ok A svc c v) c) cs ws))"

lemma collected_gateways_ok: "collected K A V MV e g w gws \<Longrightarrow> gateways_ok (col_Namespace e) (gd_key g) gws"
  by (auto simp: collected_def Let_def intro: collected_ok)

lemma collected_from:
  "collected K A V MV e g w1 gws \<Longrightarrow> same_objects V w w1 \<Longrightarrow> same_mgmt MV w w1 \<Longrightarrow> collected K A V MV e g w gws"
  by (simp add: collected_def selected_clusters_def same_objects_def same_mgmt_def Let_def)

context gatewaydns_controller
begin

lemma search_and_collect:
  assumes "ListMatchingClusters K M g w = (Ok cs, w1)" and "GetGatewaysForClusters K A e g cs w1 = (r, w2)"
  shows "\<exists>gws. r = Ok gws \<and> collected K A V MV e g w gws" and "same_objects V w w2" and "same_mgmt MV w w2"
proof -
  from assms(1) obtain sel where sel: "LabelSelectorAsSelector K (ClusterSelector (gd_Spec g)) = Ok sel"
    and l: "listClusters M (gd_Namespace g) (Some sel) w = (Ok cs, w1)"
    unfolding ListMatchingClusters_def io_bind_Ok_iff by (metis io_of_eq)
  have same1: "same_objects V w w1" "same_mgmt MV w w1" using mgmt_call_same(2) [OF l] by auto
  let ?svc = "newNamespacedNameFromString K (spec_Service (gd_Spec g))"
  from collectGateways_spec [OF assms(2) [unfolded GetGatewaysForClusters_def]] obtain ws where
    ws: "length ws = length cs" "\<forall>v\<in>set ws. same_objects V w1 v" "same_objects V w1 w2"
    "r = Ok (concat (map2 (\<lambda>c v. gateways_of e g (svcs V w1 (cl_key c) ?svc) (query_ok A ?svc c v) c) cs ws))" by blast
  show "same_objects V w w2" using same1 ws(3) by (blast intro: same_objects_trans)
  show "same_mgmt MV w w2"
    using same1(2) io_keepsD [OF collector_apart assms(2) [unfolded GetGatewaysForClusters_def]] by (simp add: same_mgmt_def)
  have "set cs = selected_clusters K MV w g"
    using listClusters_ok [OF l] sel by (auto simp: selected_clusters_def)
  with ws clusters_distinct_keys [OF l] same1 show "\<exists>gws. r = Ok gws \<and> collected K A V MV e g w gws"
    unfolding collected_def Let_def by (intro exI conjI) (auto simp: same_objects_def)
qed

lemma ListMatchingClusters_returns: "ListMatchingClusters K M g w \<noteq> (Panic p, w')"
  using selector_returns [of "ClusterSelector (gd_Spec g)"] listClusters_returns
  by (cases "LabelSelectorAsSelector K (ClusterSelector (gd_Spec g))") (auto simp: ListMatchingClusters_def io_of_def io_bind_def)

lemma Reconcile_spec:
  assumes run: "GatewayDNSReconciler_Reconcile K R A M r req w = (res, w')"
    and cfg: "col_Namespace (gr_ClusterGatewayCollector r) = gr_Namespace r"
  shows "(\<forall>p. res \<noteq> Panic p) \<and> (res = Ok () \<longrightarrow>
    (case gdns MV w req of
       None \<Rightarrow> namespace_converged V MV K (gr_Namespace r) req [] w w'
     | Some g \<Rightarrow> \<exists>gws. collected K A V MV (gr_ClusterGatewayCollector r) g w gws \<and>
         namespace_converged V MV K (gr_Namespace r) req gws w w'))"
  using run unfolding GatewayDNSReconciler_Reconcile_def
proof (cases rule: io_handle_cases)
  case (Ok g w1)
  let ?e = "gr_ClusterGatewayCollector r"
  have same1: "same_objects V w w1" "same_mgmt MV w w1" using mgmt_call_same(1) [OF Ok(1)] by auto
  have g: "gdns MV w req = Some g" and key: "gd_key g = req"
    using getGatewayDNS_ok [OF Ok(1)] gdns_key by auto
  obtain rl w2 where l: "ListMatchingClusters K M g w1 = (rl, w2)" by fastforce
  show ?thesis
  proof (cases rl)
    case cs: (Ok cs)
    obtain rg w3 where gg: "GetGatewaysForClusters K A ?e g cs w2 = (rg, w3)" by fastforce
    from search_and_collect [OF l [unfolded cs] gg] obtain gws where
      gws: "rg = Ok gws" "collected K A V MV ?e g w1 gws" and same3: "same_objects V w1 w3" "same_mgmt MV w1 w3" by blast
    have conv: "convergeOnClustersForGatewayDNS K R A M r req gws w3 = (res, w')" using Ok(2) l cs gg gws(1) by simp
    have "gateways_ok (gr_Namespace r) req gws" using collected_gateways_ok [OF gws(2)] cfg key by simp
    from convergeOn_spec [OF conv this] have "\<forall>p. res \<noteq> Panic p"
      "res = Ok () \<longrightarrow> namespace_converged V MV K (gr_Namespace r) req gws w3 w'" by auto
    moreover have "same_objects V w w3" "same_mgmt MV w w3"
      using same1 same3 by (auto simp: same_objects_def same_mgmt_def)
    ultimately show ?thesis using g gws(2) same1 by (auto intro: namespace_converged_from collected_from)
  next
    case (Err e)
    with Ok(2) l show ?thesis by auto
  next
    case (Panic p)
    with l ListMatchingClusters_returns show ?thesis by blast
  qed
next
  case (Err e w1)
  have same1: "same_objects V w w1" "same_mgmt MV w w1" using mgmt_call_same(1) [OF Err(1)] by auto
  show ?thesis
  proof (cases "e = NotFound")
    case True
    with Err have conv: "convergeOnClustersForGatewayDNS K R A M r req [] w1 = (res, w')"
      and "gdns MV w req = None" using getGatewayDNS_missing by auto
    with convergeOn_spec [OF conv] same1 show ?thesis by (auto simp: gateways_ok_def intro: namespace_converged_from)
  next
    case False
    with Err show ?thesis by simp
  qed
next
  case (Panic p)
  with getGatewayDNS_returns show ?thesis by blast
qed

end

interpretation mem_gdc: gatewaydns_controller mem_api mem_view "\<lambda>c. c" mem_mgmt mem_mgmt_view insertion_order slash_kube ..

section \<open>The slices of one gateway\<close>

definition sliceNameOf :: "NamespacedName \<Rightarrow> string" where
  "sliceNameOf c = Namespace c @ ''-'' @ Name c @ ''-gateway''"

lemma endpointSliceName_eq: "endpointSliceName cg = sliceNameOf (cg_ClusterNamespacedName cg)"
  by (simp add: endpointSliceName_def sliceNameOf_def)

lemma sliceNameOf_inj: "Namespace c = Namespace d \<Longrightarrow> sliceNameOf c = sliceNameOf d \<Longrightarrow> c = d"
  by (simp add: sliceNameOf_def)

lemma gateways_of_unique: "cg \<in> set (gateways_of e g svc up c) \<Longrightarrow> gateways_of e g svc up c = [cg]"
  by (auto simp: gateways_of_def split: if_splits option.splits)

lemma gateway_at_iff:
  assumes "\<And>x y. x \<in> set gws \<Longrightarrow> y \<in> set gws \<Longrightarrow> endpointSliceName x = endpointSliceName y \<Longrightarrow> x = y"
  shows "gateway_at gws n = Some cg \<longleftrightarrow> cg \<in> set gws \<and> endpointSliceName cg = n"
proof
  assume r: "cg \<in> set gws \<and> endpointSliceName cg = n"
  then obtain cg' where "gateway_at gws n = Some cg'"
    by (cases "gateway_at gws n") (auto simp: gateway_at_def find_None_iff)
  with gateway_at_SomeD [OF this] r assms show "gateway_at gws n = Some cg" by metis
qed (rule gateway_at_SomeD)

text \<open>The gateway collected for a name is that of the selected cluster with the name.\<close>

lemma gateway_at_collected:
  assumes "collected K A V MV e g w gws" and "svc = newNamespacedNameFromString K (spec_Service (gd_Spec g))"
  shows "gateway_at gws n = Some cg \<Longrightarrow> \<exists>c v. c \<in> selected_clusters K MV w g \<and> same_objects V w v \<and>
      n = sliceNameOf (cl_key c) \<and> gateways_of e g (svcs V w (cl_key c) svc) (query_ok A svc c v) c = [cg]"
    and "c \<in> selected_clusters K MV w g \<Longrightarrow> \<exists>v. same_objects V w v \<and>
      (\<forall>cg. gateways_of e g (svcs V w (cl_key c) svc) (query_ok A svc c v) c = [cg] \<longrightarrow>
        gateway_at gws (sliceNameOf (cl_key c)) = Some cg)"
proof -
  let ?f = "\<lambda>c v. gateways_of e g (svcs V w (cl_key c) svc) (query_ok A svc c v) c"
  from assms obtain cs ws where cs: "distinct (map cl_key cs)" "set cs = selected_clusters K MV w g"
    "length ws = length cs" "\<forall>v\<in>set ws. same_objects V w v" and gws: "gws = concat (map2 ?f cs ws)"
    unfolding collected_def Let_def by blast
  have mem: "cg \<in> set gws \<longleftrightarrow> (\<exists>i<length cs. cg \<in> set (?f (cs ! i) (ws ! i)))" for cg
    unfolding gws using cs(3) by (auto simp: set_zip)
  have name: "endpointSliceName cg = sliceNameOf (cl_key (cs ! i))" if "cg \<in> set (?f (cs ! i) (ws ! i))" for cg i
    using gateways_of_ok [OF that] by (simp add: endpointSliceName_eq)
  have unique: "x = y" if xy: "x \<in> set gws" "y \<in> set gws" and eq: "endpointSliceName x = endpointSliceName y" for x y
  proof -
    obtain i j where i: "i < length cs" "x \<in> set (?f (cs ! i) (ws ! i))" and j: "j < length cs" "y \<in> set (?f (cs ! j) (ws ! j))"
      using xy mem by blast
    have "cs ! i \<in> selected_clusters K MV w g" "cs ! j \<in> selected_clusters K MV w g" unfolding cs(2) [symmetric] using i(1) j(1) by (blast intro: nth_mem)+
    then have "Namespace (cl_key (cs ! i)) = Namespace (cl_key (cs ! j))" by (simp add: selected_clusters_def)
    with eq name [OF i(2)] name [OF j(2)] have "cl_key (cs ! i) = cl_key (cs ! j)" by (metis sliceNameOf_inj)
    with cs(1) i(1) j(1) have "i = j" by (metis length_map nth_eq_iff_index_eq nth_map)
    with gateways_of_unique [OF i(2)] gateways_of_unique [OF j(2)] show ?thesis by simp
  qed
  {
    assume "gateway_at gws n = Some cg"
    then have "cg \<in> set gws" and n: "endpointSliceName cg = n" using gateway_at_SomeD by blast+
    then obtain i where i: "i < length cs" "cg \<in> set (?f (cs ! i) (ws ! i))" using mem by blast
    with cs n name [OF i(2)] gateways_of_unique [OF i(2)]
    show "\<exists>c v. c \<in> selected_clusters K MV w g \<and> same_objects V w v \<and> n = sliceNameOf (cl_key c) \<and> ?f c v = [cg]"
      by (metis nth_mem)
  next
    assume "c \<in> selected_clusters K MV w g"
    then obtain i where i: "i < length cs" "cs ! i = c" using cs(2) by (metis in_set_conv_nth)
    have "gateway_at gws (sliceNameOf (cl_key c)) = Some cg" if "?f c (ws ! i) = [cg]" for cg
    proof -
      from that i(2) have in_i: "cg \<in> set (?f (cs ! i) (ws ! i))" by simp
      with i(1) mem have "cg \<in> set gws" by blast
      moreover have "endpointSliceName cg = sliceNameOf (cl_key c)" using name [OF in_i] i(2) by simp
      ultimately show ?thesis using gateway_at_iff [of gws, OF unique] by blast
    qed
    moreover have "same_objects V w (ws ! i)" using i(1) cs(3,4) nth_mem by metis
    ultimately show "\<exists>v. same_objects V w v \<and> (\<forall>cg. ?f c v = [cg] \<longrightarrow> gateway_at gws (sliceNameOf (cl_key c)) = Some cg)"
      by blast
  }
qed

text \<open>
  A slice announces a gateway: it carries the host name and the reference to the GatewayDNS,
  and its addresses are the gateway's.
\<close>

definition announces :: "kube_lib \<Rightarrow> NamespacedName \<Rightarrow> string \<Rightarrow> string list \<Rightarrow> EndpointSlice \<Rightarrow> bool" where
  "announces K gw hostname ips e \<longleftrightarrow>
     smLookup (es_Annotations e) DNSHostnameAnnotation = Some hostname \<and>
     smLookup (es_Annotations e) GatewayDNSRefAnnotation = Some (nnString K gw) \<and>
     es_AddressType e = AddressTypeIPv4 \<and> flattenEndpoints (elems (es_Endpoints e)) = ips"

definition hostnameOf :: "ClusterGatewayCollector \<Rightarrow> Cluster \<Rightarrow> string" where
  "hostnameOf e c = ''*.gateway.'' @ cl_Name c @ ''.'' @ cl_Namespace c @ ''.clusters.'' @ col_DomainSuffix e"

lemma announces_strip [simp]: "announces K gw hn ips (strip e) = announces K gw hn ips e"
  by (simp add: announces_def strip_def)

lemma desired_announces:
  assumes "ToEndpointSlice K cg = Ok d" and "cg_Gateway cg = Some s" and "cg_GatewayDNSNamespacedName cg = gw"
  shows "announces K gw (gatewayHostname cg) (getExternalIPsFromStatus s) d"
    and "announces K gw (gatewayHostname cg) (getExternalIPsFromStatus s) (merge d e0)"
proof -
  from assms show a: "announces K gw (gatewayHostname cg) (getExternalIPsFromStatus s) d"
    by (auto simp: ToEndpointSlice_def announces_def flattenEndpoints_def getExternalIPsFromStatus_def Let_def)
  show "announces K gw (gatewayHostname cg) (getExternalIPsFromStatus s) (merge d e0)"
    using a by (simp add: announces_def merge_lookup) (simp add: merge_def Let_def)
qed

lemma wanted_cg:
  assumes "gateway_at gws n = Some cg" and "\<not> cg_Unreachable cg" and "cg_Gateway cg = Some s"
  obtains d where "wanted K gws n = Some d" and "ToEndpointSlice K cg = Ok d"
  using assms ToEndpointSlice_Ok_iff [of K cg] by (auto simp: wanted_def)

lemma converge_spec_announces:
  assumes ok: "gateways_ok ns gw gws" and at: "gateway_at gws n = Some cg" "\<not> cg_Unreachable cg" "cg_Gateway cg = Some s"
    and "stripped m' = converge_spec K ns gw gws m0"
  shows "\<exists>e. m' \<lparr>Namespace = ns, Name = n\<rparr> = Some e \<and> announces K gw (gatewayHostname cg) (getExternalIPsFromStatus s) e"
proof -
  let ?k = "\<lparr>Namespace = ns, Name = n\<rparr>"
  obtain d where d: "wanted K gws n = Some d" "ToEndpointSlice K cg = Ok d" using wanted_cg [OF at] .
  have "cg_GatewayDNSNamespacedName cg = gw" using ok gateway_at_SomeD [OF at(1)] by (auto simp: gateways_ok_def)
  note ann = desired_announces [OF d(2) at(3) this]
  have "stripped m' ?k = createdAs d (m0 ?k)" using assms(5) d(1) by (simp add: converge_spec_alt)
  then obtain e where e: "m' ?k = Some e" and "strip e = d \<or> (\<exists>e0. strip e = merge d e0)"
    by (auto simp: stripped_def createdAs_def split: option.splits)
  then have "announces K gw (gatewayHostname cg) (getExternalIPsFromStatus s) (strip e)" using ann by metis
  with e show ?thesis by auto
qed

lemma converge_spec_unreachable:
  assumes "gateway_at gws n = Some cg" "cg_Unreachable cg"
  shows "converge_spec K ns gw gws m \<lparr>Namespace = ns, Name = n\<rparr> = m \<lparr>Namespace = ns, Name = n\<rparr>"
  using assms by (simp add: converge_spec_alt wanted_def)

lemma converge_spec_owned:
  assumes "converge_spec K ns gw gws m k = Some e" and "ownedBy K gw e" and "Namespace k = ns"
  shows "gateway_at gws (Name k) \<noteq> None"
proof
  assume none: "gateway_at gws (Name k) = None"
  then have "wanted K gws (Name k) = None" by (simp add: wanted_def)
  with none assms have "m k = Some e" and "held K gw m k = None" by (auto simp: converge_spec_alt split: if_splits)
  with assms(2) show False by (simp add: held_None)
qed

lemma gatewayHostname_of: "gatewayHostname (clusterGatewayOf e g c s u) = hostnameOf e c"
  by (simp add: gatewayHostname_def hostnameOf_def)

section \<open>Properties\<close>

text \<open>
  A reconciliation that returns no error has brought every cluster of the GatewayDNS's
  namespace to the gateways collected for it: the gateways of the clusters that its selector
  matches or, when the GatewayDNS no longer exists, none. Clusters of other namespaces are
  unchanged. Reconciling never panics: the service of a gateway is only read where it is set.
\<close>

theorem Reconcile_converges_namespace:
  assumes "gatewaydns_controller A V cluster_of M MV R K"
    and "col_Namespace (gr_ClusterGatewayCollector r) = gr_Namespace r"
    and "GatewayDNSReconciler_Reconcile K R A M r req w = (res, w')"
  shows "(\<forall>p. res \<noteq> Panic p) \<and> (res = Ok () \<longrightarrow>
    (case gdns MV w req of
       None \<Rightarrow> namespace_converged V MV K (gr_Namespace r) req [] w w'
     | Some g \<Rightarrow> \<exists>gws. collected K A V MV (gr_ClusterGatewayCollector r) g w gws \<and>
         namespace_converged V MV K (gr_Namespace r) req gws w w'))"
  by (rule gatewaydns_controller.Reconcile_spec [OF assms(1,3,2)])

definition ex_reconciler :: GatewayDNSReconciler where
  "ex_reconciler = \<lparr>gr_Namespace = ''xcc'', gr_ClusterGatewayCollector = ex_collector, gr_PollingInterval = 0\<rparr>"

text \<open>The example world with all clusters reachable, before and after a reconciliation\<close>

definition ex_up :: mem_world where
  "ex_up = ex_world\<lparr>mw_down := []\<rparr>"

definition ex_up' :: mem_world where
  "ex_up' = mem_put (cl_key (ex_cluster ''c'')) ex_want (mem_put (cl_key (ex_cluster ''a'')) ex_want ex_up)"

lemmas reconcile_run_defs = GatewayDNSReconciler_Reconcile_def ListMatchingClusters_def GetGatewaysForClusters_def
  convergeOnClustersForGatewayDNS_def collectGateway_def getLoadBalancerServiceForCluster_def convergeOne_def
  isLoadBalancer_iff mem_mgmt_def mem_gdns_def mem_svcs_def found_def ex_reconciler_def ex_up_def ex_up'_def ex_gw_def
  gd_key_def slash_kube_def newNamespacedNameFromString_def io_of_def io_err_def

lemma ex_reconcile:
  "GatewayDNSReconciler_Reconcile slash_kube insertion_order mem_api mem_mgmt ex_reconciler ex_gw ex_up = (Ok (), ex_up')"
  by (simp add: reconcile_run_defs converge_run_defs)

lemma ex_reconciler_ok: "col_Namespace (gr_ClusterGatewayCollector ex_reconciler) = gr_Namespace ex_reconciler"
  by (simp add: ex_reconciler_def ex_collector_def)

theorem Reconcile_converges_namespace_witness:
  "\<exists>gws. collected slash_kube mem_api mem_view mem_mgmt_view ex_collector ex_gdns ex_up gws \<and>
     namespace_converged mem_view mem_mgmt_view slash_kube ''xcc'' ex_gw gws ex_up ex_up'"
  using Reconcile_converges_namespace [OF mem_gdc.gatewaydns_controller_axioms ex_reconciler_ok ex_reconcile]
  by (simp add: mem_mgmt_view_def mem_gdns_def ex_up_def ex_world_def ex_gw_def ex_reconciler_def)

lemma announced_unless_unqueried:
  assumes ctl: "gatewaydns_controller A V cluster_of M MV R K"
    and cfg: "col_Namespace (gr_ClusterGatewayCollector r) = gr_Namespace r"
    and run: "GatewayDNSReconciler_Reconcile K R A M r req w = (Ok (), w')" and g: "gdns MV w req = Some g"
    and svc: "svc = newNamespacedNameFromString K (spec_Service (gd_Spec g))"
    and c: "clusters MV w (cl_key c) = Some c" "cl_Namespace c = Namespace req" "gr_Namespace r \<in> nss V w (cl_key c)"
    and c2: "c2 \<in> selected_clusters K MV w g"
    and s: "svcs V w (cl_key c2) svc = Some s" "svc_Type s = ServiceTypeLoadBalancer" "svc_Ingress s \<noteq> []"
    and k: "k = \<lparr>Namespace = gr_Namespace r, Name = sliceNameOf (cl_key c2)\<rparr>"
  shows "(\<exists>e. objs V w' (cl_key c) k = Some e \<and>
      announces K req (hostnameOf (gr_ClusterGatewayCollector r) c2) (map ing_IP (svc_Ingress s)) e)
    \<or> ((\<exists>v. same_objects V w v \<and> \<not> query_ok A svc c2 v) \<and>
       map_option strip (objs V w' (cl_key c) k) = map_option strip (objs V w (cl_key c) k))"
proof -
  let ?e = "gr_ClusterGatewayCollector r"
  from gatewaydns_controller.Reconcile_spec [OF ctl run cfg] g obtain gws where
    col: "collected K A V MV ?e g w gws" and conv: "namespace_converged V MV K (gr_Namespace r) req gws w w'" by auto
  have key: "gd_key g = req"
    using ctl g by (auto simp: gatewaydns_controller_def controller_world_def dest: mgmt_world.gdns_key)
  have ok: "gateways_ok (gr_Namespace r) req gws" using collected_gateways_ok [OF col] cfg key by simp
  have spec: "stripped (objs V w' (cl_key c)) = converge_spec K (gr_Namespace r) req gws (stripped (objs V w (cl_key c)))"
    using conv c by (simp add: namespace_converged_def converged_def)
  from gateway_at_collected(2) [OF col svc c2] obtain v where v: "same_objects V w v" and
    at: "\<And>cg. gateways_of ?e g (Some s) (query_ok A svc c2 v) c2 = [cg] \<Longrightarrow> gateway_at gws (sliceNameOf (cl_key c2)) = Some cg"
    unfolding s(1) by blast
  show ?thesis
  proof (cases "query_ok A svc c2 v")
    case True
    with s(2,3) have "gateway_at gws (sliceNameOf (cl_key c2)) = Some (clusterGatewayOf ?e g c2 (Some s) False)"
      by (intro at) (simp add: gateways_of_def)
    from converge_spec_announces [OF ok this _ _ spec, of s] show ?thesis
      by (simp add: k gatewayHostname_of getExternalIPsFromStatus_def)
  next
    case False
    then have "gateway_at gws (sliceNameOf (cl_key c2)) = Some (clusterGatewayOf ?e g c2 None True)"
      by (intro at) (simp add: gateways_of_def)
    from converge_spec_unreachable [OF this, of K "gr_Namespace r" req "stripped (objs V w (cl_key c))"] spec
    have "stripped (objs V w' (cl_key c)) k = stripped (objs V w (cl_key c)) k" by (simp add: k)
    with v False show ?thesis by (auto simp: stripped_def)
  qed
qed

text \<open>
  C2. After a reconciliation without error, every cluster of the namespace that has the
  controller's namespace announces every gateway that the GatewayDNS selects: for a selected
  cluster whose service is of type LoadBalancer with an ingress there is a slice with the host
  name \<open>*.gateway.<cluster>.<namespace>.clusters.<suffix>\<close> and the load balancer's addresses.
  The only exception is a cluster that did not answer when it was queried; its slice is then
  as before.
\<close>

theorem Reconcile_announces_gateways:
  assumes ctl: "gatewaydns_controller A V cluster_of M MV R K"
    and cfg: "col_Namespace (gr_ClusterGatewayCollector r) = gr_Namespace r"
    and run: "GatewayDNSReconciler_Reconcile K R A M r req w = (Ok (), w')" and g: "gdns MV w req = Some g"
    and svc: "svc = newNamespacedNameFromString K (spec_Service (gd_Spec g))"
    and c: "clusters MV w (cl_key c) = Some c" "cl_Namespace c = Namespace req" "gr_Namespace r \<in> nss V w (cl_key c)"
    and c2: "c2 \<in> selected_clusters K MV w g"
    and s: "svcs V w (cl_key c2) svc = Some s" "svc_Type s = ServiceTypeLoadBalancer" "svc_Ingress s \<noteq> []"
    and k: "k = \<lparr>Namespace = gr_Namespace r, Name = sliceNameOf (cl_key c2)\<rparr>"
  shows "(\<exists>e. objs V w' (cl_key c) k = Some e \<and>
      announces K req (hostnameOf (gr_ClusterGatewayCollector r) c2) (map ing_IP (svc_Ingress s)) e)
    \<or> ((\<exists>v. same_objects V w v \<and> \<not> query_ok A svc c2 v) \<and>
       map_option strip (objs V w' (cl_key c) k) = map_option strip (objs V w (cl_key c) k))"
  by (rule announced_unless_unqueried [OF ctl cfg run g svc c c2 s k])

lemma ex_gdns_view: "gdns mem_mgmt_view ex_up ex_gw = Some ex_gdns"
  by (simp add: mem_mgmt_view_def mem_gdns_def ex_up_def ex_world_def ex_gw_def)

lemma ex_cluster_view: "n \<in> set [''a'', ''b'', ''c''] \<Longrightarrow> clusters mem_mgmt_view ex_up (cl_key (ex_cluster n)) = Some (ex_cluster n)"
  by (auto simp: mem_mgmt_view_def mem_clusters_def ex_up_def ex_world_def ex_cluster_def cl_key_def)

lemma ex_selected: "ex_cluster ''a'' \<in> selected_clusters slash_kube mem_mgmt_view ex_up ex_gdns"
  using ex_cluster_view [of "''a''"]
  by (simp add: selected_clusters_def slash_kube_def ex_gdns_def) (simp add: ex_cluster_def)

theorem Reconcile_announces_gateways_witness:
  "\<exists>e. mem_objs ex_up' (cl_key (ex_cluster ''c'')) \<lparr>Namespace = ''xcc'', Name = ''dev-a-gateway''\<rparr> = Some e \<and>
     announces slash_kube ex_gw ''*.gateway.a.dev.clusters.xcc.test'' [''1.2.3.4'', ''1.2.3.5''] e"
proof -
  let ?svc = "newNamespacedNameFromString slash_kube (spec_Service (gd_Spec ex_gdns))"
  have svc: "?svc = \<lparr>Namespace = ''ingress'', Name = ''envoy''\<rparr>" by code_simp
  have ns: "cl_Namespace (ex_cluster ''c'') = Namespace ex_gw" "gr_Namespace ex_reconciler \<in> nss mem_view ex_up (cl_key (ex_cluster ''c''))"
    by (simp_all add: ex_cluster_def ex_gw_def ex_gdns_def gd_key_def ex_reconciler_def mem_view_def mem_nss_def ex_up_def ex_world_def)
  have s: "svcs mem_view ex_up (cl_key (ex_cluster ''a'')) ?svc = Some ex_lb" "svc_Type ex_lb = ServiceTypeLoadBalancer" "svc_Ingress ex_lb \<noteq> []"
    by (simp_all add: svc mem_view_def mem_svcs_def ex_up_def ex_world_def ex_lb_def)
  have "mem_objs ex_up' (cl_key (ex_cluster ''c'')) (es_key ex_want) = Some ex_want" by (simp add: ex_up'_def)
  moreover have "es_key ex_want = \<lparr>Namespace = ''xcc'', Name = ''dev-a-gateway''\<rparr>" by (simp add: converge_run_defs)
  ultimately have here: "mem_objs ex_up' (cl_key (ex_cluster ''c'')) \<lparr>Namespace = ''xcc'', Name = ''dev-a-gateway''\<rparr> = Some ex_want"
    by simp
  have "mem_objs ex_up (cl_key (ex_cluster ''c'')) k = None" for k by (simp add: mem_objs_def ex_up_def ex_world_def)
  with here Reconcile_announces_gateways [OF mem_gdc.gatewaydns_controller_axioms ex_reconciler_ok ex_reconcile ex_gdns_view refl
      ex_cluster_view ns ex_selected s refl]
  show ?thesis
    by (auto simp: hostnameOf_def sliceNameOf_def ex_reconciler_def ex_collector_def ex_cluster_def cl_key_def ex_lb_def mem_view_def)
qed

text \<open>
  C5. No stale announcements: after a reconciliation without error, a slice of the GatewayDNS in
  the controller's namespace of a cluster (of the GatewayDNS's namespace) belongs to a cluster
  that the selector matches and whose gateway has an external address or could not be queried.
  In particular, once the GatewayDNS has been deleted, none of its slices is left.
\<close>

theorem Reconcile_leaves_no_stale_slice:
  assumes ctl: "gatewaydns_controller A V cluster_of M MV R K"
    and cfg: "col_Namespace (gr_ClusterGatewayCollector r) = gr_Namespace r"
    and run: "GatewayDNSReconciler_Reconcile K R A M r req w = (Ok (), w')"
    and c: "clusters MV w (cl_key c) = Some c" "cl_Namespace c = Namespace req" "gr_Namespace r \<in> nss V w (cl_key c)"
    and e: "objs V w' (cl_key c) k = Some e" "ownedBy K req e" "Namespace k = gr_Namespace r"
  shows "\<exists>g c2. gdns MV w req = Some g \<and> c2 \<in> selected_clusters K MV w g \<and> Name k = sliceNameOf (cl_key c2) \<and>
    (let svc = newNamespacedNameFromString K (spec_Service (gd_Spec g)) in
      (\<exists>s. svcs V w (cl_key c2) svc = Some s \<and> svc_Type s = ServiceTypeLoadBalancer \<and> svc_Ingress s \<noteq> [])
      \<or> (\<exists>v. same_objects V w v \<and> \<not> query_ok A svc c2 v))"
proof -
  let ?e = "gr_ClusterGatewayCollector r"
  note spec = gatewaydns_controller.Reconcile_spec [OF ctl run cfg]
  have at: "gateway_at gws (Name k) \<noteq> None" if "namespace_converged V MV K (gr_Namespace r) req gws w w'" for gws
  proof (rule converge_spec_owned)
    have "stripped (objs V w' (cl_key c)) = converge_spec K (gr_Namespace r) req gws (stripped (objs V w (cl_key c)))"
      using that c by (simp add: namespace_converged_def converged_def)
    then show "converge_spec K (gr_Namespace r) req gws (stripped (objs V w (cl_key c))) k = Some (strip e)"
      using e(1) by (metis option.simps(9) stripped_def)
  qed (use e in simp_all)
  show ?thesis
  proof (cases "gdns MV w req")
    case None
    with spec at [of "[]"] show ?thesis by (auto simp: gateway_at_def)
  next
    case (Some g)
    with spec obtain gws where col: "collected K A V MV ?e g w gws"
      and conv: "namespace_converged V MV K (gr_Namespace r) req gws w w'" by auto
    from at [OF conv] obtain cg where "gateway_at gws (Name k) = Some cg" by blast
    from gateway_at_collected(1) [OF col refl this] Some show ?thesis
      by (auto simp: gateways_of_def Let_def split: if_splits option.splits)
  qed
qed

theorem Reconcile_leaves_no_stale_slice_witness:
  "\<exists>c2. c2 \<in> selected_clusters slash_kube mem_mgmt_view ex_up ex_gdns \<and> ''dev-a-gateway'' = sliceNameOf (cl_key c2)"
proof -
  have ns: "cl_Namespace (ex_cluster ''c'') = Namespace ex_gw" "gr_Namespace ex_reconciler \<in> nss mem_view ex_up (cl_key (ex_cluster ''c''))"
    by (simp_all add: ex_cluster_def ex_gw_def ex_gdns_def gd_key_def ex_reconciler_def mem_view_def mem_nss_def ex_up_def ex_world_def)
  have key: "es_key ex_want = \<lparr>Namespace = ''xcc'', Name = ''dev-a-gateway''\<rparr>" by (simp add: converge_run_defs)
  have here: "objs mem_view ex_up' (cl_key (ex_cluster ''c'')) (es_key ex_want) = Some ex_want"
    by (simp add: ex_up'_def mem_view_def)
  have own: "ownedBy slash_kube ex_gw ex_want"
    by (simp add: ownedBy_def converge_run_defs gd_key_def ex_gw_def)
  have "Namespace (es_key ex_want) = gr_Namespace ex_reconciler" by (simp only: key) (simp add: ex_reconciler_def)
  from Reconcile_leaves_no_stale_slice [OF mem_gdc.gatewaydns_controller_axioms ex_reconciler_ok ex_reconcile
      ex_cluster_view ns here own this] ex_gdns_view show ?thesis
    by (auto simp only: key NamespacedName.simps list.set insert_iff option.inject simp_thms)
qed

context gatewaydns_controller
begin

lemma matchingRequests_ok:
  "\<exists>reqs. matchingRequests K ls gs = Ok reqs \<and>
     set reqs = {gd_key g | g. g \<in> set gs \<and>
       (case LabelSelectorAsSelector K (ClusterSelector (gd_Spec g)) of
          Ok matches \<Rightarrow> matches ls | Err e \<Rightarrow> False | Panic p \<Rightarrow> False)}"
proof (induction gs)
  case (Cons g gs)
  then obtain reqs where reqs: "matchingRequests K ls gs = Ok reqs"
    "set reqs = {gd_key g | g. g \<in> set gs \<and>
       (case LabelSelectorAsSelector K (ClusterSelector (gd_Spec g)) of
          Ok matches \<Rightarrow> matches ls | Err e \<Rightarrow> False | Panic p \<Rightarrow> False)}" by blast
  show ?case
  proof (cases "LabelSelectorAsSelector K (ClusterSelector (gd_Spec g))")
    case (Ok m)
    with reqs show ?thesis by (auto simp: gd_key_literal)
  next
    case (Err e)
    with reqs show ?thesis by auto
  qed (use selector_returns in blast)
qed simp

lemma ClusterToGatewayDNS_spec:
  assumes "ClusterToGatewayDNS K M c w = (res, w')"
  shows "\<exists>reqs. res = Ok reqs \<and> same_objects V w w' \<and> same_mgmt MV w w' \<and>
    (reqs = [] \<and> \<not> is_Ok (fst (listGatewayDNS M (Some (cl_Namespace c)) w)) \<or>
     set reqs = {gd_key g | g. gdns MV w (gd_key g) = Some g \<and> gd_Namespace g = cl_Namespace c \<and>
       (case LabelSelectorAsSelector K (ClusterSelector (gd_Spec g)) of
          Ok matches \<Rightarrow> matches (cl_Labels c) | Err e \<Rightarrow> False | Panic p \<Rightarrow> False)})"
  using assms unfolding ClusterToGatewayDNS_def
proof (cases rule: io_handle_cases)
  case (Ok gs w1)
  from matchingRequests_ok [of "cl_Labels c" gs] obtain reqs where reqs: "matchingRequests K (cl_Labels c) gs = Ok reqs"
    "set reqs = {gd_key g | g. g \<in> set gs \<and>
       (case LabelSelectorAsSelector K (ClusterSelector (gd_Spec g)) of
          Ok matches \<Rightarrow> matches (cl_Labels c) | Err e \<Rightarrow> False | Panic p \<Rightarrow> False)}" by blast
  have gs: "g \<in> set gs \<longleftrightarrow> gdns MV w (gd_key g) = Some g \<and> gd_Namespace g = cl_Namespace c" for g
    using listGatewayDNS_ok [OF Ok(1)] by auto
  show ?thesis using Ok(2) reqs listGatewayDNS_apart [OF Ok(1)] listGatewayDNS_keeps [OF Ok(1)]
    unfolding gs by auto
next
  case (Err e w1)
  then show ?thesis using listGatewayDNS_apart [OF Err(1)] listGatewayDNS_keeps [OF Err(1)] by auto
next
  case (Panic p)
  with listGatewayDNS_returns show ?thesis by blast
qed

end

text \<open>
  C23. A change of a Cluster object requests the reconciliation of exactly those GatewayDNS whose
  selection contains the cluster, that is, those for which \<open>ListMatchingClusters\<close> would return
  it; a GatewayDNS with an invalid selector does not keep the others from being requested. When
  the GatewayDNS objects cannot be listed, nothing is requested. The call changes nothing and
  never panics.
\<close>

theorem ClusterToGatewayDNS_inverts_selection:
  assumes "gatewaydns_controller A V cluster_of M MV R K" and "clusters MV w (cl_key c) = Some c"
    and "ClusterToGatewayDNS K M c w = (res, w')"
  shows "\<exists>reqs. res = Ok reqs \<and> same_objects V w w' \<and> same_mgmt MV w w' \<and>
    (if is_Ok (fst (listGatewayDNS M (Some (cl_Namespace c)) w))
     then set reqs = {k. \<exists>g. gdns MV w k = Some g \<and> c \<in> selected_clusters K MV w g}
     else reqs = [])"
proof -
  have key: "gd_key g = k" if "gdns MV w k = Some g" for g k
    using assms(1) that by (auto simp: gatewaydns_controller_def controller_world_def dest: mgmt_world.gdns_key)
  have "{gd_key g | g. gdns MV w (gd_key g) = Some g \<and> gd_Namespace g = cl_Namespace c \<and>
       (case LabelSelectorAsSelector K (ClusterSelector (gd_Spec g)) of
          Ok matches \<Rightarrow> matches (cl_Labels c) | Err e \<Rightarrow> False | Panic p \<Rightarrow> False)}
      = {k. \<exists>g. gdns MV w k = Some g \<and> c \<in> selected_clusters K MV w g}"
    using key assms(2) unfolding selected_clusters_def mem_Collect_eq set_eq_iff by metis
  moreover have "reqs = []" if "\<not> is_Ok (fst (listGatewayDNS M (Some (cl_Namespace c)) w))" "res = Ok reqs" for reqs
    using that assms(3) by (auto simp: ClusterToGatewayDNS_def io_handle_def split: prod.splits go_result.splits)
  ultimately show ?thesis
    using gatewaydns_controller.ClusterToGatewayDNS_spec [OF assms(1,3)] by (auto split: if_split)
qed

theorem ClusterToGatewayDNS_inverts_selection_witness:
  "\<exists>reqs. ClusterToGatewayDNS slash_kube mem_mgmt (ex_cluster ''a'') ex_up = (Ok reqs, ex_up) \<and> ex_gw \<in> set reqs"
proof -
  obtain res w' where run: "ClusterToGatewayDNS slash_kube mem_mgmt (ex_cluster ''a'') ex_up = (res, w')" by fastforce
  have "w' = ex_up" and list: "is_Ok (fst (listGatewayDNS mem_mgmt (Some (cl_Namespace (ex_cluster ''a''))) ex_up))"
    using run by (auto simp: ClusterToGatewayDNS_def mem_mgmt_def io_handle_def io_of_def)
  moreover from ClusterToGatewayDNS_inverts_selection [OF mem_gdc.gatewaydns_controller_axioms ex_cluster_view run]
    list ex_gdns_view ex_selected
  obtain reqs where "res = Ok reqs" "ex_gw \<in> set reqs" by auto
  ultimately show ?thesis using run by blast
qed

text \<open>The requests of a round that lists the GatewayDNS objects in state \<open>v\<close>\<close>

definition round_requests :: "'w mgmt_api \<Rightarrow> 'w mgmt_view \<Rightarrow> 'w \<Rightarrow> NamespacedName list \<Rightarrow> 'w \<Rightarrow> bool" where
  "round_requests M MV w reqs v \<longleftrightarrow>
     set reqs = (if is_Ok (fst (listGatewayDNS M None v)) then dom (gdns MV w) else {})"

context mgmt_world
begin

lemma pollRound_spec:
  assumes "pollRound M w = (res, w')"
  shows "\<exists>reqs. res = Ok reqs \<and> same_mgmt MV w w' \<and> round_requests M MV w reqs w"
  using assms unfolding pollRound_def
proof (cases rule: io_handle_cases)
  case (Ok gs w1)
  have gs: "g \<in> set gs \<longleftrightarrow> gdns MV w (gd_key g) = Some g" for g
    using listGatewayDNS_ok [OF Ok(1)] by simp
  have "gd_key ` set gs = dom (gdns MV w)"
  proof (intro set_eqI iffI)
    fix k assume "k \<in> dom (gdns MV w)"
    then obtain g where "gdns MV w k = Some g" by blast
    with gdns_key [OF this] gs show "k \<in> gd_key ` set gs" by blast
  qed (use gs in blast)
  with Ok listGatewayDNS_keeps [OF Ok(1)] show ?thesis by (auto simp: gd_key_literal round_requests_def)
next
  case (Err e w1)
  with listGatewayDNS_keeps [OF Err(1)] show ?thesis by (auto simp: round_requests_def)
next
  case (Panic p)
  with listGatewayDNS_returns show ?thesis by blast
qed

lemma PollGatewayDNS_spec:
  assumes "PollGatewayDNS n M w = (res, w')"
  shows "\<exists>rounds ws. res = Ok rounds \<and> length rounds = n \<and> length ws = n \<and> same_mgmt MV w w' \<and>
    list_all2 (round_requests M MV w) rounds ws"
  using assms
proof (induction n arbitrary: w res)
  case 0
  then show ?case by (simp add: same_mgmt_def)
next
  case (Suc n)
  obtain r1 w1 where one: "pollRound M w = (r1, w1)" by fastforce
  from pollRound_spec [OF one] obtain reqs where r1: "r1 = Ok reqs" and s1: "same_mgmt MV w w1"
    and reqs: "round_requests M MV w reqs w" by blast
  obtain r2 where rest: "PollGatewayDNS n M w1 = (r2, w')"
    and res: "res = (case r2 of Ok rs \<Rightarrow> Ok (reqs # rs) | Err er \<Rightarrow> Err er | Panic p \<Rightarrow> Panic p)"
    using Suc.prems one r1 by (auto simp: io_bind_def io_return_def split: prod.splits go_result.splits)
  from Suc.IH [OF rest] obtain rounds ws where "r2 = Ok rounds" "length rounds = n" "length ws = n" "same_mgmt MV w1 w'"
    "list_all2 (round_requests M MV w1) rounds ws"
    by blast
  moreover have "round_requests M MV w1 = round_requests M MV w"
    using s1 by (intro ext) (simp add: round_requests_def same_mgmt_def)
  ultimately show ?case using res reqs s1
    by (intro exI [of _ "reqs # rounds"] exI [of _ "w # ws"]) (simp add: same_mgmt_def)
qed

end



section \<open>Events\<close>

text \<open>
  What the handlers promise: a request for every object of the event, where an update has the object
  before and after, and for a function the requests it returns for these objects. \<open>h\<close> is what the
  handler does about requests that occur twice.
\<close>

primrec io_collect :: "('a \<Rightarrow> ('w, 'b list) io) \<Rightarrow> 'a list \<Rightarrow> ('w, 'b list) io" where
  "io_collect f [] = io_return []"
| "io_collect f (x # xs) = io_bind (f x) (\<lambda>ys. io_bind (io_collect f xs) (\<lambda>zs. io_return (ys @ zs)))"

locale event_handlers =
  fixes H :: "'w handler_lib"
  assumes for_object: "set (EnqueueRequestForObject H e) = gd_key ` set (event_objects e)"
    and map_func: "\<exists>h. (\<forall>rs. set (h rs) = set rs) \<and>
      EnqueueRequestsFromMapFunc H f ev = io_bind (io_collect f (event_objects ev)) (\<lambda>rs. io_return (h rs))"

definition simple_handlers :: "'w handler_lib" where
  "simple_handlers = \<lparr>EnqueueRequestForObject = (\<lambda>e. remdups (map gd_key (event_objects e))),
     EnqueueRequestsFromMapFunc = (\<lambda>f e. io_bind (io_collect f (event_objects e)) (\<lambda>rs. io_return (remdups rs)))\<rparr>"

interpretation simple_handlers: event_handlers simple_handlers
  by unfold_locales (auto simp: simple_handlers_def intro: exI [of _ remdups])

text \<open>The GatewayDNS selects the cluster, whether or not the cluster still exists.\<close>

definition selects :: "kube_lib \<Rightarrow> GatewayDNS \<Rightarrow> Cluster \<Rightarrow> bool" where
  "selects K g c \<longleftrightarrow> gd_Namespace g = cl_Namespace c \<and>
     (case LabelSelectorAsSelector K (ClusterSelector (gd_Spec g)) of
        Ok matches \<Rightarrow> matches (cl_Labels c) | Err e \<Rightarrow> False | Panic p \<Rightarrow> False)"

definition selecting :: "kube_lib \<Rightarrow> 'w mgmt_view \<Rightarrow> 'w \<Rightarrow> Cluster list \<Rightarrow> NamespacedName set" where
  "selecting K MV w cs = {k. \<exists>g. gdns MV w k = Some g \<and> (\<exists>c\<in>set cs. selects K g c)}"

context gatewaydns_controller
begin

lemma ClusterToGatewayDNS_selecting:
  assumes "ClusterToGatewayDNS K M c w = (res, w')" and "\<And>n v. is_Ok (fst (listGatewayDNS M n v))"
  shows "\<exists>reqs. res = Ok reqs \<and> same_mgmt MV w w' \<and> set reqs = selecting K MV w [c]"
proof -
  have "selecting K MV w [c] = {k. \<exists>g. gdns MV w k = Some g \<and> selects K g c}" by (simp add: selecting_def)
  also have "\<dots> = {gd_key g | g. gdns MV w (gd_key g) = Some g \<and> selects K g c}"
    unfolding mem_Collect_eq set_eq_iff using gdns_key by metis
  finally have "{gd_key g | g. gdns MV w (gd_key g) = Some g \<and> gd_Namespace g = cl_Namespace c \<and>
       (case LabelSelectorAsSelector K (ClusterSelector (gd_Spec g)) of
          Ok matches \<Rightarrow> matches (cl_Labels c) | Err e \<Rightarrow> False | Panic p \<Rightarrow> False)} = selecting K MV w [c]"
    by (simp only: selects_def)
  with ClusterToGatewayDNS_spec [OF assms(1)] assms(2) show ?thesis by auto
qed

lemma collect_selecting:
  assumes "io_collect (ClusterToGatewayDNS K M) cs w = (res, w')" and "\<And>n v. is_Ok (fst (listGatewayDNS M n v))"
  shows "\<exists>reqs. res = Ok reqs \<and> same_mgmt MV w w' \<and> set reqs = selecting K MV w cs"
  using assms(1)
proof (induction cs arbitrary: w res)
  case Nil
  then show ?case by (auto simp: io_return_def same_mgmt_def selecting_def)
next
  case (Cons c cs)
  obtain r1 w1 where one: "ClusterToGatewayDNS K M c w = (r1, w1)" by fastforce
  from ClusterToGatewayDNS_selecting [OF one assms(2)] obtain reqs where r1: "r1 = Ok reqs" "same_mgmt MV w w1"
    "set reqs = selecting K MV w [c]" by blast
  obtain r2 w2 where rest: "io_collect (ClusterToGatewayDNS K M) cs w1 = (r2, w2)" by fastforce
  from Cons.IH [of w1 r2] rest one r1(1) Cons.prems obtain reqs' where r2: "r2 = Ok reqs'" "same_mgmt MV w1 w2"
    "set reqs' = selecting K MV w1 cs" by (auto simp: io_bind_def io_return_def split: go_result.splits)
  have "selecting K MV w1 cs = selecting K MV w cs" using r1(2) by (simp add: selecting_def same_mgmt_def)
  moreover have "selecting K MV w (c # cs) = selecting K MV w [c] \<union> selecting K MV w cs" by (auto simp: selecting_def)
  ultimately show ?case using Cons.prems one r1 rest r2
    by (auto simp: io_bind_def io_return_def same_mgmt_def)
qed

end



end
