(* ===== verification/Name_Resolution.thy ===== *)
theory Name_Resolution
  imports CrossCluster_Plugin GatewayDNS_Controller
begin

text \<open>
  The way of a gateway's host name through the system: the controller of the management cluster
  writes it, as a wildcard, into an EndpointSlice of a workload cluster, the controller of that
  cluster's DNS server puts the slice into its record cache, and the plugin answers queries for
  the names below the wildcard. The lemmas here connect the three components; the root theory
  states the property of the whole.
\<close>

section \<open>Names below a wildcard\<close>

text \<open>Names whose labels are in lower case and need no escape\<close>

definition plain_host :: "string \<Rightarrow> bool" where
  "plain_host name \<longleftrightarrow> (\<forall>l\<in>set (strings_Split name CHR ''.''). plain_label l \<and> strings_ToLower l = l)"

lemma last_Join:
  "xs \<noteq> [] \<Longrightarrow> last xs \<noteq> [] \<Longrightarrow> last (strings_Join xs sep) = last (last xs) \<and> strings_Join xs sep \<noteq> []"
  by (induction xs sep rule: strings_Join.induct) auto

lemma plain_name_Join:
  assumes "\<forall>l\<in>set labels. plain_label l"
  shows "plain_name (strings_Join labels ''.'')"
proof -
  have "plain_char c" if "c \<in> set (strings_Join labels ''.'')" for c
  proof -
    from set_Join [OF that] consider "c = CHR ''.''" | l where "l \<in> set labels" "c \<in> set l" by auto
    then show ?thesis by cases (use assms in \<open>auto simp: plain_label_def plain_char_def\<close>)
  qed
  then show ?thesis by (simp add: plain_name_def)
qed

context dns_names
begin

lemma canon_wildcard:
  assumes "labels \<noteq> []" and "\<forall>l\<in>set labels. plain_label l \<and> strings_ToLower l = l"
  shows "CanonicalName L (''*.'' @ strings_Join labels ''.'') = wildcard labels"
proof -
  let ?s = "strings_Join (''*'' # labels) ''.''"
  have all: "\<forall>l\<in>set (''*'' # labels). plain_label l \<and> strings_ToLower l = l"
    using assms(2) by (simp add: plain_label_def plain_char_def strings_ToLower_def lower_char_def)
  have last: "last labels \<noteq> []" "last (last labels) \<noteq> CHR ''.''"
    using assms by (metis last_in_set plain_label_def)+
  with last_Join [of "''*'' # labels" "''.''"] assms(1) have "last ?s \<noteq> CHR ''.''" "?s \<noteq> []" by simp_all
  moreover have "plain_name ?s" by (rule plain_name_Join) (use all in blast)
  ultimately have "CanonicalName L ?s = CanonicalName L (fq (''*'' # labels))"
    by (simp add: canon_dot fq_def)
  also have "\<dots> = fq (''*'' # labels)" by (rule canon_fq [OF all])
  finally show ?thesis using assms(1) by (simp add: fq_def wildcard_def Join_Cons)
qed

lemma Lookup_below:
  assumes "cache_wf L d" and "labels \<noteq> []" and "\<forall>l\<in>set (x # labels). plain_label l \<and> strings_ToLower l = l"
    and "entriesOf d (fq (x # labels)) = None" and "entriesOf d (wildcard labels) = Some es"
  shows "Lookup L d (fq (x # labels)) = es"
proof -
  have "CanonicalName L (fq (x # labels)) = fq (x # labels)" by (rule canon_fq [OF assms(3)])
  moreover have "SplitDomainName L (fq (x # labels)) = x # labels" using assms(3) by (intro split_plain) auto
  moreover have "\<not> nilMaps d" using nilMaps_wf [OF assms(1)] assms(5) by auto
  ultimately show ?thesis using assms(4,5) by (simp add: Lookup_def)
qed

text \<open>A resource that alone carries a wildcard answers for the names below it that have no entry of their own.\<close>

lemma Lookup_wildcard_of:
  assumes wf: "cache_wf L d" and name: "plain_host name" "plain_label x" "strings_ToLower x = x"
    and e: "LookupByResourceKey d (ResourceKey e) = Some e" "CanonicalName L (FQDN e) = CanonicalName L (''*.'' @ name)"
    and own: "\<And>e'. LookupByResourceKey d (ResourceKey e') = Some e' \<Longrightarrow>
      CanonicalName L (FQDN e') = CanonicalName L (''*.'' @ name) \<Longrightarrow> e' = e"
    and free: "entriesOf d (x @ ''.'' @ name @ ''.'') = None"
  shows "Lookup L d (x @ ''.'' @ name @ ''.'') = [e]"
proof -
  let ?ls = "strings_Split name CHR ''.''"
  have ls: "?ls \<noteq> []" "\<forall>l\<in>set ?ls. plain_label l \<and> strings_ToLower l = l" "strings_Join ?ls ''.'' = name"
    using name(1) by (simp_all add: plain_host_def Join_Split)
  have fq: "fq (x # ?ls) = x @ ''.'' @ name @ ''.''" using ls(1,3) by (simp add: fq_def Join_Cons)
  have wild: "CanonicalName L (''*.'' @ name) = wildcard ?ls" using canon_wildcard [OF ls(1,2)] ls(3) by simp
  let ?es = "mapGet (entriesOf d) (wildcard ?ls)"
  have "set ?es = {e}" unfolding entries_by_key [OF wf] wild [symmetric] using e own by blast
  moreover have "distinct ?es"
    using wf indexed_distinct [of "entriesOf d" "keysOf d"] by (auto simp: cache_wf_def distinct_map)
  ultimately have es: "?es = [e]" by (intro distinct_singleton)
  then have "entriesOf d (wildcard ?ls) = Some [e]" by (cases "entriesOf d (wildcard ?ls)") auto
  with Lookup_below [OF wf ls(1)] ls(2) name free show ?thesis unfolding fq [symmetric] by simp
qed

end

section \<open>From a slice to the addresses that the plugin hands out\<close>

text \<open>The addresses of a gateway that the DNS server keeps: those that are IP addresses, in normal form\<close>

definition resolved :: "string list \<Rightarrow> string list" where
  "resolved ips = map ip_String (List.map_filter ParseIP ips)"

lemma resolved_ParseIP: "h \<in> set (resolved ips) \<Longrightarrow> \<exists>i\<in>set ips. \<exists>ip. ParseIP i = Some ip \<and> ParseIP h = Some ip \<and> h = ip_String ip"
  unfolding resolved_def set_map set_map_filter_eq by (blast intro: ParseIP_String_again)

lemma resolved_ipv4:
  assumes "\<forall>i\<in>set ips. ParseIP i \<noteq> None \<longrightarrow> ipv4_host i" and "h \<in> set (resolved ips)"
  shows "ipv4_host h"
  using resolved_ParseIP [OF assms(2)] assms(1) by (fastforce simp: ipv4_host_def)

lemma announces_entry:
  assumes "announces K gw hn ips e"
  shows "slice_entry key e = Some \<lparr>ResourceKey = key, FQDN = hn, Addresses = resolved ips\<rparr>"
  using assms
  by (auto simp: announces_def slice_entry_def slice_addresses_def resolved_def sliceAddresses_def flattenEndpoints_def)

lemma canonEntry_resolved:
  "Addresses (canonEntry L \<lparr>ResourceKey = key, FQDN = hn, Addresses = resolved ips\<rparr>) = resolved ips"
  by (auto simp: canonEntry_def intro!: map_idI dest: resolved_ParseIP)

context dns_controller
begin

text \<open>
  An idle DNS server hands out the addresses of a slice for every name below its wildcard, when
  no other resource carries the wildcard and the name has no entry of its own.
\<close>

lemma announced_hosts:
  assumes idle: "dns_reachable L K S" "queue S = {}" and k: "valid_name K k" "slices S k = Some e"
    and ann: "announces K gw (''*.'' @ name) ips e"
    and name: "plain_host name" "plain_label x" "strings_ToLower x = x"
    and own: "\<And>key e'. LookupByResourceKey (cache S) key = Some e' \<Longrightarrow>
      CanonicalName L (FQDN e') = CanonicalName L (''*.'' @ name) \<Longrightarrow> key = nnString K k"
    and free: "entriesOf (cache S) (x @ ''.'' @ name @ ''.'') = None"
    and q: "RecordsCache pl = cache S" "strings_ToLower q = x @ ''.'' @ name @ ''.''"
  shows "hosts L pl q = resolved ips"
proof -
  let ?e = "canonEntry L \<lparr>ResourceKey = nnString K k, FQDN = ''*.'' @ name, Addresses = resolved ips\<rparr>"
  have "dns_inv L K S" by (rule dns_reachable_inv [OF idle(1)])
  then have wf: "cache_wf L (cache S)" and "in_sync L K S k" using idle(2) k(1) by (auto simp: dns_inv_def)
  with k(2) announces_entry [OF ann, of "nnString K k"]
  have e: "LookupByResourceKey (cache S) (nnString K k) = Some ?e" by (simp add: in_sync_def)
  have "Lookup L (cache S) (x @ ''.'' @ name @ ''.'') = [?e]"
  proof (rule Lookup_wildcard_of [OF wf name])
    fix e' assume "LookupByResourceKey (cache S) (ResourceKey e') = Some e'"
      and "CanonicalName L (FQDN e') = CanonicalName L (''*.'' @ name)"
    with own e show "e' = ?e" by (metis option.inject)
  qed (use e free in \<open>simp_all add: canonEntry_name\<close>)
  then show ?thesis by (simp add: hosts_def q canonEntry_resolved)
qed

end

end
