(* ===== verification/Cache_Store.thy ===== *)
theory Cache_Store
  imports DNS_Cache
begin

text \<open>
  The record cache with its memory (\<open>pkg/controllers/endpointslicedns/cache.go\<close>). In
  \<open>DNS_Cache\<close> the entries of a name are a list; in the program they are a slice, a pointer to an
  array with a length, and the operations write into that array: \<open>Upsert\<close> overwrites an entry in
  place and appends into the spare capacity, and a removal shifts the entries behind it. A slice
  that \<open>Lookup\<close> returned still points to the array after the mutex is released.

  The theory has the operations on arrays, shows that they implement the operations of
  \<open>DNS_Cache\<close>, and what a reader sees of an array that changes.
\<close>

section \<open>Slices and arrays\<close>

text \<open>
  The slices of the cache begin at the first element of their array; the capacity is the length of
  the array.
\<close>

record slice =
  arr :: nat
  len :: nat

record cache_store =
  arrays :: "nat \<Rightarrow> DNSCacheEntry list"
  next_array :: nat
  st_entries :: "(string \<rightharpoonup> slice) option"
  st_keys :: "(string \<rightharpoonup> string) option"
  st_populated :: bool

definition zeroEntry :: DNSCacheEntry where
  "zeroEntry = \<lparr>ResourceKey = '''', FQDN = '''', Addresses = []\<rparr>"

definition readSlice :: "cache_store \<Rightarrow> slice \<Rightarrow> DNSCacheEntry list" where
  "readSlice s h = take (len h) (arrays s (arr h))"

definition slicesOf :: "cache_store \<Rightarrow> string \<rightharpoonup> slice" where
  "slicesOf s = (case st_entries s of None \<Rightarrow> Map.empty | Some m \<Rightarrow> m)"

definition st_keysOf :: "cache_store \<Rightarrow> string \<rightharpoonup> string" where
  "st_keysOf s = (case st_keys s of None \<Rightarrow> Map.empty | Some r \<Rightarrow> r)"

definition st_nilMaps :: "cache_store \<Rightarrow> bool" where
  "st_nilMaps s \<longleftrightarrow> st_entries s = None \<or> st_keys s = None"

text \<open>The entries of a name; a missing name is the \<open>nil\<close> slice.\<close>

definition readName :: "cache_store \<Rightarrow> string \<Rightarrow> DNSCacheEntry list" where
  "readName s f = (case slicesOf s f of None \<Rightarrow> [] | Some h \<Rightarrow> readSlice s h)"

text \<open>A name gets a slice whose array has the given content; a name is dropped.\<close>

definition setName :: "string \<Rightarrow> slice \<Rightarrow> DNSCacheEntry list \<Rightarrow> cache_store \<Rightarrow> cache_store" where
  "setName f h a s = s\<lparr>arrays := (arrays s)(arr h := a), next_array := max (next_array s) (Suc (arr h)),
     st_entries := Some ((slicesOf s)(f \<mapsto> h))\<rparr>"

definition dropName :: "string \<Rightarrow> cache_store \<Rightarrow> cache_store" where
  "dropName f s = s\<lparr>st_entries := Some ((slicesOf s)(f := None))\<rparr>"

section \<open>Operations\<close>

text \<open>
  \<open>append(xs[:i], xs[i+1:]...)\<close> on a slice of length \<open>n\<close>: the entries behind the \<open>i\<close>-th move
  one place to the front, the last place keeps its content.
\<close>

definition shiftArray :: "nat \<Rightarrow> nat \<Rightarrow> 'a list \<Rightarrow> 'a list" where
  "shiftArray i n a = take i a @ take (n - Suc i) (drop (Suc i) a) @ drop (n - 1) a"

definition st_removeAt :: "string \<Rightarrow> slice \<Rightarrow> nat \<Rightarrow> cache_store \<Rightarrow> cache_store" where
  "st_removeAt f h i s = setName f (h\<lparr>len := len h - 1\<rparr>) (shiftArray i (len h) (arrays s (arr h))) s"

text \<open>
  \<open>append(xs, e)\<close>: into the array while there is capacity, otherwise into a new array, whose
  capacity the run-time system chooses (\<open>grow\<close>).
\<close>

definition st_append :: "(nat \<Rightarrow> nat) \<Rightarrow> string \<Rightarrow> DNSCacheEntry \<Rightarrow> cache_store \<Rightarrow> cache_store" where
  "st_append grow f e s =
     (case slicesOf s f of
        Some h \<Rightarrow>
          if len h < length (arrays s (arr h))
          then setName f (h\<lparr>len := Suc (len h)\<rparr>) ((arrays s (arr h))[len h := e]) s
          else setName f \<lparr>arr = next_array s, len = Suc (len h)\<rparr>
                 (readSlice s h @ e # replicate (grow (len h) - Suc (len h)) zeroEntry) s
      | None \<Rightarrow> setName f \<lparr>arr = next_array s, len = 1\<rparr> (e # replicate (grow 0 - 1) zeroEntry) s)"

definition st_init :: "cache_store \<Rightarrow> cache_store" where
  "st_init s = (if st_nilMaps s then s\<lparr>st_entries := Some Map.empty, st_keys := Some Map.empty\<rparr> else s)"

definition st_leaveOld :: "string \<Rightarrow> string \<Rightarrow> cache_store \<Rightarrow> cache_store" where
  "st_leaveOld k oldFQDN s =
     (let s1 = (case slicesOf s oldFQDN of
                  None \<Rightarrow> s
                | Some h \<Rightarrow>
                    (case firstIndex (has_key k) (readSlice s h) of
                       None \<Rightarrow> s
                     | Some i \<Rightarrow> st_removeAt oldFQDN h i s))
      in if readName s1 oldFQDN = [] then dropName oldFQDN s1 else s1)"

definition st_put :: "(nat \<Rightarrow> nat) \<Rightarrow> DNSCacheEntry \<Rightarrow> string \<Rightarrow> cache_store \<Rightarrow> cache_store" where
  "st_put grow e fqdn s =
     (case slicesOf s fqdn of
        None \<Rightarrow> st_append grow fqdn e s
      | Some h \<Rightarrow>
          (case firstIndex (has_key (ResourceKey e)) (readSlice s h) of
             Some i \<Rightarrow> setName fqdn h ((arrays s (arr h))[i := e]) s
           | None \<Rightarrow> st_append grow fqdn e s))"

definition st_Upsert :: "(nat \<Rightarrow> nat) \<Rightarrow> dns_lib \<Rightarrow> cache_store \<Rightarrow> DNSCacheEntry \<Rightarrow> cache_store" where
  "st_Upsert grow L s0 entry =
     (let s = st_init s0;
          fqdn = CanonicalName L (FQDN entry);
          s1 = (case st_keysOf s (ResourceKey entry) of
                  Some oldFQDN \<Rightarrow> if oldFQDN \<noteq> fqdn then st_leaveOld (ResourceKey entry) oldFQDN s else s
                | None \<Rightarrow> s);
          s2 = st_put grow (canonEntry L entry) fqdn s1
      in s2\<lparr>st_keys := Some ((st_keysOf s)(ResourceKey entry \<mapsto> fqdn))\<rparr>)"

definition st_Delete :: "dns_lib \<Rightarrow> cache_store \<Rightarrow> string \<Rightarrow> cache_store" where
  "st_Delete L s fqdn0 =
     (if st_nilMaps s then s
      else let fqdn = CanonicalName L fqdn0 in
        dropName fqdn (s\<lparr>st_keys := Some (fold (\<lambda>e r. r(ResourceKey e := None)) (readName s fqdn) (st_keysOf s))\<rparr>))"

fun st_deleteLoop :: "string \<Rightarrow> string \<Rightarrow> slice \<Rightarrow> nat \<Rightarrow> DNSCacheEntry list \<Rightarrow> cache_store \<Rightarrow> cache_store" where
  "st_deleteLoop k fqdn h i [] s = s"
| "st_deleteLoop k fqdn h i (e # es) s =
     (if ResourceKey e = k then st_removeAt fqdn h i s
      else st_deleteLoop k fqdn h (Suc i) es (if readName s fqdn = [] then dropName fqdn s else s))"

definition st_DeleteByResourceKey :: "cache_store \<Rightarrow> string \<Rightarrow> cache_store" where
  "st_DeleteByResourceKey s k =
     (if st_nilMaps s then s
      else case st_keysOf s k of
        None \<Rightarrow> s
      | Some fqdn \<Rightarrow>
          (let s1 = (case slicesOf s fqdn of None \<Rightarrow> s | Some h \<Rightarrow> st_deleteLoop k fqdn h 0 (readSlice s h) s)
           in s1\<lparr>st_keys := Some ((st_keysOf s)(k := None))\<rparr>))"

text \<open>\<open>Lookup\<close> returns the slice itself, not a copy of its entries.\<close>

fun st_lookupWildcard :: "(string \<rightharpoonup> slice) \<Rightarrow> string list \<Rightarrow> slice option" where
  "st_lookupWildcard m [] = None"
| "st_lookupWildcard m (l # labels) =
     (case m (wildcard labels) of
        Some h \<Rightarrow> Some h
      | None \<Rightarrow> st_lookupWildcard m labels)"

definition st_Lookup :: "dns_lib \<Rightarrow> cache_store \<Rightarrow> string \<Rightarrow> slice option" where
  "st_Lookup L s fqdn0 =
     (if st_nilMaps s then None
      else let fqdn = CanonicalName L fqdn0 in
        case slicesOf s fqdn of
          Some h \<Rightarrow> Some h
        | None \<Rightarrow> st_lookupWildcard (slicesOf s) (SplitDomainName L fqdn))"

text \<open>\<open>LookupByResourceKey\<close> returns a pointer to the loop variable, which is a copy of the entry.\<close>

definition st_LookupByResourceKey :: "cache_store \<Rightarrow> string \<Rightarrow> DNSCacheEntry option" where
  "st_LookupByResourceKey s k =
     (if st_nilMaps s then None
      else case st_keysOf s k of
        None \<Rightarrow> None
      | Some fqdn \<Rightarrow> find (has_key k) (readName s fqdn))"

definition readResult :: "cache_store \<Rightarrow> slice option \<Rightarrow> DNSCacheEntry list" where
  "readResult s r = (case r of None \<Rightarrow> [] | Some h \<Rightarrow> readSlice s h)"

section \<open>Abstraction\<close>

definition cache_of :: "cache_store \<Rightarrow> DNSCache" where
  "cache_of s = \<lparr>entries = map_option (\<lambda>m f. map_option (readSlice s) (m f)) (st_entries s),
     resourceKeyToFQDN = st_keys s, isPopulated = st_populated s\<rparr>"

text \<open>The slices of different names have different arrays, and lie within them.\<close>

definition store_wf :: "cache_store \<Rightarrow> bool" where
  "store_wf s \<longleftrightarrow>
     (\<forall>f h. slicesOf s f = Some h \<longrightarrow> len h \<le> length (arrays s (arr h)) \<and> arr h < next_array s) \<and>
     (\<forall>f g h h'. slicesOf s f = Some h \<and> slicesOf s g = Some h' \<and> f \<noteq> g \<longrightarrow> arr h \<noteq> arr h')"

lemma cache_of_simps [simp]:
  "keysOf (cache_of s) = st_keysOf s" "nilMaps (cache_of s) = st_nilMaps s"
  "entriesOf (cache_of s) f = map_option (readSlice s) (slicesOf s f)"
  "mapGet (entriesOf (cache_of s)) f = readName s f"
  by (auto simp: cache_of_def keysOf_def st_keysOf_def nilMaps_def st_nilMaps_def entriesOf_def slicesOf_def
      readName_def mapGet_def split: option.splits)

lemma slicesOf_setName [simp]:
  "slicesOf (setName f h a s) = (slicesOf s)(f \<mapsto> h)" "slicesOf (dropName f s) = (slicesOf s)(f := None)"
  "st_keysOf (setName f h a s) = st_keysOf s" "st_keysOf (dropName f s) = st_keysOf s"
  "slicesOf (s\<lparr>st_keys := r\<rparr>) = slicesOf s" "readSlice (s\<lparr>st_keys := r\<rparr>) = readSlice s"
  "readSlice (dropName f s) = readSlice s"
  by (simp_all add: setName_def dropName_def slicesOf_def st_keysOf_def readSlice_def fun_eq_iff)

lemma arrays_setName:
  "arrays (setName f h a s) = (arrays s)(arr h := a)" "next_array (setName f h a s) = max (next_array s) (Suc (arr h))"
  by (simp_all add: setName_def)

text \<open>The effect of giving a name a slice: its own array or a new one\<close>

lemma setName_refines:
  assumes "store_wf s" and "(\<exists>h0. slicesOf s f = Some h0 \<and> arr h0 = arr h) \<or> arr h = next_array s" and "len h \<le> length a"
  shows "store_wf (setName f h a s)" and "entriesOf (cache_of (setName f h a s)) = (entriesOf (cache_of s))(f \<mapsto> take (len h) a)"
proof -
  have other: "arr h' \<noteq> arr h" if "slicesOf s g = Some h'" "g \<noteq> f" for g h'
    using assms(1,2) that unfolding store_wf_def by (metis less_irrefl)
  have "arr h' < max (next_array s) (Suc (arr h))" if "slicesOf s g = Some h'" for g h'
    using assms(1) that unfolding store_wf_def by (metis less_max_iff_disj)
  moreover have "len h' \<le> length (arrays s (arr h'))" if "slicesOf s g = Some h'" for g h'
    using assms(1) that unfolding store_wf_def by blast
  moreover have "arr h' \<noteq> arr h''" if "slicesOf s g = Some h'" "slicesOf s g' = Some h''" "g \<noteq> g'" for g g' h' h''
    using assms(1) that unfolding store_wf_def by blast
  ultimately show "store_wf (setName f h a s)"
    unfolding store_wf_def slicesOf_setName arrays_setName fun_upd_apply
    using other assms(3) by (auto split: if_splits dest: other [symmetric])
  show "entriesOf (cache_of (setName f h a s)) = (entriesOf (cache_of s))(f \<mapsto> take (len h) a)"
  proof
    fix g
    show "entriesOf (cache_of (setName f h a s)) g = ((entriesOf (cache_of s))(f \<mapsto> take (len h) a)) g"
      using other by (cases "slicesOf s g") (auto simp: readSlice_def arrays_setName)
  qed
qed

lemma dropName_refines:
  assumes "store_wf s"
  shows "store_wf (dropName f s)" and "entriesOf (cache_of (dropName f s)) = (entriesOf (cache_of s))(f := None)"
proof -
  show "store_wf (dropName f s)"
    using assms unfolding store_wf_def by (auto simp: dropName_def slicesOf_def split: if_splits option.splits)
  show "entriesOf (cache_of (dropName f s)) = (entriesOf (cache_of s))(f := None)" by auto
qed

lemma take_shiftArray:
  assumes "i < n" and "n \<le> length a"
  shows "take (n - 1) (shiftArray i n a) = removeAt i (take n a)" and "length (shiftArray i n a) = length a"
    and "take n (shiftArray i n a) = removeAt i (take n a) @ [a ! (n - 1)]"
proof -
  have front: "take i a @ take (n - Suc i) (drop (Suc i) a) = removeAt i (take n a)"
    using assms(1) by (simp add: removeAt_def drop_take min_absorb1)
  have l: "length (removeAt i (take n a)) = n - 1" using assms by (simp add: removeAt_def)
  have sh: "shiftArray i n a = removeAt i (take n a) @ drop (n - 1) a" by (simp add: shiftArray_def flip: front)
  show "take (n - 1) (shiftArray i n a) = removeAt i (take n a)" using l by (simp add: sh)
  show "length (shiftArray i n a) = length a" using l assms by (simp add: sh)
  have "take 1 (drop (n - 1) a) = [a ! (n - 1)]" using assms by (simp add: take_Suc_conv_app_nth [of 0] hd_drop_conv_nth take_Suc)
  moreover have "n - (n - 1) = 1" using assms(1) by simp
  ultimately show "take n (shiftArray i n a) = removeAt i (take n a) @ [a ! (n - 1)]" using l by (simp add: sh)
qed

lemma slice_within: "store_wf s \<Longrightarrow> slicesOf s f = Some h \<Longrightarrow> len h \<le> length (arrays s (arr h))"
  unfolding store_wf_def by blast

lemma firstIndex_less: "firstIndex P xs = Some i \<Longrightarrow> i < length xs"
  by (auto elim: firstIndex_SomeE)

lemma st_removeAt_refines:
  assumes "store_wf s" and "slicesOf s f = Some h" and "i < len h"
  shows "store_wf (st_removeAt f h i s)"
    and "entriesOf (cache_of (st_removeAt f h i s)) = (entriesOf (cache_of s))(f \<mapsto> removeAt i (readName s f))"
proof -
  note sh = take_shiftArray [OF assms(3) slice_within [OF assms(1,2)]]
  have own: "(\<exists>h0. slicesOf s f = Some h0 \<and> arr h0 = arr (h\<lparr>len := len h - 1\<rparr>)) \<or> arr (h\<lparr>len := len h - 1\<rparr>) = next_array s"
    using assms(2) by simp
  have le: "len (h\<lparr>len := len h - 1\<rparr>) \<le> length (shiftArray i (len h) (arrays s (arr h)))"
    using sh(2) slice_within [OF assms(1,2)] by simp
  show "store_wf (st_removeAt f h i s)" unfolding st_removeAt_def by (rule setName_refines(1) [OF assms(1) own le])
  show "entriesOf (cache_of (st_removeAt f h i s)) = (entriesOf (cache_of s))(f \<mapsto> removeAt i (readName s f))"
    unfolding st_removeAt_def setName_refines(2) [OF assms(1) own le]
    using sh(1) assms(2) by (simp add: readName_def readSlice_def)
qed

lemma st_append_refines:
  assumes "store_wf s"
  shows "store_wf (st_append grow f e s)"
    and "entriesOf (cache_of (st_append grow f e s)) = (entriesOf (cache_of s))(f \<mapsto> readName s f @ [e])"
proof -
  have "store_wf (st_append grow f e s) \<and>
      entriesOf (cache_of (st_append grow f e s)) = (entriesOf (cache_of s))(f \<mapsto> readName s f @ [e])"
  proof (cases "slicesOf s f")
    case None
    let ?h = "\<lparr>arr = next_array s, len = 1\<rparr>" and ?a = "e # replicate (grow 0 - 1) zeroEntry"
    have *: "(\<exists>h0. slicesOf s f = Some h0 \<and> arr h0 = arr ?h) \<or> arr ?h = next_array s" "len ?h \<le> length ?a" by simp_all
    from setName_refines [OF assms *] None show ?thesis by (simp add: st_append_def readName_def)
  next
    case (Some h)
    note le = slice_within [OF assms Some]
    show ?thesis
    proof (cases "len h < length (arrays s (arr h))")
      case True
      let ?h = "h\<lparr>len := Suc (len h)\<rparr>" and ?a = "(arrays s (arr h))[len h := e]"
      have *: "(\<exists>h0. slicesOf s f = Some h0 \<and> arr h0 = arr ?h) \<or> arr ?h = next_array s" "len ?h \<le> length ?a"
        using Some True by simp_all
      have "take (len ?h) ?a = readName s f @ [e]"
        using Some True by (simp add: readName_def readSlice_def take_Suc_conv_app_nth)
      with setName_refines [OF assms *] Some True show ?thesis by (simp add: st_append_def)
    next
      case False
      let ?h = "\<lparr>arr = next_array s, len = Suc (len h)\<rparr>"
        and ?a = "readSlice s h @ e # replicate (grow (len h) - Suc (len h)) zeroEntry"
      have *: "(\<exists>h0. slicesOf s f = Some h0 \<and> arr h0 = arr ?h) \<or> arr ?h = next_array s" "len ?h \<le> length ?a"
        using le by (simp_all add: readSlice_def)
      have "take (len ?h) ?a = readName s f @ [e]" using Some le by (simp add: readName_def readSlice_def)
      with setName_refines [OF assms *] Some False show ?thesis by (simp add: st_append_def)
    qed
  qed
  then show "store_wf (st_append grow f e s)"
    and "entriesOf (cache_of (st_append grow f e s)) = (entriesOf (cache_of s))(f \<mapsto> readName s f @ [e])" by blast+
qed

lemma readName_eq: "readName s f = mapGet (entriesOf (cache_of s)) f"
  by simp

lemma st_leaveOld_refines:
  assumes "store_wf s"
  shows "store_wf (st_leaveOld k f s) \<and> entriesOf (cache_of (st_leaveOld k f s)) = leaveOld k f (entriesOf (cache_of s))"
proof -
  define s1 where "s1 = (case slicesOf s f of None \<Rightarrow> s
      | Some h \<Rightarrow> (case firstIndex (has_key k) (readSlice s h) of None \<Rightarrow> s | Some i \<Rightarrow> st_removeAt f h i s))"
  let ?m1 = "case firstIndex (has_key k) (readName s f) of None \<Rightarrow> entriesOf (cache_of s)
      | Some i \<Rightarrow> (entriesOf (cache_of s))(f \<mapsto> removeAt i (readName s f))"
  have s1: "store_wf s1 \<and> entriesOf (cache_of s1) = ?m1"
  proof (cases "slicesOf s f")
    case None
    then show ?thesis using assms by (simp add: s1_def readName_def)
  next
    case (Some h)
    show ?thesis
    proof (cases "firstIndex (has_key k) (readSlice s h)")
      case None
      with Some assms show ?thesis by (simp add: s1_def readName_def)
    next
      case i: (Some i)
      then have "i < len h" using firstIndex_less [OF i] by (simp add: readSlice_def)
      from st_removeAt_refines [OF assms Some this] Some i show ?thesis by (simp add: s1_def readName_def)
    qed
  qed
  have "st_leaveOld k f s = (if readName s1 f = [] then dropName f s1 else s1)" by (simp add: st_leaveOld_def s1_def Let_def)
  moreover have "leaveOld k f (entriesOf (cache_of s)) = (if mapGet ?m1 f = [] then ?m1(f := None) else ?m1)"
    by (simp only: leaveOld_def Let_def cache_of_simps)
  ultimately show ?thesis using s1 dropName_refines [of s1 f] by (simp only: readName_eq split: if_split) simp
qed

lemma st_put_refines:
  assumes "store_wf s"
  shows "store_wf (st_put grow e f s) \<and> entriesOf (cache_of (st_put grow e f s)) = putEntry e f (entriesOf (cache_of s))"
proof (cases "slicesOf s f")
  case None
  then have "readName s f = []" by (simp add: readName_def)
  with st_append_refines [OF assms, of grow f e] None show ?thesis
    by (simp add: st_put_def putEntry_def del: cache_of_simps(3))
next
  case (Some h)
  then have rd: "readName s f = readSlice s h" by (simp add: readName_def)
  show ?thesis
  proof (cases "firstIndex (has_key (ResourceKey e)) (readSlice s h)")
    case None
    with st_append_refines [OF assms, of grow f e] Some rd show ?thesis
      by (simp add: st_put_def putEntry_def del: cache_of_simps(3))
  next
    case i: (Some i)
    let ?a = "(arrays s (arr h))[i := e]"
    have *: "(\<exists>h0. slicesOf s f = Some h0 \<and> arr h0 = arr h) \<or> arr h = next_array s" "len h \<le> length ?a"
      using Some slice_within [OF assms Some] by simp_all
    have "take (len h) ?a = (readSlice s h)[i := e]" by (simp add: readSlice_def take_update_swap)
    with setName_refines [OF assms *] Some i rd show ?thesis
      by (simp add: st_put_def putEntry_def del: cache_of_simps(3))
  qed
qed

text \<open>Caches with both maps, from the maps\<close>

lemma cache_of_maps:
  "\<not> st_nilMaps s \<Longrightarrow> cache_of s = \<lparr>entries = Some (entriesOf (cache_of s)), resourceKeyToFQDN = Some (st_keysOf s), isPopulated = st_populated s\<rparr>"
  by (auto simp: cache_of_def st_nilMaps_def entriesOf_def st_keysOf_def)

lemma keeps_others [simp]:
  "st_keys (setName f h a s) = st_keys s" "st_populated (setName f h a s) = st_populated s"
  "st_entries (setName f h a s) \<noteq> None" "st_keys (dropName f s) = st_keys s" "st_populated (dropName f s) = st_populated s"
  "st_entries (dropName f s) \<noteq> None"
  by (simp_all add: setName_def dropName_def)

lemma store_wf_keys [simp]: "store_wf (s\<lparr>st_keys := r\<rparr>) = store_wf s"
  by (simp add: store_wf_def)

lemma entriesOf_keys [simp]: "entriesOf (cache_of (s\<lparr>st_keys := r\<rparr>)) = entriesOf (cache_of s)"
  by (simp add: fun_eq_iff)

lemma leave_keeps [simp]: "st_populated (st_leaveOld k f s) = st_populated s"
  by (auto simp: st_leaveOld_def st_removeAt_def Let_def split: option.splits)

lemma put_keeps [simp]: "st_populated (st_put grow e f s) = st_populated s" "st_entries (st_put grow e f s) \<noteq> None"
  by (auto simp: st_put_def st_append_def simp del: not_None_eq split: option.splits)

lemma st_init_refines:
  assumes "store_wf s"
  shows "store_wf (st_init s)" and "cache_of (st_init s) = initMaps (cache_of s)" and "\<not> st_nilMaps (st_init s)"
  using assms by (auto simp: st_init_def initMaps_def) (auto simp: store_wf_def slicesOf_def cache_of_def st_nilMaps_def)

lemma st_Upsert_refines:
  assumes "store_wf s"
  shows "store_wf (st_Upsert grow L s e) \<and> cache_of (st_Upsert grow L s e) = Upsert L (cache_of s) e"
proof -
  let ?s = "st_init s" and ?f = "CanonicalName L (FQDN e)" and ?k = "ResourceKey e"
  note init = st_init_refines [OF assms]
  define s1 where "s1 = (case st_keysOf ?s ?k of Some old \<Rightarrow> if old \<noteq> ?f then st_leaveOld ?k old ?s else ?s | None \<Rightarrow> ?s)"
  define m1 where "m1 = (case st_keysOf ?s ?k of
      Some old \<Rightarrow> if old \<noteq> ?f then leaveOld ?k old (entriesOf (cache_of ?s)) else entriesOf (cache_of ?s) | None \<Rightarrow> entriesOf (cache_of ?s))"
  have s1: "store_wf s1 \<and> entriesOf (cache_of s1) = m1 \<and> st_populated s1 = st_populated ?s"
    using init(1) st_leaveOld_refines [OF init(1), of ?k]
    by (simp add: s1_def m1_def del: cache_of_simps(3) split: option.split)
  let ?s2 = "st_put grow (canonEntry L e) ?f s1"
  have s2: "store_wf ?s2" "entriesOf (cache_of ?s2) = putEntry (canonEntry L e) ?f m1"
    using st_put_refines [of s1 grow "canonEntry L e" ?f] s1 by auto
  let ?r = "(st_keysOf ?s)(?k \<mapsto> ?f)"
  have up: "st_Upsert grow L s e = ?s2\<lparr>st_keys := Some ?r\<rparr>" by (simp add: st_Upsert_def s1_def Let_def)
  have "\<not> st_nilMaps (?s2\<lparr>st_keys := Some ?r\<rparr>)" using put_keeps(2) by (simp add: st_nilMaps_def)
  from cache_of_maps [OF this] s1 s2
  have "cache_of (?s2\<lparr>st_keys := Some ?r\<rparr>) = \<lparr>entries = Some (putEntry (canonEntry L e) ?f m1), resourceKeyToFQDN = Some ?r, isPopulated = st_populated ?s\<rparr>"
    by (simp add: st_keysOf_def del: cache_of_simps(3))
  moreover have "Upsert L (cache_of s) e = (cache_of ?s)\<lparr>entries := Some (putEntry (canonEntry L e) ?f m1), resourceKeyToFQDN := Some ?r\<rparr>"
    by (simp only: Upsert_def Let_def init(2) [symmetric] cache_of_simps m1_def)
  ultimately show ?thesis using up s2(1) by (simp add: cache_of_def)
qed

lemma st_Delete_refines:
  assumes "store_wf s"
  shows "store_wf (st_Delete L s f) \<and> cache_of (st_Delete L s f) = Delete L (cache_of s) f"
proof (cases "st_nilMaps s")
  case True
  with assms show ?thesis by (simp add: st_Delete_def Delete_def)
next
  case False
  let ?f = "CanonicalName L f"
  let ?r = "fold (\<lambda>e r. r(ResourceKey e := None)) (readName s ?f) (st_keysOf s)"
  let ?s = "dropName ?f (s\<lparr>st_keys := Some ?r\<rparr>)"
  have wf: "store_wf (s\<lparr>st_keys := Some ?r\<rparr>)" using assms by simp
  have "\<not> st_nilMaps ?s" by (simp add: st_nilMaps_def del: not_None_eq)
  from cache_of_maps [OF this] dropName_refines(2) [OF wf, of ?f]
  have "cache_of ?s = \<lparr>entries = Some ((entriesOf (cache_of s))(?f := None)), resourceKeyToFQDN = Some ?r, isPopulated = st_populated s\<rparr>"
    by (simp add: st_keysOf_def del: cache_of_simps(3))
  moreover have "Delete L (cache_of s) f = (cache_of s)\<lparr>resourceKeyToFQDN := Some ?r, entries := Some ((entriesOf (cache_of s))(?f := None))\<rparr>"
    using False by (simp only: Delete_def Let_def cache_of_simps if_False)
  ultimately show ?thesis using False dropName_refines(1) [OF wf, of ?f] by (simp add: st_Delete_def Let_def) (simp add: cache_of_def)
qed

text \<open>The loop of \<open>DeleteByResourceKey\<close> removes the first entry of the resource.\<close>

lemma st_deleteLoop_eq:
  assumes "readName s f = pre @ es" and "\<forall>e\<in>set pre. ResourceKey e \<noteq> k"
  shows "st_deleteLoop k f h (length pre) es s =
    (case firstIndex (has_key k) (pre @ es) of None \<Rightarrow> s | Some i \<Rightarrow> st_removeAt f h i s)"
  using assms
proof (induction es arbitrary: pre)
  case Nil
  then have "firstIndex (has_key k) pre = None" by (simp add: firstIndex_None)
  then show ?case by simp
next
  case (Cons e es)
  show ?case
  proof (cases "ResourceKey e = k")
    case True
    with Cons.prems(2) have "firstIndex (has_key k) (pre @ e # es) = Some (length pre)"
      by (induction pre) auto
    with True show ?thesis by simp
  next
    case False
    with Cons.prems Cons.IH [of "pre @ [e]"] show ?thesis by (simp cong: option.case_cong)
  qed
qed

lemma st_DeleteByResourceKey_eq:
  assumes "\<not> st_nilMaps s" and "st_keysOf s k = Some f" and "slicesOf s f = Some h"
  shows "st_DeleteByResourceKey s k = (case firstIndex (has_key k) (readSlice s h) of None \<Rightarrow> s | Some i \<Rightarrow> st_removeAt f h i s)
      \<lparr>st_keys := Some ((st_keysOf s)(k := None))\<rparr>"
  using assms st_deleteLoop_eq [of s f "[]" "readSlice s h" k h]
  by (simp add: st_DeleteByResourceKey_def readName_def Let_def)

lemma st_DeleteByResourceKey_refines:
  assumes "store_wf s"
  shows "store_wf (st_DeleteByResourceKey s k) \<and> cache_of (st_DeleteByResourceKey s k) = DeleteByResourceKey (cache_of s) k"
proof (cases "st_nilMaps s \<or> st_keysOf s k = None")
  case True
  with assms show ?thesis by (auto simp: st_DeleteByResourceKey_def DeleteByResourceKey_def)
next
  case False
  then obtain f where nil: "\<not> st_nilMaps s" and f: "st_keysOf s k = Some f" by auto
  let ?es = "readName s f" and ?m = "entriesOf (cache_of s)" and ?r = "(st_keysOf s)(k := None)"
  define s1 where "s1 = (case slicesOf s f of None \<Rightarrow> s | Some h \<Rightarrow> st_deleteLoop k f h 0 (readSlice s h) s)"
  have "deleteLoop k f 0 ?es ?m = (case firstIndex (has_key k) ?es of None \<Rightarrow> ?m | Some i \<Rightarrow> ?m(f \<mapsto> removeAt i ?es))"
    using deleteLoop_eq [of ?m f "[]" ?es k] by (simp only: cache_of_simps list.size append_Nil ball_empty list.set)
  moreover have "store_wf s1 \<and> st_entries s1 \<noteq> None \<and> st_populated s1 = st_populated s \<and>
      entriesOf (cache_of s1) = (case firstIndex (has_key k) ?es of None \<Rightarrow> ?m | Some i \<Rightarrow> ?m(f \<mapsto> removeAt i ?es))"
  proof (cases "slicesOf s f")
    case None
    with assms nil show ?thesis by (simp add: s1_def readName_def) (simp add: st_nilMaps_def)
  next
    case (Some h)
    then have es: "?es = readSlice s h" by (simp add: readName_def)
    show ?thesis
    proof (cases "firstIndex (has_key k) (readSlice s h)")
      case None
      with assms nil Some es st_deleteLoop_eq [of s f "[]" "readSlice s h" k h] show ?thesis
        by (simp add: s1_def del: cache_of_simps(3)) (simp add: st_nilMaps_def)
    next
      case i: (Some i)
      then have "i < len h" using firstIndex_less [OF i] by (simp add: readSlice_def)
      note rm = st_removeAt_refines [OF assms Some this]
      have "s1 = st_removeAt f h i s" using i Some es st_deleteLoop_eq [of s f "[]" "readSlice s h" k h] by (simp add: s1_def)
      with rm i es show ?thesis by (simp add: st_removeAt_def del: cache_of_simps(3))
    qed
  qed
  ultimately have s1: "store_wf s1" "st_entries s1 \<noteq> None" "st_populated s1 = st_populated s"
    "entriesOf (cache_of s1) = deleteLoop k f 0 ?es ?m" by auto
  have st: "st_DeleteByResourceKey s k = s1\<lparr>st_keys := Some ?r\<rparr>" using nil f by (simp add: st_DeleteByResourceKey_def s1_def Let_def)
  have "\<not> st_nilMaps (s1\<lparr>st_keys := Some ?r\<rparr>)" using s1(2) by (simp add: st_nilMaps_def)
  from cache_of_maps [OF this] s1
  have "cache_of (s1\<lparr>st_keys := Some ?r\<rparr>) = \<lparr>entries = Some (deleteLoop k f 0 ?es ?m), resourceKeyToFQDN = Some ?r, isPopulated = st_populated s\<rparr>"
    by (simp add: st_keysOf_def del: cache_of_simps(3))
  moreover have "DeleteByResourceKey (cache_of s) k = (cache_of s)\<lparr>entries := Some (deleteLoop k f 0 ?es ?m), resourceKeyToFQDN := Some ?r\<rparr>"
    using nil f by (simp only: DeleteByResourceKey_def cache_of_simps if_False option.case)
  ultimately show ?thesis using st s1(1) by (simp add: cache_of_def)
qed

lemma lookupWildcard_refines:
  "readResult s (st_lookupWildcard (slicesOf s) labels) = lookupWildcard (entriesOf (cache_of s)) labels"
  by (induction labels) (auto simp: readResult_def split: option.splits)

lemma st_Lookup_refines:
  "readResult s (st_Lookup L s f) = Lookup L (cache_of s) f"
  "st_LookupByResourceKey s k = LookupByResourceKey (cache_of s) k"
  by (auto simp: st_Lookup_def Lookup_def readResult_def Let_def lookupWildcard_refines [unfolded readResult_def]
      split: option.splits) (simp add: st_LookupByResourceKey_def LookupByResourceKey_def split: option.split)

text \<open>The cache with its memory is a store of entries by resource key as well.\<close>

sublocale dns_names \<subseteq> stored: record_store "st_Upsert grow L" st_DeleteByResourceKey st_LookupByResourceKey
    "\<lambda>s. store_wf s \<and> cache_wf L (cache_of s)" ResourceKey "canonEntry L"
  for grow :: "nat \<Rightarrow> nat"
  by unfold_locales
    (auto simp: st_Lookup_refines(2) st_Upsert_refines st_DeleteByResourceKey_refines LookupByResourceKey_Upsert
      LookupByResourceKey_delete cache_wf_Upsert cache_wf_DeleteByResourceKey)

section \<open>Readers\<close>

text \<open>
  The loop of \<open>Services\<close> over the slice that \<open>Lookup\<close> returned, after the mutex is released:
  the \<open>j\<close>-th entry is read from the store at that time, \<open>at j\<close>.
\<close>

definition readLoop :: "(nat \<Rightarrow> cache_store) \<Rightarrow> slice \<Rightarrow> DNSCacheEntry list" where
  "readLoop at h = map (\<lambda>j. arrays (at j) (arr h) ! j) [0..<len h]"

lemma readLoop_unchanged:
  assumes "len h \<le> length (arrays s (arr h))"
  shows "readLoop (\<lambda>_. s) h = readSlice s h"
  using assms by (intro nth_equalityI) (auto simp: readLoop_def readSlice_def)

text \<open>A store that changes between the entries \<open>t - 1\<close> and \<open>t\<close>\<close>

lemma readLoop_change:
  assumes "len h \<le> length (arrays s (arr h))" and "len h \<le> length (arrays s' (arr h))" and "t \<le> len h"
  shows "readLoop (\<lambda>j. if j < t then s else s') h = take t (readSlice s h) @ drop t (readSlice s' h)"
  using assms by (intro nth_equalityI) (auto simp: readLoop_def readSlice_def nth_append min_def)

lemma drop_removeAt:
  assumes "i < t" and "t < length xs"
  shows "drop t (removeAt i xs @ [x]) = drop (Suc t) xs @ [x]"
  using assms by (simp add: removeAt_def)

lemma readSlice_deleted:
  assumes wf: "store_wf s" and nil: "\<not> st_nilMaps s" and f: "st_keysOf s k = Some f" "slicesOf s f = Some h"
    and i: "firstIndex (has_key k) (readSlice s h) = Some i" and s': "s' = st_DeleteByResourceKey s k"
  shows "readSlice s' h = removeAt i (readSlice s h) @ [last (readSlice s h)]"
    and "readName s' f = removeAt i (readSlice s h)" and "length (arrays s' (arr h)) = length (arrays s (arr h))"
proof -
  note le = slice_within [OF wf f(2)]
  have less: "i < len h" using firstIndex_less [OF i] by (simp add: readSlice_def)
  note sh = take_shiftArray [OF less le]
  have s1: "s' = (st_removeAt f h i s)\<lparr>st_keys := Some ((st_keysOf s)(k := None))\<rparr>"
    using st_DeleteByResourceKey_eq [OF nil f] i s' by simp
  then have arr: "arrays s' (arr h) = shiftArray i (len h) (arrays s (arr h))" by (simp add: st_removeAt_def arrays_setName)
  then show "length (arrays s' (arr h)) = length (arrays s (arr h))" using sh(2) by simp
  have "last (readSlice s h) = arrays s (arr h) ! (len h - 1)"
    using less le by (subst last_conv_nth) (auto simp: readSlice_def)
  then show "readSlice s' h = removeAt i (readSlice s h) @ [last (readSlice s h)]"
    using arr sh(3) by (simp add: readSlice_def)
  show "readName s' f = removeAt i (readSlice s h)"
    using st_removeAt_refines(2) [OF wf f(2) less] f(2) unfolding readName_eq s1 entriesOf_keys by (simp add: readName_def)
qed

section \<open>Properties\<close>

text \<open>
  C9. The operations on arrays implement the operations on lists: every operation keeps the slices of
  different names in different arrays, its result stands for the cache that the operation of
  \<open>DNS_Cache\<close> returns, and a lookup returns a slice that holds, at that moment, the entries of
  \<open>Lookup\<close>. This holds however the run-time system chooses the capacity of new arrays.
\<close>

theorem store_refines_cache:
  assumes "store_wf s"
  shows "store_wf (st_Upsert grow L s e) \<and> cache_of (st_Upsert grow L s e) = Upsert L (cache_of s) e \<and>
    store_wf (st_Delete L s f) \<and> cache_of (st_Delete L s f) = Delete L (cache_of s) f \<and>
    store_wf (st_DeleteByResourceKey s k) \<and> cache_of (st_DeleteByResourceKey s k) = DeleteByResourceKey (cache_of s) k \<and>
    readResult s (st_Lookup L s f) = Lookup L (cache_of s) f \<and>
    st_LookupByResourceKey s k = LookupByResourceKey (cache_of s) k"
  using st_Upsert_refines [OF assms, of grow L e] st_Delete_refines [OF assms, of L f]
    st_DeleteByResourceKey_refines [OF assms, of k] st_Lookup_refines [of s]
  by blast

definition new_store :: cache_store where
  "new_store = \<lparr>arrays = (\<lambda>_. []), next_array = 0, st_entries = None, st_keys = None, st_populated = False\<rparr>"

lemma new_store_wf: "store_wf new_store"
  by (simp add: store_wf_def new_store_def slicesOf_def)

definition ex_shared :: "string \<Rightarrow> DNSCacheEntry" where
  "ex_shared n = \<lparr>ResourceKey = ''xcc-dns/'' @ n, FQDN = ''app.xcc.test'', Addresses = [''10.0.0.'' @ n]\<rparr>"

definition ex_store :: cache_store where
  "ex_store = fold (\<lambda>n s. st_Upsert (\<lambda>n. 2 * n + 1) plain_dns s (ex_shared n)) [''1'', ''2'', ''3'', ''4''] new_store"

lemma ex_store_wf: "store_wf ex_store"
  unfolding ex_store_def by (simp add: st_Upsert_refines new_store_wf)

theorem store_refines_cache_witness:
  "cache_of (st_DeleteByResourceKey ex_store ''xcc-dns/2'') = DeleteByResourceKey (cache_of ex_store) ''xcc-dns/2''"
  using store_refines_cache [OF ex_store_wf] by blast

text \<open>
  C10. The slice that \<open>Lookup\<close> returned is overwritten by later operations. When the \<open>i\<close>-th entry of
  a name is deleted while a reader, such as \<open>Services\<close>, has read the first \<open>t\<close> entries of the slice, \<open>t\<close>
  beyond \<open>i\<close>, the reader then skips the \<open>t\<close>-th entry, although that entry is under the name before and
  after the deletion, and reads the last entry twice. The mutex does not prevent this: it is
  released when \<open>Lookup\<close> returns.
\<close>

theorem lookup_slice_overwritten:
  assumes wf: "store_wf s" and nil: "\<not> st_nilMaps s" and f: "st_keysOf s k = Some f" "slicesOf s f = Some h"
    and es: "es = readSlice s h" "distinct (map ResourceKey es)" and i: "firstIndex (has_key k) es = Some i"
    and s': "s' = st_DeleteByResourceKey s k" and t: "i < t" "Suc t < length es"
    and r: "r = readLoop (\<lambda>j. if j < t then s else s') h"
  shows "r = take t es @ drop (Suc t) es @ [last es] \<and>
    es ! t \<in> set (readName s f) \<and> es ! t \<in> set (readName s' f) \<and> es ! t \<notin> set r"
proof -
  note del = readSlice_deleted [OF wf nil f i [unfolded es(1)] s', folded es(1)]
  note le = slice_within [OF wf f(2)]
  have len: "length es = len h" using le by (simp add: es(1) readSlice_def)
  have "r = take t es @ drop t (readSlice s' h)"
    unfolding r es(1) using le del(3) t(2) len by (intro readLoop_change) simp_all
  then have eq: "r = take t es @ drop (Suc t) es @ [last es]"
    using drop_removeAt [of i t es "last es"] t by (simp add: del(1))
  have d: "distinct es" using es(2) by (simp add: distinct_map)
  have "es ! t \<notin> set (take t es)" using d t(2) by (auto simp: in_set_conv_nth distinct_conv_nth)
  moreover have "es ! t \<notin> set (drop (Suc t) es)" using d t(2) by (auto simp: in_set_conv_nth distinct_conv_nth)
  moreover have "last es \<in> set (drop (Suc t) es)" using t(2) by (metis drop_eq_Nil last_drop last_in_set not_less)
  ultimately have "es ! t \<notin> set r" by (auto simp: eq)
  moreover have "es ! t \<in> set (removeAt i es)"
  proof -
    have "es ! t = drop (Suc i) es ! (t - Suc i)" "t - Suc i < length (drop (Suc i) es)" using t by simp_all
    then have "es ! t \<in> set (drop (Suc i) es)" by (metis nth_mem)
    then show ?thesis by (simp add: removeAt_def)
  qed
  moreover have "es ! t \<in> set (readName s f)" using f(2) t(2) by (simp add: readName_def flip: es(1))
  ultimately show ?thesis using eq del(2) by simp
qed

theorem lookup_slice_overwritten_witness:
  "\<exists>h. st_Lookup plain_dns ex_store ''app.xcc.test'' = Some h \<and>
     map ResourceKey (readSlice ex_store h) = map ((@) ''xcc-dns/'') [''1'', ''2'', ''3'', ''4''] \<and>
     map ResourceKey (readLoop (\<lambda>j. if j < 2 then ex_store else st_DeleteByResourceKey ex_store ''xcc-dns/1'') h)
       = map ((@) ''xcc-dns/'') [''1'', ''2'', ''4'', ''4'']"
proof -
  let ?f = "''app.xcc.test.''" and ?k = "''xcc-dns/1''"
  obtain h where h: "slicesOf ex_store ?f = Some h"
  proof -
    have "slicesOf ex_store ?f \<noteq> None" by code_simp
    with that show thesis by blast
  qed
  then have the_h: "h = the (slicesOf ex_store ?f)" by simp
  have nil: "\<not> st_nilMaps ex_store" and key: "st_keysOf ex_store ?k = Some ?f" by code_simp+
  have all: "map ResourceKey (readSlice ex_store (the (slicesOf ex_store ?f))) = map ((@) ''xcc-dns/'') [''1'', ''2'', ''3'', ''4'']"
    and i: "firstIndex (has_key ?k) (readSlice ex_store (the (slicesOf ex_store ?f))) = Some 0"
    and look: "st_Lookup plain_dns ex_store ''app.xcc.test'' = Some (the (slicesOf ex_store ?f))" by code_simp+
  have dist: "distinct (map ResourceKey (readSlice ex_store h))" unfolding the_h all by code_simp
  have "length (readSlice ex_store h) = length (map ResourceKey (readSlice ex_store h))" by simp
  then have "length (readSlice ex_store h) = 4" unfolding the_h all by simp
  then have t: "(0 :: nat) < 2" "Suc 2 < length (readSlice ex_store h)" by simp_all
  have "readLoop (\<lambda>j. if j < 2 then ex_store else st_DeleteByResourceKey ex_store ?k) h
      = take 2 (readSlice ex_store h) @ drop (Suc 2) (readSlice ex_store h) @ [last (readSlice ex_store h)]"
    using lookup_slice_overwritten [OF ex_store_wf nil key h refl dist i [folded the_h] refl t refl] by blast
  then have "map ResourceKey (readLoop (\<lambda>j. if j < 2 then ex_store else st_DeleteByResourceKey ex_store ?k) h)
      = take 2 (map ResourceKey (readSlice ex_store h)) @ drop (Suc 2) (map ResourceKey (readSlice ex_store h)) @
        [last (map ResourceKey (readSlice ex_store h))]"
    using t(2) by (cases "readSlice ex_store h = []") (simp_all add: take_map drop_map last_map)
  with look all show ?thesis unfolding the_h by simp
qed

end
