(* ===== verification/Go_Duration.thy ===== *)
theory Go_Duration
  imports Net_IP Complex_Main "HOL-Library.Word" "HOL-Library.Log_Nat"
begin

text \<open>
  \<open>time.ParseDuration\<close> of Go's package \<open>time\<close>, with which the controller program reads its
  polling interval. A duration is a 64-bit number of nanoseconds; the parser computes in
  \<open>uint64\<close> and tests for overflow, and fractions are computed in \<open>float64\<close>, here rationals
  with the rounding written out. Strings are lists of bytes.
\<close>

section \<open>Floating point\<close>

text \<open>
  Rounding to 53 significant bits, ties to even. All values of the parser are zero or between
  \<open>10\<^sup>-\<^sup>1\<^sup>9\<close> and \<open>2\<^sup>6\<^sup>4 * 10\<^sup>1\<^sup>3\<close>, well inside the range of normal numbers.
\<close>

definition round_even :: "rat \<Rightarrow> int" where
  "round_even x = (let n = \<lfloor>x\<rfloor>; r = x - of_int n in
     if r < 1 / 2 \<or> r = 1 / 2 \<and> even n then n else n + 1)"

definition two_to :: "int \<Rightarrow> rat" where
  "two_to e = (if 0 \<le> e then 2 ^ nat e else 1 / 2 ^ nat (- e))"

definition exponent :: "rat \<Rightarrow> int" where
  "exponent x = (let (p, q) = quotient_of x; k = bitlen p - bitlen q in if two_to k \<le> x then k else k - 1)"

definition float64 :: "rat \<Rightarrow> rat" where
  "float64 x = (if x \<le> 0 then 0 else let u = two_to (exponent x - 52) in of_int (round_even (x / u)) * u)"

section \<open>The parser\<close>

type_synonym uint64 = "64 word"

datatype duration_error = invalidDuration | missingUnit | unknownUnit string

definition isDigit :: "char \<Rightarrow> bool" where
  "isDigit c \<longleftrightarrow> digit_val c \<noteq> None"

text \<open>Units in nanoseconds; the micro sign and the Greek letter mu are two bytes each.\<close>

definition unitMap :: "string \<Rightarrow> uint64 option" where
  "unitMap u =
     (if u = ''ns'' then Some 1
      else if u = ''us'' then Some 1000
      else if u = [CHR 0xC2, CHR 0xB5, CHR ''s''] then Some 1000
      else if u = [CHR 0xCE, CHR 0xBC, CHR ''s''] then Some 1000
      else if u = ''ms'' then Some 1000000
      else if u = ''s'' then Some 1000000000
      else if u = ''m'' then Some 60000000000
      else if u = ''h'' then Some 3600000000000
      else None)"

fun leadingInt :: "uint64 \<Rightarrow> string \<Rightarrow> (uint64 \<times> string) option" where
  "leadingInt x [] = Some (x, [])"
| "leadingInt x (c # s) =
     (case digit_val c of
        None \<Rightarrow> Some (x, c # s)
      | Some d \<Rightarrow>
          if x > 2 ^ 63 div 10 then None
          else let y = x * 10 + of_nat d in if y > 2 ^ 63 then None else leadingInt y s)"

fun leadingFraction :: "uint64 \<Rightarrow> rat \<Rightarrow> bool \<Rightarrow> string \<Rightarrow> uint64 \<times> rat \<times> string" where
  "leadingFraction x scale overflow [] = (x, scale, [])"
| "leadingFraction x scale overflow (c # s) =
     (case digit_val c of
        None \<Rightarrow> (x, scale, c # s)
      | Some d \<Rightarrow>
          if overflow then leadingFraction x scale overflow s
          else if x > (2 ^ 63 - 1) div 10 then leadingFraction x scale True s
          else let y = x * 10 + of_nat d in
            if y > 2 ^ 63 then leadingFraction x scale True s
            else leadingFraction y (float64 (scale * 10)) False s)"

text \<open>The optional fraction: its digits, their scale, the rest, and whether there was a digit.\<close>

fun fraction :: "string \<Rightarrow> uint64 \<times> rat \<times> string \<times> bool" where
  "fraction (CHR ''.'' # s) = (let (f, scale, t) = leadingFraction 0 1 False s in (f, scale, t, length t \<noteq> length s))"
| "fraction s = (0, 1, s, False)"

definition addFraction :: "uint64 \<Rightarrow> uint64 \<Rightarrow> rat \<Rightarrow> uint64 \<Rightarrow> uint64" where
  "addFraction v f scale unit =
     v + of_int \<lfloor>float64 (float64 (of_int (uint f)) * float64 (float64 (of_int (uint unit)) / scale))\<rfloor>"

text \<open>A number: the integer before the period, the fraction and its scale, and the rest of the string\<close>

definition durationNumber :: "string \<Rightarrow> duration_error + uint64 \<times> uint64 \<times> rat \<times> string" where
  "durationNumber s =
     (if s = [] \<or> \<not> (hd s = CHR ''.'' \<or> isDigit (hd s)) then Inl invalidDuration
      else case leadingInt 0 s of
        None \<Rightarrow> Inl invalidDuration
      | Some (v, s1) \<Rightarrow>
          (let pre = (length s1 \<noteq> length s);
               (f, scale, s2, post) = fraction s1
           in if \<not> pre \<and> \<not> post then Inl invalidDuration else Inr (v, f, scale, s2)))"

text \<open>The unit of a number: the nanoseconds and the rest of the string\<close>

definition durationUnit :: "uint64 \<Rightarrow> uint64 \<Rightarrow> rat \<Rightarrow> string \<Rightarrow> duration_error + uint64 \<times> string" where
  "durationUnit v f scale s =
     (let u = takeWhile (\<lambda>c. \<not> (c = CHR ''.'' \<or> isDigit c)) s;
          s' = drop (length u) s
      in if u = [] then Inl missingUnit
         else case unitMap u of
           None \<Rightarrow> Inl (unknownUnit u)
         | Some unit \<Rightarrow>
             if v > 2 ^ 63 div unit then Inl invalidDuration
             else if f > 0 then
               (let v' = addFraction (v * unit) f scale unit in
                if v' > 2 ^ 63 then Inl invalidDuration else Inr (v', s'))
             else Inr (v * unit, s'))"

definition durationPart :: "string \<Rightarrow> duration_error + uint64 \<times> string" where
  "durationPart s =
     (case durationNumber s of
        Inl e \<Rightarrow> Inl e
      | Inr (v, f, scale, s') \<Rightarrow> durationUnit v f scale s')"

lemma leadingInt_rest: "leadingInt x s = Some (v, t) \<Longrightarrow> length t \<le> length s"
  by (induction s arbitrary: x) (auto simp: Let_def le_SucI split: option.splits if_splits)

lemma leadingFraction_rest: "length (snd (snd (leadingFraction x sc ov s))) \<le> length s"
  by (induction s arbitrary: x sc ov) (auto simp: Let_def le_SucI split: option.splits)

lemma fraction_rest: "fraction s = (f, sc, t, p) \<Longrightarrow> length t \<le> length s"
  using leadingFraction_rest [of 0 1 False "tl s"]
  by (cases s rule: fraction.cases) (auto split: prod.splits)

lemma durationNumber_rest: "durationNumber s = Inr (v, f, sc, t) \<Longrightarrow> length t \<le> length s"
  by (auto simp: durationNumber_def Let_def split: if_splits option.splits prod.splits
      dest!: leadingInt_rest fraction_rest)

lemma durationUnit_rest:
  assumes "durationUnit v f sc s = Inr (n, t)"
  shows "length t < length s"
proof -
  let ?u = "takeWhile (\<lambda>c. \<not> (c = CHR ''.'' \<or> isDigit c)) s"
  have "?u \<noteq> [] \<and> t = drop (length ?u) s"
    using assms unfolding durationUnit_def Let_def by (simp split: if_splits option.splits)
  moreover have "length ?u \<le> length s" by (rule length_takeWhile_le)
  moreover have "0 < length ?u" using calculation(1) by blast
  ultimately show ?thesis by (metis diff_less length_drop less_le_trans)
qed

lemma durationPart_rest: "durationPart s = Inr (v, t) \<Longrightarrow> length t < length s"
  by (auto simp: durationPart_def split: sum.splits dest!: durationNumber_rest durationUnit_rest)

function durationLoop :: "uint64 \<Rightarrow> string \<Rightarrow> duration_error + uint64" where
  "durationLoop d s =
     (if s = [] then Inr d
      else case durationPart s of
        Inl e \<Rightarrow> Inl e
      | Inr (v, t) \<Rightarrow> let d' = d + v in if d' > 2 ^ 63 then Inl invalidDuration else durationLoop d' t)"
  by pat_completeness auto
termination
  by (relation "measure (\<lambda>(d, s). length s)") (auto dest: durationPart_rest)

declare durationLoop.simps [simp del]

text \<open>
  The result is a \<open>time.Duration\<close>, that is \<open>int64\<close>: the conversion and the negation act on the bits.
\<close>

definition sign :: "string \<Rightarrow> bool \<times> string" where
  "sign s = (case s of
     [] \<Rightarrow> (False, s)
   | c # t \<Rightarrow> if c = CHR ''-'' \<or> c = CHR ''+'' then (c = CHR ''-'', t) else (False, s))"

definition ParseDuration :: "string \<Rightarrow> duration_error + int" where
  "ParseDuration orig =
     (let (neg, s) = sign orig in
      if s = ''0'' then Inr 0
      else if s = [] then Inl invalidDuration
      else case durationLoop 0 s of
        Inl e \<Rightarrow> Inl e
      | Inr d \<Rightarrow>
          if neg then Inr (sint (- d))
          else if d > 2 ^ 63 - 1 then Inl invalidDuration
          else Inr (sint d))"

section \<open>Reading whole numbers with units\<close>

text \<open>The text of a list of numbers with units, and the nanoseconds it stands for\<close>

definition durationText :: "(nat \<times> string) list \<Rightarrow> string" where
  "durationText ps = concat (map (\<lambda>(n, u). digits 10 n @ u) ps)"

definition known_unit :: "string \<Rightarrow> bool" where
  "known_unit u \<longleftrightarrow> unitMap u \<noteq> None"

definition unitNanos :: "string \<Rightarrow> nat" where
  "unitNanos u = (case unitMap u of None \<Rightarrow> 0 | Some k \<Rightarrow> unat k)"

definition nanoseconds :: "(nat \<times> string) list \<Rightarrow> nat" where
  "nanoseconds ps = (\<Sum>(n, u)\<leftarrow>ps. n * unitNanos u)"

lemma less_of_nat:
  "m < 2 ^ 64 \<Longrightarrow> n < 2 ^ 64 \<Longrightarrow> (of_nat m < (of_nat n :: uint64)) = (m < n)"
  by (simp add: word_less_nat_alt unat_of_nat)

lemma limits:
  "(2 ^ 63 div 10 :: uint64) = of_nat 922337203685477580" "(2 ^ 63 :: uint64) = of_nat (2 ^ 63)"
  "(2 ^ 63 - 1 :: uint64) = of_nat (2 ^ 63 - 1)"
  by simp_all

lemma leadingInt_digit:
  assumes "q \<le> 2 ^ 63" and "r < 10"
  shows "leadingInt (of_nat q) (digit_char r # t) = (if 10 * q + r \<le> 2 ^ 63 then leadingInt (of_nat (10 * q + r)) t else None)"
proof (cases "q > 922337203685477580")
  case True
  with assms less_of_nat [of 922337203685477580 q] have "of_nat q > (2 ^ 63 div 10 :: uint64)" unfolding limits by simp
  then have "leadingInt (of_nat q) (digit_char r # t) = None" using assms(2) by simp
  with True show ?thesis by simp
next
  case False
  with assms less_of_nat [of 922337203685477580 q] have q: "\<not> of_nat q > (2 ^ 63 div 10 :: uint64)" unfolding limits by simp
  have y: "of_nat q * 10 + of_nat r = (of_nat (10 * q + r) :: uint64)" by (simp add: mult.commute)
  from False assms(2) less_of_nat [of "2 ^ 63" "10 * q + r"]
  have "(of_nat (10 * q + r) > (2 ^ 63 :: uint64)) = (10 * q + r > 2 ^ 63)" unfolding limits by simp
  with q y assms(2) show ?thesis by (simp only: leadingInt.simps digit_val_char option.case Let_def if_False not_less split: if_split) auto
qed

lemma leadingInt_digits:
  "leadingInt 0 (digits 10 n @ t) = (if n \<le> 2 ^ 63 then leadingInt (of_nat n) t else None)"
proof -
  have "1 < (10 :: nat)" by simp
  then show ?thesis
  proof (induction n arbitrary: t rule: digits_cases_induct)
    case (one n)
    with leadingInt_digit [of 0 n t] show ?case by (simp add: digits_one)
  next
    case (more n)
    have n: "10 * (n div 10) + n mod 10 = n" by simp
    from more(1) have "leadingInt 0 (digits 10 n @ t) = leadingInt 0 (digits 10 (n div 10) @ digit_char (n mod 10) # t)"
      by (simp add: digits_more)
    also have "\<dots> = (if n div 10 \<le> 2 ^ 63 then leadingInt (of_nat (n div 10)) (digit_char (n mod 10) # t) else None)"
      by (rule more(2))
    also have "\<dots> = (if n \<le> 2 ^ 63 then leadingInt (of_nat n) t else None)"
      using leadingInt_digit [of "n div 10" "n mod 10" t] n by (auto simp del: leadingInt.simps)
    finally show ?case .
  qed
qed

text \<open>Where the text of a further number may begin\<close>

definition at_number :: "string \<Rightarrow> bool" where
  "at_number t \<longleftrightarrow> t = [] \<or> isDigit (hd t)"

lemma isDigit_char [simp]: "d < 10 \<Longrightarrow> isDigit (digit_char d)"
  by (simp add: isDigit_def)

lemma digits_isDigit: "isDigit (hd (digits 10 n))"
  using digits_chars [of 10 "hd (digits 10 n)" n] by auto

lemma known_unit_cases:
  assumes "known_unit u"
  shows "u \<noteq> [] \<and> (\<forall>c\<in>set u. \<not> (c = CHR ''.'' \<or> isDigit c))" and "unitMap u = Some (of_nat (unitNanos u))"
    and "0 < unitNanos u" and "unitNanos u \<le> 3600000000000"
  using assms unfolding known_unit_def unitNanos_def unitMap_def
  by (auto simp: isDigit_def digit_val_def split: if_splits)

lemma durationNumber_text:
  assumes "known_unit u"
  shows "durationNumber (digits 10 n @ u @ t) = (if n \<le> 2 ^ 63 then Inr (of_nat n, 0, 1, u @ t) else Inl invalidDuration)"
proof -
  obtain c u' where u: "u = c # u'" and c: "c \<noteq> CHR ''.''" "\<not> isDigit c"
    using known_unit_cases(1) [OF assms] by (cases u) auto
  from c have "leadingInt (of_nat n) (u @ t) = Some (of_nat n, u @ t)" by (simp add: u isDigit_def)
  moreover have "fraction (u @ t) = (0, 1, u @ t, False)"
    using c(1) by (cases "u @ t" rule: fraction.cases) (auto simp: u)
  ultimately show ?thesis
    using digits_isDigit [of n] by (simp add: durationNumber_def leadingInt_digits)
qed

lemma durationUnit_text:
  assumes u: "known_unit u" and "at_number t" and "n \<le> 2 ^ 63"
  shows "durationUnit (of_nat n) 0 1 (u @ t)
    = (if n * unitNanos u \<le> 2 ^ 63 then Inr (of_nat (n * unitNanos u), t) else Inl invalidDuration)"
proof -
  note k = known_unit_cases [OF u]
  have take: "takeWhile (\<lambda>c. \<not> (c = CHR ''.'' \<or> isDigit c)) (u @ t) = u"
    using k(1) assms(2) by (cases t) (auto simp: at_number_def takeWhile_append)
  have small: "(9223372036854775808 :: nat) div unitNanos u < 18446744073709551616"
    by (rule le_less_trans [OF div_le_dividend]) simp
  then have "(2 ^ 63 :: uint64) div of_nat (unitNanos u) = of_nat (2 ^ 63 div unitNanos u)"
    using k(4) by (simp add: word_unat_eq_iff unat_div_distrib unat_of_nat)
  then have "(of_nat n > (2 ^ 63 div of_nat (unitNanos u) :: uint64)) = (n > 2 ^ 63 div unitNanos u)"
    using assms(3) by (simp only:) (intro less_of_nat, auto intro: le_less_trans [OF div_le_dividend])
  also have "\<dots> = (n * unitNanos u > 2 ^ 63)" using k(3) by (simp add: div_less_iff_less_mult)
  finally show ?thesis using k(1,2) unfolding durationUnit_def take Let_def by (simp add: not_less)
qed

lemma durationPart_text:
  assumes "known_unit u" and "at_number t"
  shows "durationPart (digits 10 n @ u @ t)
    = (if n * unitNanos u \<le> 2 ^ 63 then Inr (of_nat (n * unitNanos u), t) else Inl invalidDuration)"
proof (cases "n \<le> 2 ^ 63")
  case True
  then show ?thesis
    by (simp add: durationPart_def durationNumber_text [OF assms(1)] durationUnit_text [OF assms True])
next
  case False
  with known_unit_cases(3) [OF assms(1)] have "2 ^ 63 * 1 < n * unitNanos u"
    by (intro mult_less_le_imp_less) auto
  with False show ?thesis by (simp add: durationPart_def durationNumber_text [OF assms(1)])
qed

lemma durationText_simps [simp]:
  "durationText [] = []" "durationText ((n, u) # ps) = digits 10 n @ u @ durationText ps"
  "nanoseconds [] = 0" "nanoseconds ((n, u) # ps) = n * unitNanos u + nanoseconds ps"
  by (simp_all add: durationText_def nanoseconds_def)

lemma at_number_text: "at_number (durationText ps)"
  using digits_isDigit by (cases ps) (auto simp: at_number_def)

lemma durationLoop_text:
  assumes "\<forall>(n, u)\<in>set ps. known_unit u" and "d \<le> 2 ^ 63" and "d + nanoseconds ps < 2 ^ 64"
  shows "durationLoop (of_nat d) (durationText ps)
    = (if d + nanoseconds ps \<le> 2 ^ 63 then Inr (of_nat (d + nanoseconds ps)) else Inl invalidDuration)"
  using assms
proof (induction ps arbitrary: d)
  case Nil
  then show ?case by (simp add: durationLoop.simps)
next
  case (Cons p ps)
  obtain n u where p: "p = (n, u)" by fastforce
  let ?v = "n * unitNanos u"
  from Cons.prems(1) p have u: "known_unit u" by simp
  have loop: "durationLoop (of_nat d) (durationText (p # ps)) = (case durationPart (durationText (p # ps)) of
      Inl e \<Rightarrow> Inl e
    | Inr (v, t) \<Rightarrow> let d' = of_nat d + v in if d' > 2 ^ 63 then Inl invalidDuration else durationLoop d' t)"
    by (subst durationLoop.simps) (simp add: p)
  have "(of_nat (d + ?v) > (2 ^ 63 :: uint64)) = (d + ?v > 2 ^ 63)"
    unfolding limits using Cons.prems(3) p by (intro less_of_nat) auto
  with loop Cons.prems p Cons.IH [of "d + ?v"] show ?case
    by (simp add: durationPart_text [OF u at_number_text] Let_def)
qed

text \<open>
  The text of whole numbers with units is read as the sum of its parts, with a sign or without, if
  the sum fits \<open>int64\<close>, and is refused otherwise. Sums from \<open>2 ^ 64\<close> on are not considered:
  there the accumulator can wrap.
\<close>

lemma ParseDuration_text:
  assumes ps: "\<forall>(n, u)\<in>set ps. known_unit u" "ps \<noteq> []" and "nanoseconds ps < 2 ^ 64"
  shows "ParseDuration (durationText ps)
      = (if nanoseconds ps < 2 ^ 63 then Inr (int (nanoseconds ps)) else Inl invalidDuration)"
    and "ParseDuration (CHR ''-'' # durationText ps)
      = (if nanoseconds ps \<le> 2 ^ 63 then Inr (- int (nanoseconds ps)) else Inl invalidDuration)"
proof -
  let ?t = "durationText ps" and ?n = "nanoseconds ps"
  have loop: "durationLoop 0 ?t = (if ?n \<le> 2 ^ 63 then Inr (of_nat ?n) else Inl invalidDuration)"
    using durationLoop_text [OF ps(1), of 0] assms(3) by simp
  obtain n u ps' where p: "ps = (n, u) # ps'" using ps(2) by (metis list.exhaust prod.exhaust)
  with ps(1) have "u \<noteq> []" using known_unit_cases(1) by auto
  then have t: "?t \<noteq> []" "length ?t \<noteq> length ''0''" using digits_nonempty [of 10 n]
    by (auto simp: p simp del: digits_nonempty) (metis Suc_lessI add_is_1 add_is_0 length_0_conv)
  obtain d where "d < 10" "hd ?t = digit_char d" using digits_chars [of 10 "hd (digits 10 n)" n] by (auto simp: p)
  then have "hd ?t \<noteq> CHR ''-'' \<and> hd ?t \<noteq> CHR ''+''" using digit_val_char [of d] by (auto simp: digit_val_def)
  with t(1) have sg: "sign ?t = (False, ?t)" by (cases ?t) (auto simp: sign_def)
  have pos: "sint (of_nat ?n :: uint64) = int ?n" if "?n < 2 ^ 63"
    using that by (simp add: signed_of_nat signed_take_bit_int_eq_self)
  have neg: "sint (- of_nat ?n :: uint64) = - int ?n" if "?n \<le> 2 ^ 63"
  proof -
    have "(- of_nat ?n :: uint64) = of_int (- int ?n)" by simp
    then have "sint (- of_nat ?n :: uint64) = signed_take_bit 63 (- int ?n)" by (simp only: signed_of_int) simp
    with that show ?thesis by (simp add: signed_take_bit_int_eq_self)
  qed
  have big: "(of_nat ?n > (2 ^ 63 - 1 :: uint64)) = (?n > 2 ^ 63 - 1)"
    unfolding limits(3) using assms(3) by (intro less_of_nat) auto
  from t have "?t \<noteq> ''0''" by fastforce
  then show "ParseDuration ?t = (if ?n < 2 ^ 63 then Inr (int ?n) else Inl invalidDuration)"
    and "ParseDuration (CHR ''-'' # ?t) = (if ?n \<le> 2 ^ 63 then Inr (- int ?n) else Inl invalidDuration)"
    using t(1) sg loop pos neg big by (auto simp: ParseDuration_def sign_def)
qed

end
