(* ===== verification/Controller_Program.thy ===== *)
theory Controller_Program
  imports GatewayDNS_Controller Go_Duration
begin

text \<open>
  The program of the GatewayDNS controller (\<open>cmd/xcc-dns-controller/main.go\<close>): it reads its
  flags and environment, creates the manager and the client provider, builds the reconciler with
  its parts and starts the manager. The controller library's functions are parameters (record
  \<open>xcc_lib\<close>); a run gives the exit status and, once the manager has been started, what it runs.
\<close>

section \<open>Flags\<close>

text \<open>
  \<open>flag.Parse\<close> of Go's package \<open>flag\<close> on the command line, for the two flags of the program.
  Packages that the program imports register flags of their own; these are a parameter: whether
  a flag is boolean and which values it accepts.
\<close>

record flags =
  metricsAddr :: string
  enableLeaderElection :: bool

record other_flag =
  IsBoolFlag :: bool
  accepts :: "string \<Rightarrow> bool"

definition defaultFlags :: flags where
  "defaultFlags = \<lparr>metricsAddr = '':8080'', enableLeaderElection = False\<rparr>"

definition ParseBool :: "string \<Rightarrow> bool option" where
  "ParseBool s =
     (if s \<in> set [''1'', ''t'', ''T'', ''true'', ''TRUE'', ''True''] then Some True
      else if s \<in> set [''0'', ''f'', ''F'', ''false'', ''FALSE'', ''False''] then Some False
      else None)"

text \<open>The name of a flag and the value after the equals sign, which cannot come first\<close>

definition splitFlag :: "string \<Rightarrow> string \<times> string option" where
  "splitFlag s =
     (let name = hd s # takeWhile (\<lambda>c. c \<noteq> CHR ''='') (tl s); rest = drop (length name) s
      in (name, if rest = [] then None else Some (tl rest)))"

fun flagParse :: "(string \<Rightarrow> other_flag option) \<Rightarrow> flags \<Rightarrow> string list \<Rightarrow> flags process" where
  "flagParse others fl [] = Returns fl"
| "flagParse others fl (s # args) =
     (if length s < 2 \<or> hd s \<noteq> CHR ''-'' \<or> s = ''--'' then Returns fl
      else
        let name0 = (if hd (tl s) = CHR ''-'' then tl (tl s) else tl s) in
        if name0 = [] \<or> hd name0 = CHR ''-'' \<or> hd name0 = CHR ''='' then Exits 2
        else case splitFlag name0 of (name, value) \<Rightarrow>
          if name = ''metrics-addr'' then
            (case value of
               Some v \<Rightarrow> flagParse others (fl\<lparr>metricsAddr := v\<rparr>) args
             | None \<Rightarrow> (case args of [] \<Rightarrow> Exits 2 | v # args' \<Rightarrow> flagParse others (fl\<lparr>metricsAddr := v\<rparr>) args'))
          else if name = ''enable-leader-election'' then
            (case ParseBool (case value of None \<Rightarrow> ''true'' | Some v \<Rightarrow> v) of
               None \<Rightarrow> Exits 2
             | Some b \<Rightarrow> flagParse others (fl\<lparr>enableLeaderElection := b\<rparr>) args)
          else
            (case others name of
               None \<Rightarrow> if name = ''help'' \<or> name = ''h'' then Exits 0 else Exits 2
             | Some f \<Rightarrow>
                 (case value of
                    Some v \<Rightarrow> if accepts f v then flagParse others fl args else Exits 2
                  | None \<Rightarrow>
                      if IsBoolFlag f then (if accepts f ''true'' then flagParse others fl args else Exits 2)
                      else (case args of
                          [] \<Rightarrow> Exits 2
                        | v # args' \<Rightarrow> if accepts f v then flagParse others fl args' else Exits 2))))"

declare flagParse.simps(2) [simp del]

section \<open>The program\<close>

datatype api_group = clientgoscheme | connectivityv1alpha1 | clusterv1beta1 | discoveryv1

definition scheme :: "api_group list" where
  "scheme = [clientgoscheme, connectivityv1alpha1, clusterv1beta1, discoveryv1]"

record manager_options =
  opt_Scheme :: "api_group list"
  opt_MetricsBindAddress :: string
  opt_Port :: nat
  opt_LeaderElection :: bool
  opt_LeaderElectionID :: string

record ('m, 't) xcc_lib =
  hasConfig :: bool
  ctrl_NewManager :: "manager_options \<Rightarrow> 'm go_result"
  NewClusterCacheTracker :: "'m \<Rightarrow> 't go_result"
  registerReconciler :: "'m \<Rightarrow> 't \<Rightarrow> GatewayDNSReconciler \<Rightarrow> unit go_result"
  mgr_Start :: "'m \<Rightarrow> unit go_result"

record started =
  st_Options :: manager_options
  st_Reconciler :: GatewayDNSReconciler

type_synonym run = "unit process \<times> started option"

text \<open>A step of \<open>main\<close> that logs an error and exits with status 1; a panic exits with status 2.\<close>

definition orDie :: "'a go_result \<Rightarrow> started option \<Rightarrow> ('a \<Rightarrow> run) \<Rightarrow> run" where
  "orDie r st next =
     (case r of Ok x \<Rightarrow> next x | Err e \<Rightarrow> (Exits 1, st) | Panic p \<Rightarrow> (Exits 2, st))"

text \<open>The environment: the namespace, the domain suffix and the polling interval, zero where it is not set\<close>

definition readEnv :: "(string \<rightharpoonup> string) \<Rightarrow> (string \<times> string \<times> int) process" where
  "readEnv env =
     (case env ''NAMESPACE'' of
        None \<Rightarrow> Exits 1
      | Some namespace \<Rightarrow>
          (case env ''DOMAIN_SUFFIX'' of
             None \<Rightarrow> Exits 1
           | Some domainSuffix \<Rightarrow>
               (case env ''GATEWAY_DNS_POLLING_INTERVAL'' of
                  None \<Rightarrow> Returns (namespace, domainSuffix, 0)
                | Some gatewayDNSPollingInterval \<Rightarrow>
                    (case ParseDuration gatewayDNSPollingInterval of
                       Inl err \<Rightarrow> Exits 1
                     | Inr d \<Rightarrow> Returns (namespace, domainSuffix, d)))))"

definition managerOptions :: "flags \<Rightarrow> manager_options" where
  "managerOptions fl = \<lparr>opt_Scheme = scheme, opt_MetricsBindAddress = metricsAddr fl, opt_Port = 9443,
     opt_LeaderElection = enableLeaderElection fl, opt_LeaderElectionID = ''d6f90f8c.tanzu.vmware.com''\<rparr>"

definition newReconciler :: "string \<Rightarrow> string \<Rightarrow> int \<Rightarrow> GatewayDNSReconciler" where
  "newReconciler namespace domainSuffix interval = \<lparr>
     gr_Namespace = namespace,
     gr_ClusterGatewayCollector = \<lparr>col_DomainSuffix = domainSuffix, col_Namespace = namespace\<rparr>,
     gr_PollingInterval = interval\<rparr>"

definition xcc_main ::
    "('m, 't) xcc_lib \<Rightarrow> (string \<Rightarrow> other_flag option) \<Rightarrow> (string \<rightharpoonup> string) \<Rightarrow> string list \<Rightarrow> run" where
  "xcc_main X others env args =
     (case flagParse others defaultFlags args of
        Exits n \<Rightarrow> (Exits n, None)
      | Returns fl \<Rightarrow>
          (case readEnv env of
             Exits n \<Rightarrow> (Exits n, None)
           | Returns (namespace, domainSuffix, interval) \<Rightarrow>
               if \<not> hasConfig X then (Exits 1, None)
               else
                 orDie (ctrl_NewManager X (managerOptions fl)) None (\<lambda>mgr.
                 orDie (NewClusterCacheTracker X mgr) None (\<lambda>clusterCacheTracker.
                   let r = newReconciler namespace domainSuffix interval in
                   orDie (registerReconciler X mgr clusterCacheTracker r) None (\<lambda>_.
                     let st = Some \<lparr>st_Options = managerOptions fl, st_Reconciler = r\<rparr> in
                     orDie (mgr_Start X mgr) st (\<lambda>_. (Returns (), st)))))))"

section \<open>Lemmas\<close>

lemma orDie_simps [simp]:
  "orDie (Ok x) st next = next x" "orDie (Err e) st next = (Exits 1, st)" "orDie (Panic p) st next = (Exits 2, st)"
  by (simp_all add: orDie_def)

lemma ParseDuration_range: "ParseDuration s = Inr d \<Longrightarrow> - (2 ^ 63) \<le> d \<and> d < 2 ^ 63"
  using sint_range_size [where 'a = 64]
  by (auto simp: ParseDuration_def Let_def word_size split: prod.splits if_splits sum.splits)

lemma readEnv_Returns:
  "readEnv env = Returns (ns, domain, d) \<longleftrightarrow> env ''NAMESPACE'' = Some ns \<and> env ''DOMAIN_SUFFIX'' = Some domain \<and>
     (case env ''GATEWAY_DNS_POLLING_INTERVAL'' of None \<Rightarrow> d = 0 | Some s \<Rightarrow> ParseDuration s = Inr d)"
  by (auto simp: readEnv_def split: option.splits sum.splits)

lemma xcc_main_started:
  assumes "snd (xcc_main X others env args) = Some st"
  obtains fl ns domain d where "flagParse others defaultFlags args = Returns fl" and "readEnv env = Returns (ns, domain, d)"
    and "st = \<lparr>st_Options = managerOptions fl, st_Reconciler = newReconciler ns domain d\<rparr>"
  using assms
  by (auto simp: xcc_main_def orDie_def Let_def split: process.splits if_splits go_result.splits prod.splits)

text \<open>The library calls succeed.\<close>

definition xcc_lib_ok :: "('m, 't) xcc_lib \<Rightarrow> bool" where
  "xcc_lib_ok X \<longleftrightarrow> hasConfig X \<and> (\<forall>opts. \<exists>m. ctrl_NewManager X opts = Ok m) \<and>
     (\<forall>m. \<exists>t. NewClusterCacheTracker X m = Ok t) \<and> (\<forall>m t r. registerReconciler X m t r = Ok ())"

lemma xcc_main_starts:
  assumes "xcc_lib_ok X" and "flagParse others defaultFlags args = Returns fl" and "readEnv env = Returns (ns, domain, d)"
  shows "snd (xcc_main X others env args) = Some \<lparr>st_Options = managerOptions fl, st_Reconciler = newReconciler ns domain d\<rparr>"
proof -
  from assms(1) obtain m t where "ctrl_NewManager X (managerOptions fl) = Ok m" "NewClusterCacheTracker X m = Ok t"
    "registerReconciler X m t (newReconciler ns domain d) = Ok ()" "hasConfig X"
    unfolding xcc_lib_ok_def by metis
  with assms(2,3) show ?thesis by (simp add: xcc_main_def Let_def) (simp add: orDie_def split: go_result.split)
qed

section \<open>Properties\<close>

text \<open>
  C35. The reconciler that the program runs is set up consistently: the converger writes into the
  namespace that the collector puts into the gateways, both are the configured one, and the domain
  suffix is the configured one. The polling interval fits 64 bits and is 30 seconds unless another
  one is configured. Without namespace or domain suffix, or with an interval that cannot be read,
  the program exits with status 1 and starts nothing.
\<close>

theorem xcc_main_consistent:
  "(\<forall>st. snd (xcc_main X others env args) = Some st \<longrightarrow>
      (let r = st_Reconciler st; c = gr_ClusterGatewayCollector r in
       env ''NAMESPACE'' = Some (gr_Namespace r) \<and> col_Namespace c = gr_Namespace r \<and>
       env ''DOMAIN_SUFFIX'' = Some (col_DomainSuffix c) \<and>
       - (2 ^ 63) \<le> pollingInterval r \<and> pollingInterval r < 2 ^ 63 \<and>
       (env ''GATEWAY_DNS_POLLING_INTERVAL'' = None \<longrightarrow> pollingInterval r = 30 * 10 ^ 9)))
   \<and> (env ''NAMESPACE'' = None \<or> env ''DOMAIN_SUFFIX'' = None \<or>
       (\<exists>s e. env ''GATEWAY_DNS_POLLING_INTERVAL'' = Some s \<and> ParseDuration s = Inl e) \<longrightarrow>
      snd (xcc_main X others env args) = None \<and> (\<exists>n. fst (xcc_main X others env args) = Exits n) \<and>
      (\<forall>fl. flagParse others defaultFlags args = Returns fl \<longrightarrow> fst (xcc_main X others env args) = Exits 1))"
proof (intro conjI allI impI)
  fix st assume "snd (xcc_main X others env args) = Some st"
  from xcc_main_started [OF this] obtain ns domain d where env: "readEnv env = Returns (ns, domain, d)"
    and r: "st_Reconciler st = newReconciler ns domain d" by (metis started.select_convs(2))
  have "- (2 ^ 63) \<le> d \<and> d < 2 ^ 63"
    using env ParseDuration_range by (auto simp: readEnv_Returns split: option.splits)
  with env show "let r = st_Reconciler st; c = gr_ClusterGatewayCollector r in
       env ''NAMESPACE'' = Some (gr_Namespace r) \<and> col_Namespace c = gr_Namespace r \<and>
       env ''DOMAIN_SUFFIX'' = Some (col_DomainSuffix c) \<and>
       - (2 ^ 63) \<le> pollingInterval r \<and> pollingInterval r < 2 ^ 63 \<and>
       (env ''GATEWAY_DNS_POLLING_INTERVAL'' = None \<longrightarrow> pollingInterval r = 30 * 10 ^ 9)"
    by (auto simp: r newReconciler_def readEnv_Returns pollingInterval_def defaultPollingInterval_def)
next
  assume "env ''NAMESPACE'' = None \<or> env ''DOMAIN_SUFFIX'' = None \<or>
       (\<exists>s e. env ''GATEWAY_DNS_POLLING_INTERVAL'' = Some s \<and> ParseDuration s = Inl e)"
  then have exits: "readEnv env = Exits 1" by (auto simp: readEnv_def split: option.splits)
  show "snd (xcc_main X others env args) = None" "\<exists>n. fst (xcc_main X others env args) = Exits n"
    by (auto simp: xcc_main_def exits split: process.splits)
  fix fl assume "flagParse others defaultFlags args = Returns fl"
  then show "fst (xcc_main X others env args) = Exits 1" by (simp add: xcc_main_def exits)
qed

definition ex_xcc_lib :: "(unit, unit) xcc_lib" where
  "ex_xcc_lib = \<lparr>hasConfig = True, ctrl_NewManager = (\<lambda>_. Ok ()), NewClusterCacheTracker = (\<lambda>_. Ok ()),
     registerReconciler = (\<lambda>_ _ _. Ok ()), mgr_Start = (\<lambda>_. Ok ())\<rparr>"

definition ex_xcc_env :: "string \<rightharpoonup> string" where
  "ex_xcc_env = [''NAMESPACE'' \<mapsto> ''xcc'', ''DOMAIN_SUFFIX'' \<mapsto> ''xcc.test'']"

theorem xcc_main_consistent_witness:
  "(\<exists>st. snd (xcc_main ex_xcc_lib (\<lambda>_. None) ex_xcc_env [''--enable-leader-election'']) = Some st \<and>
     gr_Namespace (st_Reconciler st) = ''xcc'' \<and> col_Namespace (gr_ClusterGatewayCollector (st_Reconciler st)) = ''xcc'')
   \<and> xcc_main ex_xcc_lib (\<lambda>_. None) (ex_xcc_env(''NAMESPACE'' := None)) [] = (Exits 1, None)"
proof
  obtain st where st: "snd (xcc_main ex_xcc_lib (\<lambda>_. None) ex_xcc_env [''--enable-leader-election'']) = Some st"
  proof -
    have "snd (xcc_main ex_xcc_lib (\<lambda>_. None) ex_xcc_env [''--enable-leader-election'']) \<noteq> None" by code_simp
    with that show thesis by blast
  qed
  have "ex_xcc_env ''NAMESPACE'' = Some ''xcc''" by (simp add: ex_xcc_env_def)
  with st xcc_main_consistent [of ex_xcc_lib "\<lambda>_. None" ex_xcc_env "[''--enable-leader-election'']"]
  show "\<exists>st. snd (xcc_main ex_xcc_lib (\<lambda>_. None) ex_xcc_env [''--enable-leader-election'']) = Some st \<and>
     gr_Namespace (st_Reconciler st) = ''xcc'' \<and> col_Namespace (gr_ClusterGatewayCollector (st_Reconciler st)) = ''xcc''"
    by (auto simp: Let_def)
  have "flagParse (\<lambda>_. None) defaultFlags [] = Returns defaultFlags" by simp
  with xcc_main_consistent [of ex_xcc_lib "\<lambda>_. None" "ex_xcc_env(''NAMESPACE'' := None)" "[]"]
  show "xcc_main ex_xcc_lib (\<lambda>_. None) (ex_xcc_env(''NAMESPACE'' := None)) [] = (Exits 1, None)"
    by (intro prod_eqI) auto
qed

text \<open>
  C36. The configured polling interval: a list of whole numbers with units, with a total below
  \<open>2 ^ 64\<close> nanoseconds, is the time between two polls when it fits \<open>int64\<close> (zero stands for the
  30 seconds), and otherwise the program refuses to start. With a minus sign the interval is
  accepted as well and is negative: the poll then does not wait at all.
\<close>

theorem xcc_main_interval:
  assumes ps: "\<forall>(n, u)\<in>set ps. known_unit u" "ps \<noteq> []" and total: "nanoseconds ps < 2 ^ 64"
    and env: "env ''NAMESPACE'' = Some ns" "env ''DOMAIN_SUFFIX'' = Some domain"
    and lib: "xcc_lib_ok X" and fl: "flagParse others defaultFlags args = Returns fl"
  shows "(let run = xcc_main X others (env(''GATEWAY_DNS_POLLING_INTERVAL'' \<mapsto> durationText ps)) args in
      if nanoseconds ps < 2 ^ 63
      then \<exists>st. snd run = Some st \<and>
        pollingInterval (st_Reconciler st) = (if nanoseconds ps = 0 then 30 * 10 ^ 9 else int (nanoseconds ps))
      else run = (Exits 1, None)) \<and>
    (0 < nanoseconds ps \<and> nanoseconds ps \<le> 2 ^ 63 \<longrightarrow>
      (\<exists>st. snd (xcc_main X others (env(''GATEWAY_DNS_POLLING_INTERVAL'' \<mapsto> CHR ''-'' # durationText ps)) args) = Some st \<and>
        pollingInterval (st_Reconciler st) = - int (nanoseconds ps)))"
proof -
  note parse = ParseDuration_text [OF ps total]
  have starts: "\<exists>st. snd (xcc_main X others (env(''GATEWAY_DNS_POLLING_INTERVAL'' \<mapsto> s)) args) = Some st \<and>
      st_Reconciler st = newReconciler ns domain d" if "ParseDuration s = Inr d" for s d
    using xcc_main_starts [OF lib fl, of "env(''GATEWAY_DNS_POLLING_INTERVAL'' \<mapsto> s)" ns domain d] env that
    by (simp add: readEnv_Returns)
  have refuses: "xcc_main X others (env(''GATEWAY_DNS_POLLING_INTERVAL'' \<mapsto> s)) args = (Exits 1, None)"
    if "ParseDuration s = Inl e" for s e
    using env that fl by (simp add: xcc_main_def readEnv_def)
  have interval: "pollingInterval (newReconciler ns domain d) = (if d = 0 then 30 * 10 ^ 9 else d)" for d
    by (simp add: pollingInterval_def newReconciler_def defaultPollingInterval_def)
  show ?thesis
    using parse starts [of "durationText ps" "int (nanoseconds ps)"]
      starts [of "CHR ''-'' # durationText ps" "- int (nanoseconds ps)"] refuses [of "durationText ps"]
    by (auto simp: Let_def interval)
qed

theorem xcc_main_interval_witness:
  "\<exists>st. snd (xcc_main ex_xcc_lib (\<lambda>_. None) (ex_xcc_env(''GATEWAY_DNS_POLLING_INTERVAL'' \<mapsto> durationText [(1, ''m''), (30, ''s'')])) []) = Some st
     \<and> pollingInterval (st_Reconciler st) = 90000000000"
proof -
  let ?ps = "[(1, ''m''), (30, ''s'')] :: (nat \<times> string) list"
  have ps: "\<forall>(n, u)\<in>set ?ps. known_unit u" "?ps \<noteq> []" and n: "nanoseconds ?ps = 90000000000"
    by (simp_all add: known_unit_def unitMap_def unitNanos_def)
  then have total: "nanoseconds ?ps < 2 ^ 64" by simp
  have env: "ex_xcc_env ''NAMESPACE'' = Some ''xcc''" "ex_xcc_env ''DOMAIN_SUFFIX'' = Some ''xcc.test''"
    by (simp_all add: ex_xcc_env_def)
  have lib: "xcc_lib_ok ex_xcc_lib" by (simp add: xcc_lib_ok_def ex_xcc_lib_def)
  have fl: "flagParse (\<lambda>_. None) defaultFlags [] = Returns defaultFlags" by simp
  from xcc_main_interval [OF ps total env lib fl] show ?thesis unfolding n by (simp add: Let_def)
qed

end
