(* ===== verification/DNS_Server_Program.thy ===== *)
theory DNS_Server_Program
  imports CrossCluster_Plugin
begin

text \<open>
  The program of the DNS server (\<open>cmd/dns-server/main.go\<close>): CoreDNS with a selection of its
  plugins and the plugin \<open>crosscluster\<close>. What is the program's own is the list of imported plugin
  packages and the list of directives, whose order is the order of the plugins in every server.
  Which directives a package registers is a parameter.
\<close>

section \<open>Plugins and directives\<close>

definition importedPlugins :: "string list" where
  "importedPlugins = [
     ''crosscluster'', ''onevent'', ''acl'', ''any'', ''auto'', ''autopath'', ''bind'', ''bufsize'',
     ''cache'', ''cancel'', ''chaos'', ''debug'', ''dns64'', ''dnssec'', ''dnstap'', ''erratic'', ''errors'',
     ''forward'', ''health'', ''hosts'', ''loadbalance'', ''log'', ''loop'', ''metadata'', ''metrics'',
     ''nsid'', ''pprof'', ''ready'', ''reload'', ''rewrite'', ''root'', ''secondary'', ''sign'',
     ''template'', ''tls'', ''trace'', ''transfer'', ''whoami'']"

definition directives :: "string list" where
  "directives = [
     ''metadata'', ''cancel'', ''tls'', ''reload'', ''nsid'', ''bufsize'', ''root'', ''bind'', ''debug'',
     ''trace'', ''ready'', ''health'', ''pprof'', ''prometheus'', ''errors'', ''log'', ''dnstap'', ''dns64'',
     ''acl'', ''any'', ''chaos'', ''loadbalance'', ''cache'', ''rewrite'', ''dnssec'', ''autopath'',
     ''template'', ''transfer'', ''hosts'', ''auto'', ''crosscluster'', ''secondary'', ''loop'', ''forward'',
     ''erratic'', ''whoami'', ''on'', ''sign'']"

text \<open>\<open>init\<close> replaces the directives of CoreDNS by the program's own.\<close>

definition dns_server_init :: "string list \<Rightarrow> string list" where
  "dns_server_init Directives = directives"

text \<open>\<open>main\<close> runs after \<open>init\<close>; CoreDNS itself, which reads the directives, is a parameter.\<close>

definition dns_server_main :: "(string list \<Rightarrow> 'p) \<Rightarrow> string list \<Rightarrow> 'p" where
  "dns_server_main Run Directives = Run (dns_server_init Directives)"

section \<open>Properties\<close>

text \<open>What the packages register: a directive of the package's name, but for two of them.\<close>

definition package_directive :: "string \<Rightarrow> string" where
  "package_directive p = (if p = ''metrics'' then ''prometheus'' else if p = ''onevent'' then ''on'' else p)"

text \<open>The position of a directive in the list\<close>

fun position :: "'a list \<Rightarrow> 'a \<Rightarrow> nat" where
  "position [] x = 0"
| "position (y # ys) x = (if x = y then 0 else Suc (position ys x))"



end
