(* ===== verification/DNS_Config.thy ===== *)
theory DNS_Config
  imports Kube_API
begin

text \<open>
  The patcher of the cluster's DNS configuration: it waits for the address of the DNS server's
  service (\<open>pkg/dnsconfig/dns_service_watcher.go\<close>), writes a server block that forwards the
  connectivity domain to it into the Corefile (\<open>pkg/dnsconfig/corefile_patcher.go\<close>), and
  ends (\<open>cmd/dns-config-patcher/main.go\<close>). The client's calls are parameters on an abstract
  world, as is the choice of the \<open>select\<close> statement of the wait; the locale \<open>config_world\<close>
  states what is relied upon. The regular expression is modelled by what it matches.
\<close>

section \<open>The Corefile\<close>

definition sectionBegin :: string where
  "sectionBegin = ''### BEGIN CROSS CLUSTER CONNECTIVITY''"

definition sectionEnd :: string where
  "sectionEnd = ''### END CROSS CLUSTER CONNECTIVITY''"

abbreviation newline :: string where
  "newline \<equiv> [CHR 0x0A]"

definition xccForwardBlock :: "string \<Rightarrow> string \<Rightarrow> string" where
  "xccForwardBlock domainSuffix forwardingIP =
     sectionBegin @ newline
     @ domainSuffix @ '' {'' @ newline
     @ ''    forward . '' @ forwardingIP @ newline
     @ ''    reload'' @ newline
     @ ''}'' @ newline
     @ sectionEnd"

text \<open>The class \<open>\s\<close>: tab, newline, form feed, carriage return and space\<close>

definition regexpSpace :: "char \<Rightarrow> bool" where
  "regexpSpace c \<longleftrightarrow> (of_char c :: nat) \<in> {9, 10, 12, 13, 32}"

text \<open>What follows the last occurrence of \<open>t\<close>\<close>

fun afterLast :: "string \<Rightarrow> string \<Rightarrow> string option" where
  "afterLast t [] = (if t = [] then Some [] else None)"
| "afterLast t (x # xs) =
     (case afterLast t xs of
        Some r \<Rightarrow> Some r
      | None \<Rightarrow> if prefix t (x # xs) then Some (drop (length t) (x # xs)) else None)"

text \<open>
  \<open>serverBlockRegexp.ReplaceAllString(corefile, "")\<close>: the leftmost match starts at a white space
  before the marker of the beginning, and \<open>.*\<close>, which also matches newlines, extends it to the
  last marker of the end. Nothing after that matches again, for want of an end marker.
\<close>

fun removeBlocks :: "string \<Rightarrow> string" where
  "removeBlocks [] = []"
| "removeBlocks (x # xs) =
     (if regexpSpace x \<and> prefix sectionBegin xs then
        (case afterLast sectionEnd (drop (length sectionBegin) xs) of
           Some rest \<Rightarrow> rest
         | None \<Rightarrow> x # removeBlocks xs)
      else x # removeBlocks xs)"

definition stripXCCBlock :: "string \<Rightarrow> string" where
  "stripXCCBlock corefile = strings_TrimSpace (removeBlocks corefile)"

section \<open>Patching\<close>

record 'w config_api =
  api_getService :: "NamespacedName \<Rightarrow> ('w, Service) io"
  api_getConfigMap :: "NamespacedName \<Rightarrow> ('w, ConfigMap) io"
  api_updateConfigMap :: "ConfigMap \<Rightarrow> ('w, unit) io"

record CorefilePatcher =
  cp_DomainSuffix :: string
  cp_Namespace :: string
  cp_ConfigMapName :: string

definition AppendStubDomainBlock :: "'w config_api \<Rightarrow> CorefilePatcher \<Rightarrow> string \<Rightarrow> ('w, unit) io" where
  "AppendStubDomainBlock A c forwardingIP =
     io_bind (api_getConfigMap A \<lparr>Namespace = cp_Namespace c, Name = cp_ConfigMapName c\<rparr>) (\<lambda>configMap.
       let xccBlock = xccForwardBlock (cp_DomainSuffix c) forwardingIP;
           corefile = smGet (cm_Data configMap) ''Corefile''
       in if strings_Contains corefile xccBlock then io_return ()
          else (case cm_Data configMap of
              None \<Rightarrow> io_of (Panic AssignmentToNilMap)
            | Some m \<Rightarrow> api_updateConfigMap A (configMap\<lparr>cm_Data :=
                Some (m(''Corefile'' \<mapsto> stripXCCBlock corefile @ newline @ xccBlock @ newline))\<rparr>)))"

section \<open>Waiting for the service\<close>

record DNSServiceWatcher =
  dw_Namespace :: string
  dw_ServiceName :: string

text \<open>
  \<open>wait\<close> is the \<open>select\<close>: whether the context was done (rather than the polling interval
  over). \<open>errText\<close> prints an error. The loop may run forever; not returning is \<open>None\<close>.
\<close>

abbreviation quoteMark :: string where
  "quoteMark \<equiv> [CHR 0x22]"

definition serviceText :: "DNSServiceWatcher \<Rightarrow> string" where
  "serviceText d = quoteMark @ dw_Namespace d @ ''/'' @ dw_ServiceName d @ quoteMark"

definition timedOut :: "DNSServiceWatcher \<Rightarrow> string \<Rightarrow> go_error" where
  "timedOut d helpfulError =
     OtherError (''Timed out obtaining ClusterIP from service '' @ serviceText d @ '': '' @ helpfulError)"

definition noClusterIP :: "DNSServiceWatcher \<Rightarrow> string" where
  "noClusterIP d = ''service '' @ serviceText d @ '' does not have a ClusterIP''"

partial_function (option) GetDNSServiceClusterIP ::
    "'w config_api \<Rightarrow> ('w \<Rightarrow> bool \<times> 'w) \<Rightarrow> (go_error \<Rightarrow> string) \<Rightarrow> DNSServiceWatcher \<Rightarrow> 'w
      \<Rightarrow> (string go_result \<times> 'w) option" where
  "GetDNSServiceClusterIP A wait errText d w =
     (case api_getService A \<lparr>Namespace = dw_Namespace d, Name = dw_ServiceName d\<rparr> w of
        (Panic p, w1) \<Rightarrow> Some (Panic p, w1)
      | (Ok dnsService, w1) \<Rightarrow>
          if svc_ClusterIP dnsService \<noteq> '''' then Some (Ok (svc_ClusterIP dnsService), w1)
          else if fst (wait w1) then Some (Err (timedOut d (noClusterIP d)), snd (wait w1))
          else GetDNSServiceClusterIP A wait errText d (snd (wait w1))
      | (Err err, w1) \<Rightarrow>
          if fst (wait w1) then Some (Err (timedOut d (errText err)), snd (wait w1))
          else GetDNSServiceClusterIP A wait errText d (snd (wait w1)))"

section \<open>The program\<close>

text \<open>
  \<open>getEnvVarOrDie\<close> ends the process where a variable is not set; the five variables are read in
  this order. \<open>connect\<close> is the creation of the client.
\<close>

definition getEnvVarOrDie :: "(string \<rightharpoonup> string) \<Rightarrow> string \<Rightarrow> string process" where
  "getEnvVarOrDie env name = (case env name of None \<Rightarrow> Exits 1 | Some v \<Rightarrow> Returns v)"

definition andThen :: "'a process \<Rightarrow> ('a \<Rightarrow> ('b process \<times> 'w) option) \<Rightarrow> 'w \<Rightarrow> ('b process \<times> 'w) option" where
  "andThen m f w = (case m of Exits n \<Rightarrow> Some (Exits n, w) | Returns x \<Rightarrow> f x)"

text \<open>A panic ends the process with status 2.\<close>

definition orExit :: "'a go_result \<Rightarrow> 'a process" where
  "orExit r = (case r of Ok x \<Rightarrow> Returns x | Err e \<Rightarrow> Exits 1 | Panic p \<Rightarrow> Exits 2)"

definition patcher_main ::
    "(string \<rightharpoonup> string) \<Rightarrow> ('w, 'w config_api) io \<Rightarrow> ('w \<Rightarrow> bool \<times> 'w) \<Rightarrow> (go_error \<Rightarrow> string) \<Rightarrow> 'w
      \<Rightarrow> (unit process \<times> 'w) option" where
  "patcher_main env connect wait errText w =
     andThen (getEnvVarOrDie env ''DNS_SERVICE_NAMESPACE'') (\<lambda>dnsServiceNamespace.
     andThen (getEnvVarOrDie env ''DNS_SERVICE_NAME'') (\<lambda>dnsServiceName.
     andThen (getEnvVarOrDie env ''COREFILE_CONFIGMAP_NAMESPACE'') (\<lambda>corefileConfigMapNamespace.
     andThen (getEnvVarOrDie env ''COREFILE_CONFIGMAP_NAME'') (\<lambda>corefileConfigMapName.
     andThen (getEnvVarOrDie env ''DOMAIN_SUFFIX'') (\<lambda>domainSuffix.
       (case connect w of (r, w1) \<Rightarrow>
        andThen (orExit r) (\<lambda>client.
          (case GetDNSServiceClusterIP client wait errText
                  \<lparr>dw_Namespace = dnsServiceNamespace, dw_ServiceName = dnsServiceName\<rparr> w1 of
             None \<Rightarrow> None
           | Some (r, w2) \<Rightarrow>
               andThen (orExit r) (\<lambda>dnsServiceClusterIP.
                 (case AppendStubDomainBlock client \<lparr>cp_DomainSuffix = domainSuffix,
                        cp_Namespace = corefileConfigMapNamespace, cp_ConfigMapName = corefileConfigMapName\<rparr>
                        dnsServiceClusterIP w2 of
                    (r, w3) \<Rightarrow> Some (orExit r, w3))) w2)) w1)) w) w) w) w) w"

section \<open>What the strip removes\<close>

lemma afterLast_None: "t \<noteq> [] \<Longrightarrow> afterLast t s = None \<longleftrightarrow> \<not> sublist t s"
  by (induction t s rule: afterLast.induct) (auto simp: sublist_Cons_right split: option.splits)

text \<open>A text none of whose proper suffixes begins it cannot overlap itself.\<close>

definition unbordered :: "string \<Rightarrow> bool" where
  "unbordered t \<longleftrightarrow> t \<noteq> [] \<and> (\<forall>u\<in>set (suffixes (tl t)). u = [] \<or> \<not> prefix u t)"

lemma unbordered_overlap:
  assumes "unbordered t" and "\<not> sublist t ys" and "suffix u (tl t)"
  shows "\<not> sublist t (u @ ys)"
  using assms(3)
proof (induction u)
  case Nil
  then show ?case using assms(2) by simp
next
  case (Cons x u)
  have t: "t \<noteq> []" "\<not> prefix (x # u) t" using assms(1) Cons.prems by (auto simp: unbordered_def)
  have "length (x # u) < length t" using suffix_length_le [OF Cons.prems] t(1) by (cases t) auto
  then have "\<not> prefix t (x # u)" using prefix_length_le by fastforce
  with t(2) have "\<not> prefix t ((x # u) @ ys)" by (metis prefixI prefix_same_cases)
  moreover have "suffix u (tl t)" using Cons.prems suffix_ConsD by metis
  ultimately show ?case using Cons.IH by (simp add: sublist_Cons_right)
qed

lemma afterLast_found:
  assumes "unbordered t" and "\<not> sublist t ys"
  shows "afterLast t (xs @ t @ ys) = Some ys"
proof (induction xs)
  case Nil
  obtain c u where t: "t = c # u" using assms(1) by (cases t) (auto simp: unbordered_def)
  have "\<not> sublist t (u @ ys)" using unbordered_overlap [OF assms, of u] t by simp
  then have "afterLast t (u @ ys) = None" using t by (simp add: afterLast_None)
  then show ?case by (simp add: t)
qed simp

lemma unbordered_sectionEnd: "unbordered sectionEnd"
  unfolding unbordered_def by code_simp

lemma removeBlocks_none: "\<not> sublist sectionBegin s \<Longrightarrow> removeBlocks s = s"
  by (induction s) (auto simp: sublist_Cons_right)

text \<open>The begin marker does not overlap a white space that is followed by a begin marker.\<close>

lemma begin_no_overlap:
  assumes "regexpSpace x" and "prefix sectionBegin (u @ x # sectionBegin @ rest)"
  shows "prefix sectionBegin u"
proof (rule ccontr)
  assume "\<not> prefix sectionBegin u"
  then have len: "length u < length sectionBegin"
    using assms(2) by (metis append_eq_append_conv_if leI prefix_append prefix_def prefix_length_prefix prefixI)
  have all: "\<forall>i<length sectionBegin. \<not> (regexpSpace (sectionBegin ! i) \<and>
      (Suc i < length sectionBegin \<longrightarrow> sectionBegin ! Suc i = hd sectionBegin))"
    by code_simp
  from assms(2) obtain v where eq: "u @ x # sectionBegin @ rest = sectionBegin @ v" by (auto simp: prefix_def)
  have "(sectionBegin @ v) ! length u = x" using eq by (metis nth_append_length)
  then have "sectionBegin ! length u = x" using len by (simp add: nth_append)
  moreover have "Suc (length u) < length sectionBegin \<longrightarrow> sectionBegin ! Suc (length u) = hd sectionBegin"
  proof
    assume l: "Suc (length u) < length sectionBegin"
    have "(sectionBegin @ v) ! Suc (length u) = (sectionBegin @ rest) ! 0"
      using eq by (metis append_Cons append_Nil append_assoc length_append_singleton nth_append_length_plus nth_Cons_Suc plus_nat.add_0 add.right_neutral)
    moreover have "(sectionBegin @ rest) ! 0 = hd sectionBegin" by (simp add: sectionBegin_def)
    ultimately show "sectionBegin ! Suc (length u) = hd sectionBegin"
      using l by (simp add: nth_append)
  qed
  ultimately show False using all len assms(1) by blast
qed

lemma removeBlocks_block:
  assumes "\<not> sublist sectionBegin pre" and "regexpSpace x" and "afterLast sectionEnd rest = Some post"
  shows "removeBlocks (pre @ x # sectionBegin @ rest) = pre @ post"
  using assms(1)
proof (induction pre)
  case Nil
  then show ?case using assms(2,3) by simp
next
  case (Cons y pre)
  have "\<not> prefix sectionBegin (pre @ x # sectionBegin @ rest)"
    using begin_no_overlap [OF assms(2)] Cons.prems by (meson prefix_imp_sublist sublist_Cons_right)
  with Cons show ?case by (simp add: sublist_Cons_right)
qed

section \<open>Trimming\<close>

lemma space_newline: "\<forall>r\<in>set space_runes. CHR 0x0A \<in> set r \<longrightarrow> r = newline"
  by code_simp

lemma newline_space: "newline \<in> set space_runes" "[] \<notin> set space_runes"
  by code_simp+

lemma space_newline_rev:
  "newline \<in> set (map rev space_runes)" "\<forall>r\<in>set (map rev space_runes). CHR 0x0A \<in> set r \<longrightarrow> r = newline"
  "[] \<notin> set (map rev space_runes)"
  by code_simp+

lemma trimPrefixes_newline:
  assumes "newline \<in> set rs" and "\<forall>r\<in>set rs. CHR 0x0A \<in> set r \<longrightarrow> r = newline" and "[] \<notin> set rs"
  shows "trimPrefixes rs (CHR 0x0A # s) = trimPrefixes rs s"
proof -
  obtain r where r: "find (\<lambda>r. r \<noteq> [] \<and> prefix r (CHR 0x0A # s)) rs = Some r"
    using assms(1) by (cases "find (\<lambda>r. r \<noteq> [] \<and> prefix r (CHR 0x0A # s)) rs") (auto simp: find_None_iff)
  then have "r \<in> set rs \<and> r \<noteq> [] \<and> prefix r (CHR 0x0A # s)" by (rule find_SomeD)
  then have "r = newline" using assms(2) by (cases r) auto
  with r show ?thesis by (subst trimPrefixes.simps) simp
qed

lemma trimPrefixes_before_newline:
  assumes "\<forall>r\<in>set rs. CHR 0x0A \<in> set r \<longrightarrow> r = newline" and "s \<noteq> []" and "trimPrefixes rs s = s"
  shows "trimPrefixes rs (s @ newline) = s @ newline"
proof (rule trimPrefixes_id)
  fix r assume r: "r \<in> set rs" "r \<noteq> []"
  have "\<not> prefix r s" using trimPrefixes_stop [OF r, of s] assms(3) by simp
  show "\<not> prefix r (s @ newline)"
  proof
    assume "prefix r (s @ newline)"
    with \<open>\<not> prefix r s\<close> have "r = s @ newline" by (simp add: prefix_snoc)
    then have "r = newline" using assms(1) r(1) by (metis in_set_conv_decomp)
    with \<open>r = s @ newline\<close> assms(2) show False by simp
  qed
qed

lemma trimmed:
  "trimPrefixes space_runes (strings_TrimSpace s) = strings_TrimSpace s"
  "trimPrefixes (map rev space_runes) (rev (strings_TrimSpace s)) = rev (strings_TrimSpace s)"
proof -
  let ?l = "trimPrefixes space_runes s"
  show "trimPrefixes (map rev space_runes) (rev (strings_TrimSpace s)) = rev (strings_TrimSpace s)"
    by (rule trimPrefixes_id) (simp add: strings_TrimSpace_def trimPrefixes_stop)
  have pre: "prefix (strings_TrimSpace s) ?l"
    using trimPrefixes_suffix [of "map rev space_runes" "rev ?l"]
    by (simp add: strings_TrimSpace_def suffix_to_prefix)
  show "trimPrefixes space_runes (strings_TrimSpace s) = strings_TrimSpace s"
  proof (rule trimPrefixes_id)
    fix r assume "r \<in> set space_runes" "r \<noteq> []"
    then have "\<not> prefix r ?l" by (rule trimPrefixes_stop)
    with pre show "\<not> prefix r (strings_TrimSpace s)" by (meson prefix_order.order_trans)
  qed
qed

lemma TrimSpace_id:
  assumes "trimPrefixes space_runes s = s" and "trimPrefixes (map rev space_runes) (rev s) = rev s"
  shows "strings_TrimSpace s = s"
  using assms by (simp add: strings_TrimSpace_def)

lemma TrimSpace_idem: "strings_TrimSpace (strings_TrimSpace s) = strings_TrimSpace s"
  by (rule TrimSpace_id [OF trimmed])

lemma TrimSpace_newline: "strings_TrimSpace (strings_TrimSpace s @ newline) = strings_TrimSpace s"
proof (cases "strings_TrimSpace s = []")
  case True
  then show ?thesis by simp code_simp
next
  case False
  let ?t = "strings_TrimSpace s"
  have "trimPrefixes space_runes (?t @ newline) = ?t @ newline"
    by (rule trimPrefixes_before_newline [OF space_newline False trimmed(1)])
  moreover have "trimPrefixes (map rev space_runes) (CHR 0x0A # rev ?t) = trimPrefixes (map rev space_runes) (rev ?t)"
    by (rule trimPrefixes_newline [OF space_newline_rev])
  ultimately show ?thesis by (simp add: strings_TrimSpace_def [of "?t @ newline"] trimmed(2))
qed

section \<open>The patched Corefile\<close>

text \<open>What the Corefile becomes\<close>

definition patchCorefile :: "string \<Rightarrow> string \<Rightarrow> string" where
  "patchCorefile corefile block =
     (if strings_Contains corefile block then corefile else stripXCCBlock corefile @ newline @ block @ newline)"

definition unmarked :: "string \<Rightarrow> bool" where
  "unmarked s \<longleftrightarrow> \<not> sublist sectionBegin s \<and> \<not> sublist sectionEnd s"

definition blockBody :: "string \<Rightarrow> string \<Rightarrow> string" where
  "blockBody domain ip = newline @ domain @ '' {'' @ newline @ ''    forward . '' @ ip @ newline
     @ ''    reload'' @ newline @ ''}'' @ newline"

lemma xccForwardBlock_shape: "xccForwardBlock domain ip = sectionBegin @ blockBody domain ip @ sectionEnd"
  unfolding xccForwardBlock_def blockBody_def append_assoc by (rule refl)

lemma block_contained: "strings_Contains (patchCorefile c b) b"
proof (cases "strings_Contains c b")
  case False
  then show ?thesis using Contains_append [of "stripXCCBlock c @ newline" b newline] by (simp add: patchCorefile_def)
qed (simp add: patchCorefile_def)

lemma unmarked_no_block: "unmarked c \<Longrightarrow> \<not> strings_Contains c (xccForwardBlock domain ip)"
  unfolding xccForwardBlock_shape strings_Contains_def unmarked_def
  by (meson prefix_append prefix_imp_sublist prefix_order.refl sublist_order.order_trans)

lemma strip_unmarked: "unmarked c \<Longrightarrow> stripXCCBlock c = strings_TrimSpace c"
  by (simp add: stripXCCBlock_def unmarked_def removeBlocks_none)

text \<open>A section is removed with the white space before it; what is around it stays.\<close>

lemma strip_section:
  assumes "\<not> sublist sectionBegin pre" and "regexpSpace x" and "\<not> sublist sectionEnd post"
  shows "stripXCCBlock (pre @ x # sectionBegin @ mid @ sectionEnd @ post) = strings_TrimSpace (pre @ post)"
proof -
  have "afterLast sectionEnd (mid @ sectionEnd @ post) = Some post"
    by (rule afterLast_found [OF unbordered_sectionEnd assms(3)])
  from removeBlocks_block [OF assms(1,2) this] show ?thesis by (simp add: stripXCCBlock_def)
qed

text \<open>
  Patching a Corefile again, for another domain or address, replaces the section: the result is
  as if the Corefile had been patched with the new section only.
\<close>

lemma newline_space_class: "regexpSpace (CHR 0x0A)"
  by code_simp

lemma end_not_newline: "\<not> sublist sectionEnd newline"
  by code_simp

lemma patch_unmarked:
  "unmarked c \<Longrightarrow> patchCorefile c (xccForwardBlock domain ip)
     = strings_TrimSpace c @ newline @ xccForwardBlock domain ip @ newline"
  by (simp add: patchCorefile_def unmarked_no_block strip_unmarked)

lemma strip_patched:
  assumes "unmarked c"
  shows "stripXCCBlock (patchCorefile c (xccForwardBlock domain ip)) = strings_TrimSpace c"
proof -
  have "\<not> sublist sectionBegin (strings_TrimSpace c)"
    using assms TrimSpace_sublist [of c] by (metis sublist_order.order_trans unmarked_def)
  from strip_section [OF this newline_space_class end_not_newline, of "blockBody domain ip"]
  have "stripXCCBlock (strings_TrimSpace c @ newline @ xccForwardBlock domain ip @ newline)
      = strings_TrimSpace (strings_TrimSpace c @ newline)"
    by (simp only: xccForwardBlock_shape append_assoc append_Cons append_Nil)
  then show ?thesis by (simp only: patch_unmarked [OF assms] TrimSpace_newline)
qed

lemma patch_again:
  assumes "unmarked c" and "\<not> strings_Contains (patchCorefile c (xccForwardBlock d1 i1)) (xccForwardBlock d2 i2)"
  shows "patchCorefile (patchCorefile c (xccForwardBlock d1 i1)) (xccForwardBlock d2 i2)
    = patchCorefile c (xccForwardBlock d2 i2)"
  unfolding patch_unmarked [OF assms(1), of d2 i2]
  by (simp only: patchCorefile_def [of "patchCorefile c (xccForwardBlock d1 i1)"] assms(2) if_False strip_patched [OF assms(1)])

section \<open>The cluster's objects\<close>

text \<open>
  \<open>cms\<close> are the ConfigMaps and \<open>csvcs\<close> the services of the cluster. Reads return what is there,
  a successful update is applied, and calls report failure by an error.
\<close>

record 'w config_view =
  cms :: "'w \<Rightarrow> NamespacedName \<rightharpoonup> ConfigMap"
  csvcs :: "'w \<Rightarrow> NamespacedName \<rightharpoonup> Service"

definition same_config :: "'w config_view \<Rightarrow> 'w \<Rightarrow> 'w \<Rightarrow> bool" where
  "same_config V w w' \<longleftrightarrow> cms V w' = cms V w \<and> csvcs V w' = csvcs V w"

locale config_world =
  fixes A :: "'w config_api" and V :: "'w config_view"
  assumes cm_keyed: "cms V w k = Some cm \<Longrightarrow> cm_key cm = k"
    and service_returns: "api_getService A k w \<noteq> (Panic p, w')"
    and configMap_returns: "api_getConfigMap A k w \<noteq> (Panic p, w')"
    and update_returns: "api_updateConfigMap A cm w \<noteq> (Panic p, w')"
    and service_keeps: "api_getService A k w = (rs, w') \<Longrightarrow> same_config V w w'"
    and service_ok: "api_getService A k w = (Ok s, w') \<Longrightarrow> csvcs V w k = Some s"
    and configMap_keeps: "api_getConfigMap A k w = (rc, w') \<Longrightarrow> same_config V w w'"
    and configMap_ok: "api_getConfigMap A k w = (Ok cm, w') \<Longrightarrow> cms V w k = Some cm"
    and update_ok: "api_updateConfigMap A cm w = (Ok u, w') \<Longrightarrow>
      \<exists>m. cms V w' = (cms V w)(cm_key cm \<mapsto> cm\<lparr>cm_Other := m\<rparr>) \<and> csvcs V w' = csvcs V w"
begin

lemma Append_updates:
  assumes run: "AppendStubDomainBlock A c ip w = (r, w')"
    and k: "k = \<lparr>Namespace = cp_Namespace c, Name = cp_ConfigMapName c\<rparr>"
    and b: "b = xccForwardBlock (cp_DomainSuffix c) ip"
    and get: "api_getConfigMap A k w = (Ok cm, w1)" and m: "cm_Data cm = Some m"
    and new: "\<not> strings_Contains (smGet (cm_Data cm) ''Corefile'') b"
  shows "(\<forall>p. r \<noteq> Panic p) \<and> (r = Ok () \<longrightarrow> (\<exists>cm' m'. cms V w' = (cms V w)(k \<mapsto> cm') \<and> cm_Data cm' = Some m' \<and>
    csvcs V w' = csvcs V w \<and> m' ''Corefile'' = Some (patchCorefile (smGet (cm_Data cm) ''Corefile'') b) \<and>
    (\<forall>x. x \<noteq> ''Corefile'' \<longrightarrow> m' x = m x)))"
proof -
  let ?m = "m(''Corefile'' \<mapsto> patchCorefile (smGet (cm_Data cm) ''Corefile'') b)"
  have same: "cms V w1 = cms V w" "csvcs V w1 = csvcs V w" using configMap_keeps [OF get] by (simp_all add: same_config_def)
  have key: "cm_key cm = k" using configMap_ok get cm_keyed by blast
  have upd: "api_updateConfigMap A (cm\<lparr>cm_Data := Some ?m\<rparr>) w1 = (r, w')"
    using run get m new by (auto simp: AppendStubDomainBlock_def k b Let_def patchCorefile_def)
  show ?thesis
  proof (cases r)
    case (Ok u)
    from update_ok [OF upd [unfolded Ok]] key same obtain mt where
      "cms V w' = (cms V w)(k \<mapsto> cm\<lparr>cm_Data := Some ?m, cm_Other := mt\<rparr>)" "csvcs V w' = csvcs V w" by auto
    with Ok show ?thesis
      by (intro conjI impI exI [of _ "cm\<lparr>cm_Data := Some ?m, cm_Other := mt\<rparr>"] exI [of _ ?m]) simp_all
  next
    case (Panic p)
    with upd update_returns show ?thesis by blast
  qed simp
qed

text \<open>
  The outcome of patching: no panic unless the ConfigMap has no data; without error, the Corefile
  is the patched one, other data and other ConfigMaps are kept.
\<close>

lemma Append_spec:
  assumes run: "AppendStubDomainBlock A c ip w = (r, w')"
    and k: "k = \<lparr>Namespace = cp_Namespace c, Name = cp_ConfigMapName c\<rparr>"
    and b: "b = xccForwardBlock (cp_DomainSuffix c) ip"
  shows "(\<forall>p. r = Panic p \<longrightarrow> p = AssignmentToNilMap \<and> (\<exists>cm. cms V w k = Some cm \<and> cm_Data cm = None)) \<and>
    (r = Ok () \<longrightarrow> (\<exists>cm m cm' m'. cms V w k = Some cm \<and> cm_Data cm = Some m \<and> cms V w' = (cms V w)(k \<mapsto> cm') \<and>
       cm_Data cm' = Some m' \<and> csvcs V w' = csvcs V w \<and>
       m' ''Corefile'' = Some (patchCorefile (smGet (cm_Data cm) ''Corefile'') b) \<and>
       (\<forall>x. x \<noteq> ''Corefile'' \<longrightarrow> m' x = m x)))"
proof -
  obtain rc w1 where g: "api_getConfigMap A k w = (rc, w1)" by fastforce
  have same: "cms V w1 = cms V w" "csvcs V w1 = csvcs V w" using configMap_keeps [OF g] by (simp_all add: same_config_def)
  show ?thesis
  proof (cases rc)
    case (Ok cm)
    have cm: "cms V w k = Some cm" "cm_key cm = k" using configMap_ok g cm_keyed unfolding Ok by blast+
    let ?f = "smGet (cm_Data cm) ''Corefile''"
    show ?thesis
    proof (cases "strings_Contains ?f b")
      case True
      then have "?f \<noteq> []" by (auto simp: b xccForwardBlock_shape sectionBegin_def strings_Contains_def)
      then obtain m where m: "cm_Data cm = Some m" "m ''Corefile'' = Some ?f"
        by (auto simp: smGet_def smLookup_def split: option.splits)
      have "r = Ok () \<and> w' = w1" using run g Ok True by (auto simp: AppendStubDomainBlock_def k b Let_def)
      moreover have "cms V w' = (cms V w)(k \<mapsto> cm)" using cm(1) same calculation by auto
      moreover have "patchCorefile ?f b = ?f" using True by (simp add: patchCorefile_def)
      ultimately show ?thesis using cm(1) m same
        by (intro conjI impI exI [of _ cm] exI [of _ m]) (simp_all only: simp_thms go_result.distinct)
    next
      case False
      show ?thesis
      proof (cases "cm_Data cm")
        case None
        then have "r = Panic AssignmentToNilMap" using run g Ok False by (auto simp: AppendStubDomainBlock_def k b Let_def)
        with cm(1) None show ?thesis by auto
      next
        case (Some m)
        note upd = Append_updates [OF run k b g [unfolded Ok] Some False]
        show ?thesis
        proof (intro conjI impI)
          assume "r = Ok ()"
          with upd obtain cm' m' where "cms V w' = (cms V w)(k \<mapsto> cm')" "cm_Data cm' = Some m'" "csvcs V w' = csvcs V w"
            "m' ''Corefile'' = Some (patchCorefile ?f b)" "\<forall>x. x \<noteq> ''Corefile'' \<longrightarrow> m' x = m x" by blast
          with cm(1) Some show "\<exists>cm m cm' m'. cms V w k = Some cm \<and> cm_Data cm = Some m \<and> cms V w' = (cms V w)(k \<mapsto> cm') \<and>
            cm_Data cm' = Some m' \<and> csvcs V w' = csvcs V w \<and>
            m' ''Corefile'' = Some (patchCorefile (smGet (cm_Data cm) ''Corefile'') b) \<and> (\<forall>x. x \<noteq> ''Corefile'' \<longrightarrow> m' x = m x)"
            by (intro exI [of _ cm] exI [of _ m] exI [of _ cm'] exI [of _ m']) simp
        qed (use upd in blast)
      qed
    qed
  next
    case (Err e)
    with run g show ?thesis by (auto simp: AppendStubDomainBlock_def k Let_def)
  next
    case (Panic p)
    with g configMap_returns show ?thesis by blast
  qed
qed

end

section \<open>The wait ends\<close>

text \<open>
  The context of the wait has a deadline: \<open>budget\<close> bounds the number of intervals that can still
  elapse before the context is done, and waiting touches no object.
\<close>

locale config_wait = config_world A V
  for A :: "'w config_api" and V :: "'w config_view" +
  fixes wait :: "'w \<Rightarrow> bool \<times> 'w" and budget :: "'w \<Rightarrow> nat"
  assumes wait_keeps: "same_config V w (snd (wait w))"
    and wait_ends: "\<not> fst (wait w) \<Longrightarrow> budget (snd (wait w)) < budget w"
    and service_budget: "api_getService A k w = (rs, w') \<Longrightarrow> budget w' \<le> budget w"
begin

lemma GetDNSServiceClusterIP_spec:
  fixes errText :: "go_error \<Rightarrow> string"
  shows "\<exists>r w'. GetDNSServiceClusterIP A wait errText d w = Some (r, w') \<and> same_config V w w' \<and>
    ((\<exists>s. r = Ok (svc_ClusterIP s) \<and> svc_ClusterIP s \<noteq> '''' \<and>
        csvcs V w \<lparr>Namespace = dw_Namespace d, Name = dw_ServiceName d\<rparr> = Some s) \<or>
     (\<exists>t. r = Err (timedOut d t)))"
proof (induction "budget w" arbitrary: w rule: less_induct)
  case less
  let ?k = "\<lparr>Namespace = dw_Namespace d, Name = dw_ServiceName d\<rparr>"
  note unfold = GetDNSServiceClusterIP.simps [of A wait errText d w]
  obtain r1 w1 where g: "api_getService A ?k w = (r1, w1)" by fastforce
  note same1 = service_keeps [OF g] and same2 = wait_keeps [of w1]
  have next': "\<exists>r w'. GetDNSServiceClusterIP A wait errText d (snd (wait w1)) = Some (r, w') \<and> same_config V w w' \<and>
      ((\<exists>s. r = Ok (svc_ClusterIP s) \<and> svc_ClusterIP s \<noteq> '''' \<and> csvcs V w ?k = Some s) \<or> (\<exists>t. r = Err (timedOut d t)))"
    if "\<not> fst (wait w1)"
  proof -
    have "budget (snd (wait w1)) < budget w" using wait_ends [OF that] service_budget [OF g] by simp
    from less [OF this] same1 same2 show ?thesis by (auto simp: same_config_def)
  qed
  have wsame: "same_config V w (snd (wait w1))" using same1 same2 by (simp add: same_config_def)
  show ?case
  proof (cases r1)
    case (Ok s)
    have "csvcs V w ?k = Some s" using service_ok g Ok by blast
    with g Ok next' wsame same1 show ?thesis by (cases "svc_ClusterIP s = ''''"; cases "fst (wait w1)") (auto simp: unfold)
  next
    case (Err e)
    with g next' wsame show ?thesis by (cases "fst (wait w1)") (auto simp: unfold)
  next
    case (Panic p)
    with g service_returns show ?thesis by blast
  qed
qed

end

section \<open>A cluster in memory\<close>

record mem_config =
  mc_maps :: "NamespacedName \<rightharpoonup> ConfigMap"
  mc_services :: "NamespacedName \<rightharpoonup> Service"
  mc_ticks :: nat

definition mem_config_api :: "mem_config config_api" where
  "mem_config_api = \<lparr>
     api_getService = (\<lambda>k w. (case mc_services w k of None \<Rightarrow> Err NotFound | Some s \<Rightarrow> Ok s, w)),
     api_getConfigMap = (\<lambda>k w. (case mc_maps w k of None \<Rightarrow> Err NotFound
        | Some cm \<Rightarrow> Ok (cm\<lparr>cm_key := k\<rparr>), w)),
     api_updateConfigMap = (\<lambda>cm w. if mc_maps w (cm_key cm) = None then (Err NotFound, w)
        else (Ok (), w\<lparr>mc_maps := (mc_maps w)(cm_key cm \<mapsto> cm)\<rparr>))\<rparr>"

definition mem_config_view :: "mem_config config_view" where
  "mem_config_view = \<lparr>cms = (\<lambda>w k. map_option (\<lambda>cm. cm\<lparr>cm_key := k\<rparr>) (mc_maps w k)), csvcs = mc_services\<rparr>"

text \<open>The clock runs out after \<open>mc_ticks\<close> intervals.\<close>

definition mem_wait :: "mem_config \<Rightarrow> bool \<times> mem_config" where
  "mem_wait w = (mc_ticks w = 0, w\<lparr>mc_ticks := mc_ticks w - 1\<rparr>)"

lemma cm_key_self: "cm_key cm = k \<Longrightarrow> cm\<lparr>cm_key := k\<rparr> = (cm :: ConfigMap)"
  by (cases cm) simp

interpretation mem_config: config_wait mem_config_api mem_config_view mem_wait mc_ticks
proof (unfold_locales, goal_cases)
  case (9 cm w u w')
  then show ?case
    by (auto simp: mem_config_api_def mem_config_view_def fun_eq_iff cm_key_self split: if_splits
        intro!: exI [of _ "cm_Other cm"])
qed (auto simp: mem_config_api_def mem_config_view_def same_config_def mem_wait_def split: option.splits if_splits)

section \<open>Properties\<close>

text \<open>
  C29. Patching a ConfigMap without error leaves a Corefile that contains the server block for the
  domain and the address; all other data of the ConfigMap and all other ConfigMaps are kept. The
  only panic is the assignment to a missing data map, of a ConfigMap that has no data at all.
\<close>

theorem AppendStubDomainBlock_patches:
  assumes "config_world A V" and "AppendStubDomainBlock A c ip w = (r, w')"
    and "k = \<lparr>Namespace = cp_Namespace c, Name = cp_ConfigMapName c\<rparr>"
  shows "(\<forall>p. r = Panic p \<longrightarrow> p = AssignmentToNilMap \<and> (\<exists>cm. cms V w k = Some cm \<and> cm_Data cm = None)) \<and>
    (r = Ok () \<longrightarrow> (\<exists>cm m cm' m' f. cms V w k = Some cm \<and> cm_Data cm = Some m \<and> cms V w' = (cms V w)(k \<mapsto> cm') \<and>
       cm_Data cm' = Some m' \<and> m' ''Corefile'' = Some f \<and> strings_Contains f (xccForwardBlock (cp_DomainSuffix c) ip) \<and>
       (\<forall>x. x \<noteq> ''Corefile'' \<longrightarrow> m' x = m x)))"
proof (rule conjI [OF conjunct1 [OF config_world.Append_spec [OF assms refl]]], rule impI)
  let ?b = "xccForwardBlock (cp_DomainSuffix c) ip"
  assume "r = Ok ()"
  with config_world.Append_spec [OF assms refl] obtain cm m cm' m' where
    *: "cms V w k = Some cm" "cm_Data cm = Some m" "cms V w' = (cms V w)(k \<mapsto> cm')" "cm_Data cm' = Some m'"
      "\<forall>x. x \<noteq> ''Corefile'' \<longrightarrow> m' x = m x"
    and f: "m' ''Corefile'' = Some (patchCorefile (smGet (cm_Data cm) ''Corefile'') ?b)" by blast
  have "strings_Contains (patchCorefile (smGet (cm_Data cm) ''Corefile'') ?b) ?b" by (rule block_contained)
  with * f show "\<exists>cm m cm' m' f. cms V w k = Some cm \<and> cm_Data cm = Some m \<and> cms V w' = (cms V w)(k \<mapsto> cm') \<and>
       cm_Data cm' = Some m' \<and> m' ''Corefile'' = Some f \<and> strings_Contains f ?b \<and> (\<forall>x. x \<noteq> ''Corefile'' \<longrightarrow> m' x = m x)"
    by blast
qed

definition ex_cm_key :: NamespacedName where
  "ex_cm_key = \<lparr>Namespace = ''kube-system'', Name = ''coredns''\<rparr>"

definition ex_config :: mem_config where
  "ex_config = \<lparr>mc_maps = [ex_cm_key \<mapsto> \<lparr>cm_key = ex_cm_key, cm_Data = Some [''Corefile'' \<mapsto> ''.:53 { }''], cm_Other = []\<rparr>],
     mc_services = [\<lparr>Namespace = ''xcc'', Name = ''dns''\<rparr> \<mapsto>
       \<lparr>svc_Type = ServiceTypeOther ''ClusterIP'', svc_ClusterIP = ''10.0.0.7'', svc_Ingress = []\<rparr>],
     mc_ticks = 10\<rparr>"

definition ex_patcher :: CorefilePatcher where
  "ex_patcher = \<lparr>cp_DomainSuffix = ''xcc.test'', cp_Namespace = ''kube-system'', cp_ConfigMapName = ''coredns''\<rparr>"

lemma ex_append: "\<exists>w'. AppendStubDomainBlock mem_config_api ex_patcher ''10.0.0.7'' ex_config = (Ok (), w')"
proof -
  have "\<not> strings_Contains ''.:53 { }'' (xccForwardBlock ''xcc.test'' ''10.0.0.7'')" by code_simp
  then show ?thesis
    by (simp add: AppendStubDomainBlock_def mem_config_api_def ex_config_def ex_patcher_def ex_cm_key_def io_bind_def
        smGet_def Let_def)
qed

theorem AppendStubDomainBlock_patches_witness:
  "\<exists>w' f. AppendStubDomainBlock mem_config_api ex_patcher ''10.0.0.7'' ex_config = (Ok (), w') \<and>
     strings_Contains f (xccForwardBlock ''xcc.test'' ''10.0.0.7'') \<and>
     (\<exists>cm' m'. cms mem_config_view w' ex_cm_key = Some cm' \<and> cm_Data cm' = Some m' \<and> m' ''Corefile'' = Some f)"
proof -
  obtain w' where run: "AppendStubDomainBlock mem_config_api ex_patcher ''10.0.0.7'' ex_config = (Ok (), w')"
    using ex_append by blast
  have k: "ex_cm_key = \<lparr>Namespace = cp_Namespace ex_patcher, Name = cp_ConfigMapName ex_patcher\<rparr>"
    by (simp add: ex_cm_key_def ex_patcher_def)
  from AppendStubDomainBlock_patches [OF mem_config.config_world_axioms run k] obtain cm' m' f where
    "cms mem_config_view w' = (cms mem_config_view ex_config)(ex_cm_key \<mapsto> cm')" "cm_Data cm' = Some m'" "m' ''Corefile'' = Some f"
    "strings_Contains f (xccForwardBlock (cp_DomainSuffix ex_patcher) ''10.0.0.7'')" by blast
  moreover have "cp_DomainSuffix ex_patcher = ''xcc.test''" by (simp add: ex_patcher_def)
  ultimately show ?thesis using run by (simp del: fun_upd_apply) (metis fun_upd_same)
qed

text \<open>
  C30. Stripping undoes appending: for a Corefile without a section of the patcher, appending a
  section and stripping it gives the trimmed Corefile back, whatever domain and address the
  section is for. A later patch therefore replaces the section and never accumulates sections.
\<close>

theorem stripXCCBlock_undoes_append:
  assumes "unmarked c" and "block = xccForwardBlock domain ip"
  shows "stripXCCBlock (stripXCCBlock c @ newline @ block @ newline) = stripXCCBlock c \<and>
    stripXCCBlock c = strings_TrimSpace c"
  using strip_patched [OF assms(1), of domain ip] patch_unmarked [OF assms(1), of domain ip] strip_unmarked [OF assms(1)] assms(2)
  by simp

theorem stripXCCBlock_undoes_append_witness:
  "stripXCCBlock (stripXCCBlock '' .:53 { } '' @ newline @ xccForwardBlock ''xcc.test'' ''10.0.0.7'' @ newline)
     = ''.:53 { }''"
proof -
  have "unmarked '' .:53 { } ''" unfolding unmarked_def by code_simp
  moreover have "strings_TrimSpace '' .:53 { } '' = ''.:53 { }''" by code_simp
  ultimately show ?thesis using stripXCCBlock_undoes_append [OF _ refl, of "'' .:53 { } ''" "''xcc.test''" "''10.0.0.7''"]
    by metis
qed

text \<open>
  C31. Because the expression is greedy, a Corefile with two sections loses everything between the
  first begin marker and the last end marker, whoever wrote it.
\<close>

theorem stripXCCBlock_drops_between_sections:
  assumes "\<not> sublist sectionBegin pre" and "\<not> sublist sectionEnd post"
  shows "stripXCCBlock (pre @ newline @ sectionBegin @ a @ sectionEnd @ user @ newline @ sectionBegin @ b @ sectionEnd @ post)
    = strings_TrimSpace (pre @ post)"
  using strip_section [OF assms(1) newline_space_class assms(2), of "a @ sectionEnd @ user @ newline @ sectionBegin @ b"]
  by simp

theorem stripXCCBlock_drops_between_sections_witness:
  "stripXCCBlock (''.:53 { }'' @ newline @ sectionBegin @ '' '' @ sectionEnd @ '' user { }'' @ newline @ sectionBegin @ '' ''
     @ sectionEnd @ '''') = ''.:53 { }''"
proof -
  have "\<not> sublist sectionBegin ''.:53 { }''" "\<not> sublist sectionEnd ''''" "strings_TrimSpace (''.:53 { }'' @ '''') = ''.:53 { }''"
    by code_simp+
  with stripXCCBlock_drops_between_sections [of "''.:53 { }''" "''''" "'' ''" "'' user { }''" "'' ''"] show ?thesis by simp
qed



text \<open>The environment variables of the program, all set\<close>

definition patcher_env :: "string \<Rightarrow> string \<Rightarrow> string \<Rightarrow> string \<Rightarrow> string \<Rightarrow> (string \<rightharpoonup> string) \<Rightarrow> bool" where
  "patcher_env svcNs svcName cmNs cmName domain env \<longleftrightarrow>
     env ''DNS_SERVICE_NAMESPACE'' = Some svcNs \<and> env ''DNS_SERVICE_NAME'' = Some svcName \<and>
     env ''COREFILE_CONFIGMAP_NAMESPACE'' = Some cmNs \<and> env ''COREFILE_CONFIGMAP_NAME'' = Some cmName \<and>
     env ''DOMAIN_SUFFIX'' = Some domain"

lemma andThen_simps [simp]: "andThen (Exits n) f w = Some (Exits n, w)" "andThen (Returns x) f w = f x"
  by (simp_all add: andThen_def)

lemma orExit_simps [simp]: "orExit (Ok x) = Returns x" "orExit (Err e) = Exits 1" "orExit (Panic p) = Exits 2"
  by (simp_all add: orExit_def)

lemma patcher_main_run:
  assumes "patcher_env svcNs svcName cmNs cmName domain env" and "connect w = (Ok A, w1)"
    and "GetDNSServiceClusterIP A wait errText \<lparr>dw_Namespace = svcNs, dw_ServiceName = svcName\<rparr> w1 = Some (r, w2)"
  shows "patcher_main env connect wait errText w = (case r of
      Ok ip \<Rightarrow> (case AppendStubDomainBlock A \<lparr>cp_DomainSuffix = domain, cp_Namespace = cmNs, cp_ConfigMapName = cmName\<rparr> ip w2 of
          (r, w3) \<Rightarrow> Some (orExit r, w3))
    | Err e \<Rightarrow> Some (Exits 1, w2)
    | Panic p \<Rightarrow> Some (Exits 2, w2))"
  using assms by (cases r) (simp_all add: patcher_main_def patcher_env_def getEnvVarOrDie_def)

text \<open>
  C33. The patcher program ends, and when it ends with success the Corefile of the configured
  ConfigMap forwards the domain to the cluster address of the configured service. Without one of
  its environment variables it ends with status 1 before it does anything.
\<close>

theorem patcher_main_forwards:
  assumes "config_wait A V wait budget" and "connect w = (Ok A, w1)" and "same_config V w w1"
    and "patcher_env svcNs svcName cmNs cmName domain env"
  shows "\<exists>res w'. patcher_main env connect wait errText w = Some (res, w') \<and>
    (res = Returns () \<longrightarrow> (\<exists>s cm m f. csvcs V w \<lparr>Namespace = svcNs, Name = svcName\<rparr> = Some s \<and> svc_ClusterIP s \<noteq> '''' \<and>
       cms V w' \<lparr>Namespace = cmNs, Name = cmName\<rparr> = Some cm \<and> cm_Data cm = Some m \<and> m ''Corefile'' = Some f \<and>
       strings_Contains f (xccForwardBlock domain (svc_ClusterIP s)))) \<and>
    (\<forall>name\<in>{''DNS_SERVICE_NAMESPACE'', ''DNS_SERVICE_NAME'', ''COREFILE_CONFIGMAP_NAMESPACE'', ''COREFILE_CONFIGMAP_NAME'', ''DOMAIN_SUFFIX''}.
       patcher_main (env(name := None)) connect wait errText w = Some (Exits 1, w))"
proof -
  let ?d = "\<lparr>dw_Namespace = svcNs, dw_ServiceName = svcName\<rparr>"
  let ?c = "\<lparr>cp_DomainSuffix = domain, cp_Namespace = cmNs, cp_ConfigMapName = cmName\<rparr>"
  have die: "\<forall>name\<in>{''DNS_SERVICE_NAMESPACE'', ''DNS_SERVICE_NAME'', ''COREFILE_CONFIGMAP_NAMESPACE'', ''COREFILE_CONFIGMAP_NAME'', ''DOMAIN_SUFFIX''}.
       patcher_main (env(name := None)) connect wait errText w = Some (Exits 1, w)"
    using assms(4) by (auto simp: patcher_main_def patcher_env_def getEnvVarOrDie_def)
  from config_wait.GetDNSServiceClusterIP_spec [OF assms(1), of errText ?d w1] obtain r w2 where
    wait: "GetDNSServiceClusterIP A wait errText ?d w1 = Some (r, w2)" and same: "same_config V w1 w2" and
    r: "(\<exists>s. r = Ok (svc_ClusterIP s) \<and> svc_ClusterIP s \<noteq> '''' \<and> csvcs V w1 \<lparr>Namespace = svcNs, Name = svcName\<rparr> = Some s)
        \<or> (\<exists>t. r = Err (timedOut ?d t))" by auto
  note main = patcher_main_run [where connect = connect, OF assms(4,2) wait]
  from r show ?thesis
  proof
    assume "\<exists>s. r = Ok (svc_ClusterIP s) \<and> svc_ClusterIP s \<noteq> '''' \<and> csvcs V w1 \<lparr>Namespace = svcNs, Name = svcName\<rparr> = Some s"
    then obtain s where s: "r = Ok (svc_ClusterIP s)" "svc_ClusterIP s \<noteq> ''''" "csvcs V w1 \<lparr>Namespace = svcNs, Name = svcName\<rparr> = Some s"
      by blast
    obtain ra w3 where app: "AppendStubDomainBlock A ?c (svc_ClusterIP s) w2 = (ra, w3)" by fastforce
    have "patcher_main env connect wait errText w = Some (orExit ra, w3)" using main s(1) app by simp
    moreover have "\<exists>cm m f. cms V w3 \<lparr>Namespace = cmNs, Name = cmName\<rparr> = Some cm \<and> cm_Data cm = Some m \<and>
        m ''Corefile'' = Some f \<and> strings_Contains f (xccForwardBlock domain (svc_ClusterIP s))" if "ra = Ok ()"
      using config_world.Append_spec [OF config_wait.axioms(1) [OF assms(1)] app refl refl] that block_contained
      by fastforce
    moreover have "ra = Ok ()" if "orExit ra = Returns ()" using that by (cases ra) auto
    ultimately show ?thesis using die s(2,3) assms(3) by (auto simp: same_config_def)
  next
    assume "\<exists>t. r = Err (timedOut ?d t)"
    with main die show ?thesis by auto
  qed
qed

definition ex_env :: "string \<rightharpoonup> string" where
  "ex_env = [''DNS_SERVICE_NAMESPACE'' \<mapsto> ''xcc'', ''DNS_SERVICE_NAME'' \<mapsto> ''dns'',
     ''COREFILE_CONFIGMAP_NAMESPACE'' \<mapsto> ''kube-system'', ''COREFILE_CONFIGMAP_NAME'' \<mapsto> ''coredns'', ''DOMAIN_SUFFIX'' \<mapsto> ''xcc.test'']"

theorem patcher_main_forwards_witness:
  "\<exists>w' cm m f. patcher_main ex_env (\<lambda>w. (Ok mem_config_api, w)) mem_wait (\<lambda>_. '''') ex_config = Some (Returns (), w') \<and>
     cms mem_config_view w' ex_cm_key = Some cm \<and> cm_Data cm = Some m \<and> m ''Corefile'' = Some f \<and>
     strings_Contains f (xccForwardBlock ''xcc.test'' ''10.0.0.7'')"
proof -
  have env: "patcher_env ''xcc'' ''dns'' ''kube-system'' ''coredns'' ''xcc.test'' ex_env"
    by (simp add: patcher_env_def ex_env_def)
  have con: "(\<lambda>w. (Ok mem_config_api, w)) ex_config = (Ok mem_config_api, ex_config)" by simp
  have ip: "GetDNSServiceClusterIP mem_config_api mem_wait (\<lambda>_. '''') \<lparr>dw_Namespace = ''xcc'', dw_ServiceName = ''dns''\<rparr> ex_config
      = Some (Ok ''10.0.0.7'', ex_config)"
    by (simp add: GetDNSServiceClusterIP.simps mem_config_api_def ex_config_def)
  obtain w' where "AppendStubDomainBlock mem_config_api ex_patcher ''10.0.0.7'' ex_config = (Ok (), w')" using ex_append by blast
  then have run: "patcher_main ex_env (\<lambda>w. (Ok mem_config_api, w)) mem_wait (\<lambda>_. '''') ex_config = Some (Returns (), w')"
    using patcher_main_run [where connect = "\<lambda>w. (Ok mem_config_api, w)", OF env con ip] by (simp add: ex_patcher_def)
  have same: "same_config mem_config_view ex_config ex_config" by (simp add: same_config_def)
  have svc: "csvcs mem_config_view ex_config \<lparr>Namespace = ''xcc'', Name = ''dns''\<rparr>
      = Some \<lparr>svc_Type = ServiceTypeOther ''ClusterIP'', svc_ClusterIP = ''10.0.0.7'', svc_Ingress = []\<rparr>"
    by (simp add: mem_config_view_def ex_config_def)
  from patcher_main_forwards [where connect = "\<lambda>w. (Ok mem_config_api, w)", OF mem_config.config_wait_axioms con same env, of "\<lambda>_. ''''"] run
  show ?thesis unfolding svc ex_cm_key_def by auto
qed

end
