(* ===== verification/GatewayDNS_Queue.thy ===== *)
theory GatewayDNS_Queue
  imports GatewayDNS_Controller
begin

text \<open>
  The requests of the GatewayDNS controller one after another, as the controller library takes them
  from the work queue: what one reconciliation achieved is kept by the reconciliations of the other
  GatewayDNS. The processing of a list of requests is \<open>io_each\<close> of \<open>Reconcile\<close>; a run without
  error is one in which every request succeeded.
\<close>

section \<open>Reconciling leaves the management cluster alone\<close>

context gatewaydns_controller
begin

lemma calls_apart:
  "io_keeps (same_mgmt MV) (GetClient A c)" "io_keeps (same_mgmt MV) (getNamespace A h n)"
  "io_keeps (same_mgmt MV) (getSlice A h k)" "io_keeps (same_mgmt MV) (listSlices A h n)"
  "io_keeps (same_mgmt MV) (createSlice A h e)" "io_keeps (same_mgmt MV) (updateSlice A h e)"
  "io_keeps (same_mgmt MV) (deleteSlice A h e)" "io_keeps (same_mgmt MV) (listClusters M n sel)"
  "io_keeps (same_mgmt MV) (getGatewayDNS M k)"
  by (auto intro!: io_keepsI intro: cluster_calls_apart listClusters_keeps getGatewayDNS_keeps)

lemmas apart_rules = io_keeps_bind [OF transp_same_mgmt] io_keeps_handle [OF transp_same_mgmt]
  io_keeps_each [OF reflp_same_mgmt transp_same_mgmt] io_keeps_return [OF reflp_same_mgmt]
  io_keeps_err [OF reflp_same_mgmt] io_keeps_of [OF reflp_same_mgmt] calls_apart

lemma convergeCluster_apart: "io_keeps (same_mgmt MV) (convergeCluster K R A ns gw h gws)"
proof -
  have "io_keeps (same_mgmt MV) (createOrMerge A h e)" for e
    unfolding createOrMerge_def by (auto intro!: apart_rules)
  moreover have "io_keeps (same_mgmt MV) (diffCluster K R A ns gw h gws)"
    unfolding diffCluster_def by (intro apart_rules) (auto intro!: io_keepsI simp: Let_def same_mgmt_def)
  ultimately show ?thesis unfolding convergeCluster_def by (auto intro!: apart_rules)
qed

lemma ConvergeToClusters_apart: "io_keeps (same_mgmt MV) (ConvergeToClusters K R A ns cs gw gws)"
proof (induction cs)
  case (Cons c cs)
  have "io_keeps (same_mgmt MV) (convergeOne K R A ns gw gws c)"
    unfolding convergeOne_def by (auto intro!: apart_rules convergeCluster_apart)
  with Cons show ?case by (auto intro!: apart_rules)
qed (auto intro!: apart_rules)

lemma Reconcile_apart: "io_keeps (same_mgmt MV) (GatewayDNSReconciler_Reconcile K R A M r req)"
proof -
  have "io_keeps (same_mgmt MV) (convergeOnClustersForGatewayDNS K R A M r req gws)" for gws
    unfolding convergeOnClustersForGatewayDNS_def by (auto intro!: apart_rules ConvergeToClusters_apart)
  then show ?thesis
    unfolding GatewayDNSReconciler_Reconcile_def ListMatchingClusters_def GetGatewaysForClusters_def
    by (auto intro!: apart_rules collector_apart)
qed

end

section \<open>The slice of a gateway under other requests\<close>

definition slice_at :: "'w cluster_view \<Rightarrow> 'w \<Rightarrow> Cluster \<Rightarrow> NamespacedName \<Rightarrow> EndpointSlice option" where
  "slice_at V w c k = map_option strip (objs V w (cl_key c) k)"

definition announced_at ::
    "kube_lib \<Rightarrow> 'w cluster_view \<Rightarrow> 'w \<Rightarrow> Cluster \<Rightarrow> NamespacedName \<Rightarrow> NamespacedName \<Rightarrow> string \<Rightarrow> string list \<Rightarrow> bool" where
  "announced_at K V w c k req hostname ips \<longleftrightarrow> (\<exists>e. objs V w (cl_key c) k = Some e \<and> announces K req hostname ips e)"

lemma announced_slice: "announced_at K V w c k req hn ips \<longleftrightarrow> (\<exists>e. slice_at V w c k = Some e \<and> announces K req hn ips e)"
  by (auto simp: announced_at_def slice_at_def)

lemma announces_owned: "announces K req hn ips e \<Longrightarrow> ownedBy K q e \<Longrightarrow> nnString K q = nnString K req"
  by (auto simp: announces_def ownedBy_def split: option.splits)

context gatewaydns_controller
begin

lemma not_selected_no_gateway:
  assumes "collected K A V MV e g w gws" and "c2 \<notin> selected_clusters K MV w g" and "clusters MV w (cl_key c2) = Some c2"
    and "cl_Namespace c2 = gd_Namespace g"
  shows "gateway_at gws (sliceNameOf (cl_key c2)) = None"
proof (rule ccontr)
  assume "\<not> ?thesis"
  then obtain cg where "gateway_at gws (sliceNameOf (cl_key c2)) = Some cg" by blast
  from gateway_at_collected(1) [OF assms(1) refl this] obtain c' where c': "c' \<in> selected_clusters K MV w g"
    "sliceNameOf (cl_key c2) = sliceNameOf (cl_key c')" by (elim exE conjE)
  from c'(1) have ns: "cl_Namespace c' = gd_Namespace g" and here: "clusters MV w (cl_key c') = Some c'"
    unfolding selected_clusters_def mem_Collect_eq by (rule conjunct1 [OF conjunct2], rule conjunct1)
  have "cl_key c2 = cl_key c'" using sliceNameOf_inj [OF _ c'(2)] assms(4) ns by simp
  with here assms(3) have "c' = c2" by (metis option.inject)
  with c'(1) assms(2) show False by blast
qed

text \<open>
  A reconciliation of a GatewayDNS that does not select the cluster \<open>c2\<close> leaves the slice of its
  gateway alone, or removes it if the slice is its own.
\<close>

lemma other_request:
  assumes run: "GatewayDNSReconciler_Reconcile K R A M r q w = (Ok (), w')"
    and cfg: "col_Namespace (gr_ClusterGatewayCollector r) = gr_Namespace r"
    and c: "clusters MV w (cl_key c) = Some c" and c2: "clusters MV w (cl_key c2) = Some c2" "cl_Namespace c2 = cl_Namespace c"
    and k: "k = \<lparr>Namespace = gr_Namespace r, Name = sliceNameOf (cl_key c2)\<rparr>"
    and other: "\<forall>g. gdns MV w q = Some g \<longrightarrow> c2 \<notin> selected_clusters K MV w g"
  shows "slice_at V w' c k = slice_at V w c k \<or>
    slice_at V w' c k = None \<and> (\<exists>e. objs V w (cl_key c) k = Some e \<and> ownedBy K q e)"
proof -
  note spec = conjunct2 [OF Reconcile_spec [OF run cfg], rule_format, OF refl]
  have "\<exists>gws. namespace_converged V MV K (gr_Namespace r) q gws w w' \<and>
      (Namespace q = cl_Namespace c \<longrightarrow> gateway_at gws (sliceNameOf (cl_key c2)) = None)"
  proof (cases "gdns MV w q")
    case None
    with spec show ?thesis by (auto simp: gateway_at_def intro!: exI [of _ "[]"])
  next
    case (Some g)
    with spec obtain gws where gws: "collected K A V MV (gr_ClusterGatewayCollector r) g w gws"
      "namespace_converged V MV K (gr_Namespace r) q gws w w'" by auto
    have "Namespace q = cl_Namespace c \<Longrightarrow> cl_Namespace c2 = gd_Namespace g"
      using gdns_key [OF Some] c2(2) by (metis key_simps(1))
    with gws not_selected_no_gateway [OF gws(1) _ c2(1)] other Some show ?thesis by blast
  qed
  then obtain gws where conv: "namespace_converged V MV K (gr_Namespace r) q gws w w'"
    and at: "Namespace q = cl_Namespace c \<Longrightarrow> gateway_at gws (Name k) = None" by (auto simp: k)
  show ?thesis
  proof (cases "Namespace q = cl_Namespace c \<and> gr_Namespace r \<in> nss V w (cl_key c)")
    case True
    with conv c have "stripped (objs V w' (cl_key c)) = converge_spec K (gr_Namespace r) q gws (stripped (objs V w (cl_key c)))"
      by (simp add: namespace_converged_def converged_def)
    then have "slice_at V w' c k = converge_spec K (gr_Namespace r) q gws (stripped (objs V w (cl_key c))) k"
      by (metis slice_at_def stripped_def)
    also have "\<dots> = (if held K q (objs V w (cl_key c)) k \<noteq> None then None else slice_at V w c k)"
      using at True by (simp add: converge_spec_alt wanted_def k) (simp add: stripped_def slice_at_def)
    finally show ?thesis by (auto simp: held_def split: option.splits if_splits)
  next
    case False
    have "objs V w' (cl_key c) = objs V w (cl_key c)"
    proof (cases "Namespace q = cl_Namespace c")
      case True
      with conv c have "converged V K (gr_Namespace r) q gws (cl_key c) w w'" unfolding namespace_converged_def by metis
      with True False show ?thesis by (simp add: converged_def)
    next
      case False
      with conv show ?thesis by (simp add: namespace_converged_def)
    qed
    then show ?thesis by (simp add: slice_at_def)
  qed
qed

end

section \<open>A list of requests\<close>

text \<open>What no request changes: the services, the namespaces and the management cluster\<close>

definition same_scene :: "'w cluster_view \<Rightarrow> 'w mgmt_view \<Rightarrow> 'w \<Rightarrow> 'w \<Rightarrow> bool" where
  "same_scene V MV w w' \<longleftrightarrow> svcs V w' = svcs V w \<and> nss V w' = nss V w \<and> same_mgmt MV w w'"

lemma selected_same: "same_mgmt MV w w' \<Longrightarrow> selected_clusters K MV w' g = selected_clusters K MV w g"
  by (simp add: selected_clusters_def same_mgmt_def)

text \<open>
  The state of the slice \<open>k\<close> of a gateway, when the requests in \<open>visited\<close> have been processed since the
  world was \<open>w0\<close>: it announces the gateway, or it is as it was or gone, and then \<open>req\<close> has not been
  processed or there was a query that the gateway's cluster did not answer.
\<close>

definition slice_progress ::
    "kube_lib \<Rightarrow> ('h, 'w) cluster_api \<Rightarrow> 'w cluster_view \<Rightarrow> 'w mgmt_view \<Rightarrow> 'w \<Rightarrow> Cluster \<Rightarrow> NamespacedName \<Rightarrow> NamespacedName
      \<Rightarrow> string \<Rightarrow> string list \<Rightarrow> NamespacedName \<Rightarrow> Cluster \<Rightarrow> NamespacedName set \<Rightarrow> 'w \<Rightarrow> bool" where
  "slice_progress K A V MV w0 c k req hn ips svc c2 visited w \<longleftrightarrow> same_scene V MV w0 w \<and>
     (announced_at K V w c k req hn ips \<or>
      slice_at V w c k \<in> {slice_at V w0 c k, None} \<and>
      (req \<in> visited \<longrightarrow> (\<exists>v. svcs V v = svcs V w0 \<and> nss V v = nss V w0 \<and> \<not> query_ok A svc c2 v)))"

context gatewaydns_controller
begin

lemma Reconcile_scene:
  assumes "GatewayDNSReconciler_Reconcile K R A M r q w = (Ok (), w')"
    and "col_Namespace (gr_ClusterGatewayCollector r) = gr_Namespace r"
  shows "same_scene V MV w w'"
proof -
  from Reconcile_spec [OF assms] obtain gws where "namespace_converged V MV K (gr_Namespace r) q gws w w'"
    by (auto split: option.splits)
  with io_keepsD [OF Reconcile_apart assms(1)] show ?thesis by (simp add: same_scene_def namespace_converged_def)
qed

lemma slice_progress_step:
  assumes cfg: "col_Namespace (gr_ClusterGatewayCollector r) = gr_Namespace r"
    and g: "gdns MV w0 req = Some g" and svc: "svc = newNamespacedNameFromString K (spec_Service (gd_Spec g))"
    and c: "clusters MV w0 (cl_key c) = Some c" "cl_Namespace c = Namespace req" "gr_Namespace r \<in> nss V w0 (cl_key c)"
    and c2: "c2 \<in> selected_clusters K MV w0 g"
    and s: "svcs V w0 (cl_key c2) svc = Some s" "svc_Type s = ServiceTypeLoadBalancer" "svc_Ingress s \<noteq> []"
    and k: "k = \<lparr>Namespace = gr_Namespace r, Name = sliceNameOf (cl_key c2)\<rparr>"
    and hn: "hn = hostnameOf (gr_ClusterGatewayCollector r) c2" and ips: "ips = map ing_IP (svc_Ingress s)"
    and valid: "valid_name K req" "valid_name K q"
    and other: "q \<noteq> req \<Longrightarrow> \<forall>g'. gdns MV w0 q = Some g' \<longrightarrow> c2 \<notin> selected_clusters K MV w0 g'"
    and progress: "slice_progress K A V MV w0 c k req hn ips svc c2 visited w"
    and run: "GatewayDNSReconciler_Reconcile K R A M r q w = (Ok (), w')"
  shows "slice_progress K A V MV w0 c k req hn ips svc c2 (insert q visited) w'"
proof -
  from progress have scene: "same_scene V MV w0 w" by (simp add: slice_progress_def)
  then have same: "gdns MV w = gdns MV w0" "clusters MV w = clusters MV w0" "svcs V w = svcs V w0" "nss V w = nss V w0"
    by (simp_all add: same_scene_def same_mgmt_def)
  have sel: "selected_clusters K MV w = selected_clusters K MV w0"
    using scene by (intro ext selected_same) (simp add: same_scene_def)
  have scene': "same_scene V MV w0 w'" using scene Reconcile_scene [OF run cfg] by (simp add: same_scene_def same_mgmt_def)
  show ?thesis
  proof (cases "q = req")
    case True
    note one = announced_unless_unqueried [OF gatewaydns_controller_axioms cfg run [unfolded True], unfolded same sel, OF g svc c c2 s k,
        folded hn ips announced_at_def slice_at_def]
    then consider "announced_at K V w' c k req hn ips" | "slice_at V w' c k = slice_at V w c k"
      "\<exists>v. svcs V v = svcs V w0 \<and> nss V v = nss V w0 \<and> \<not> query_ok A svc c2 v"
      by (auto simp: same_objects_def same)
    then show ?thesis
    proof cases
      case 2
      with progress scene' show ?thesis unfolding slice_progress_def announced_slice by metis
    qed (simp add: slice_progress_def scene')
  next
    case False
    have here: "clusters MV w0 (cl_key c2) = Some c2" and "cl_Namespace c2 = gd_Namespace g"
      using c2 unfolding selected_clusters_def mem_Collect_eq by (rule conjunct1, rule conjunct1 [OF conjunct2])
    then have ns: "cl_Namespace c2 = cl_Namespace c" using c(2) gdns_key [OF g] by (metis key_simps(1))
    from other_request [OF run cfg, unfolded same sel, OF c(1) here ns k other [OF False]]
    consider "slice_at V w' c k = slice_at V w c k"
      | e where "slice_at V w' c k = None" "objs V w (cl_key c) k = Some e" "ownedBy K q e" by blast
    then show ?thesis
    proof cases
      case 1
      with progress scene' False show ?thesis unfolding slice_progress_def announced_slice by (metis insert_iff)
    next
      case 2
      have "\<not> announced_at K V w c k req hn ips"
        using announces_owned [OF _ 2(3)] nnString_inj [OF valid(2,1)] False 2(2) by (auto simp: announced_at_def)
      with progress scene' False 2(1) show ?thesis unfolding slice_progress_def by (metis insert_iff)
    qed
  qed
qed

end

section \<open>Properties\<close>

text \<open>
  C3. The requests of many GatewayDNS, in any order and each any number of times: once all of them
  have been reconciled without error, every gateway that a requested GatewayDNS selects is announced
  in every cluster of its namespace; no request processed before or after takes the announcement
  away, provided no other requested GatewayDNS selects the same cluster (then the two share one
  slice). The only exception is a gateway whose cluster did not answer a query; its slice is then
  as before the requests, or was removed for the GatewayDNS that owned it.
\<close>

theorem requests_announce_gateways:
  assumes ctl: "gatewaydns_controller A V cluster_of M MV R K"
    and cfg: "col_Namespace (gr_ClusterGatewayCollector r) = gr_Namespace r"
    and run: "io_each (GatewayDNSReconciler_Reconcile K R A M r) reqs w = (Ok (), w')"
    and valid: "\<forall>q\<in>set reqs. valid_name K q" and req: "req \<in> set reqs" and g: "gdns MV w req = Some g"
    and svc: "svc = newNamespacedNameFromString K (spec_Service (gd_Spec g))"
    and c: "clusters MV w (cl_key c) = Some c" "cl_Namespace c = Namespace req" "gr_Namespace r \<in> nss V w (cl_key c)"
    and c2: "c2 \<in> selected_clusters K MV w g"
    and other: "\<forall>q\<in>set reqs. q \<noteq> req \<longrightarrow> (\<forall>g'. gdns MV w q = Some g' \<longrightarrow> c2 \<notin> selected_clusters K MV w g')"
    and s: "svcs V w (cl_key c2) svc = Some s" "svc_Type s = ServiceTypeLoadBalancer" "svc_Ingress s \<noteq> []"
    and k: "k = \<lparr>Namespace = gr_Namespace r, Name = sliceNameOf (cl_key c2)\<rparr>"
  shows "announced_at K V w' c k req (hostnameOf (gr_ClusterGatewayCollector r) c2) (map ing_IP (svc_Ingress s))
    \<or> ((\<exists>v. svcs V v = svcs V w \<and> nss V v = nss V w \<and> \<not> query_ok A svc c2 v) \<and>
       slice_at V w' c k \<in> {slice_at V w c k, None})"
proof -
  let ?I = "slice_progress K A V MV w c k req (hostnameOf (gr_ClusterGatewayCollector r) c2) (map ing_IP (svc_Ingress s)) svc c2"
  have "?I (insert q visited) v'" if q: "q \<in> set reqs" and v: "?I visited v"
    and step: "GatewayDNSReconciler_Reconcile K R A M r q v = (Ok (), v')" for q visited v v'
    using valid req q other
    by (intro gatewaydns_controller.slice_progress_step [OF ctl cfg g svc c c2 s k refl refl _ _ _ v step]) blast+
  moreover have "?I {} w" by (simp add: slice_progress_def same_scene_def same_mgmt_def)
  ultimately have "?I (set reqs \<union> {}) w'" by (rule io_each_visited [OF _ _ run])
  with req show ?thesis by (auto simp: slice_progress_def)
qed

definition ex_gone :: NamespacedName where
  "ex_gone = \<lparr>Namespace = ''dev'', Name = ''gone''\<rparr>"

lemma ex_reconcile_gone:
  "GatewayDNSReconciler_Reconcile slash_kube insertion_order mem_api mem_mgmt ex_reconciler ex_gone ex_up = (Ok (), ex_up)"
  by (simp add: ex_gone_def reconcile_run_defs converge_run_defs)

lemma ex_announced:
  "slice_at mem_view ex_up' (ex_cluster ''c'') \<lparr>Namespace = ''xcc'', Name = sliceNameOf (cl_key (ex_cluster ''a''))\<rparr> \<noteq> None"
  "slice_at mem_view ex_up (ex_cluster ''c'') k = None"
proof -
  have "mem_objs ex_up' (cl_key (ex_cluster ''c'')) (es_key ex_want) = Some ex_want" by (simp add: ex_up'_def)
  moreover have "es_key ex_want = \<lparr>Namespace = ''xcc'', Name = sliceNameOf (cl_key (ex_cluster ''a''))\<rparr>"
    by (simp add: converge_run_defs sliceNameOf_def)
  ultimately show "slice_at mem_view ex_up' (ex_cluster ''c'') \<lparr>Namespace = ''xcc'', Name = sliceNameOf (cl_key (ex_cluster ''a''))\<rparr> \<noteq> None"
    by (simp add: slice_at_def mem_view_def)
qed (simp add: slice_at_def mem_view_def mem_objs_def ex_up_def ex_world_def)

theorem requests_announce_gateways_witness:
  "announced_at slash_kube mem_view ex_up' (ex_cluster ''c'') \<lparr>Namespace = ''xcc'', Name = ''dev-a-gateway''\<rparr> ex_gw
     ''*.gateway.a.dev.clusters.xcc.test'' [''1.2.3.4'', ''1.2.3.5'']"
proof -
  let ?svc = "newNamespacedNameFromString slash_kube (spec_Service (gd_Spec ex_gdns))"
  let ?k = "\<lparr>Namespace = gr_Namespace ex_reconciler, Name = sliceNameOf (cl_key (ex_cluster ''a''))\<rparr>"
  have run: "io_each (GatewayDNSReconciler_Reconcile slash_kube insertion_order mem_api mem_mgmt ex_reconciler)
      [ex_gone, ex_gw] ex_up = (Ok (), ex_up')"
    by (simp add: io_bind_def io_return_def ex_reconcile ex_reconcile_gone)
  have svc: "?svc = \<lparr>Namespace = ''ingress'', Name = ''envoy''\<rparr>" by code_simp
  have valid: "\<forall>q\<in>set [ex_gone, ex_gw]. valid_name slash_kube q"
    by (simp add: ex_gone_def ex_gw_def ex_gdns_def gd_key_def valid_name_def slash_kube_def)
  have ns: "cl_Namespace (ex_cluster ''c'') = Namespace ex_gw" "gr_Namespace ex_reconciler \<in> nss mem_view ex_up (cl_key (ex_cluster ''c''))"
    by (simp_all add: ex_cluster_def ex_gw_def ex_gdns_def gd_key_def ex_reconciler_def mem_view_def mem_nss_def ex_up_def ex_world_def)
  have gone: "gdns mem_mgmt_view ex_up ex_gone = None"
    by (simp add: mem_mgmt_view_def mem_gdns_def ex_up_def ex_world_def ex_gone_def ex_gdns_def gd_key_def)
  have s: "svcs mem_view ex_up (cl_key (ex_cluster ''a'')) ?svc = Some ex_lb" "svc_Type ex_lb = ServiceTypeLoadBalancer" "svc_Ingress ex_lb \<noteq> []"
    by (simp_all add: svc mem_view_def mem_svcs_def ex_up_def ex_world_def ex_lb_def)
  have k: "?k = \<lparr>Namespace = ''xcc'', Name = sliceNameOf (cl_key (ex_cluster ''a''))\<rparr>" by (simp add: ex_reconciler_def)
  have "\<forall>q\<in>set [ex_gone, ex_gw]. q \<noteq> ex_gw \<longrightarrow>
      (\<forall>g'. gdns mem_mgmt_view ex_up q = Some g' \<longrightarrow> ex_cluster ''a'' \<notin> selected_clusters slash_kube mem_mgmt_view ex_up g')"
    using gone by simp
  from requests_announce_gateways [OF mem_gdc.gatewaydns_controller_axioms ex_reconciler_ok run valid _ ex_gdns_view refl
      ex_cluster_view ns ex_selected this s refl, unfolded k] ex_announced
  have "announced_at slash_kube mem_view ex_up' (ex_cluster ''c'') \<lparr>Namespace = ''xcc'', Name = sliceNameOf (cl_key (ex_cluster ''a''))\<rparr> ex_gw
     (hostnameOf (gr_ClusterGatewayCollector ex_reconciler) (ex_cluster ''a'')) (map ing_IP (svc_Ingress ex_lb))" by auto
  then show ?thesis
    by (simp add: hostnameOf_def sliceNameOf_def ex_reconciler_def ex_collector_def ex_cluster_def cl_key_def ex_lb_def)
qed

end
