(* ===== verification/DNS_Idle.thy ===== *)
theory DNS_Idle
  imports EndpointSlice_DNS
begin

text \<open>
  The EndpointSlice DNS controller at work: its watch on the slices (\<open>SetupWithManager\<close> of
  \<open>pkg/controllers/endpointslicedns/controller.go\<close>), and the controller left to itself: while no slice changes and no call of the API
  server fails, the steps of the controller, its restarts after a crash included, come to an end
  with an empty queue after a bounded number of steps.
\<close>

section \<open>The watch\<close>

text \<open>
  \<open>SetupWithManager\<close> registers the watch on EndpointSlices: the requests that an event adds to the
  work queue are those of the controller library's handler for the watched object, a parameter.
\<close>

definition EndpointSlice_SetupWithManager ::
    "(EndpointSlice event \<Rightarrow> NamespacedName list) \<Rightarrow> EndpointSlice event \<Rightarrow> NamespacedName list" where
  "EndpointSlice_SetupWithManager forObject e = forObject e"

locale slice_handler =
  fixes forObject :: "EndpointSlice event \<Rightarrow> NamespacedName list"
  assumes for_slice: "set (forObject e) = es_key ` set (event_objects e)"

interpretation each_once: slice_handler "\<lambda>e. remdups (map es_key (event_objects e))"
  by unfold_locales simp

text \<open>The event that the API server reports when the slice of a name changes\<close>

fun change_event :: "EndpointSlice option \<Rightarrow> EndpointSlice option \<Rightarrow> EndpointSlice event option" where
  "change_event None (Some new) = Some (CreateEvent new)"
| "change_event (Some old) (Some new) = Some (UpdateEvent old new)"
| "change_event (Some old) None = Some (DeleteEvent old)"
| "change_event None None = None"

text \<open>
  The step \<open>change\<close> of the controller in its environment is what the watch does: a slice that is
  created, updated or deleted is requested, and nothing else.
\<close>

lemma watch_is_change:
  assumes "slice_handler forObject" and "change_event (slices s k) v = Some e"
    and "\<forall>sl. slices s k = Some sl \<or> v = Some sl \<longrightarrow> es_key sl = k" and "valid_name K k"
  shows "dns_step L K s (s\<lparr>slices := (slices s)(k := v),
    queue := set (EndpointSlice_SetupWithManager forObject e) \<union> queue s\<rparr>)"
proof -
  have "set (EndpointSlice_SetupWithManager forObject e) = {k}"
    using assms(2,3) slice_handler.for_slice [OF assms(1), of e]
    by (cases "slices s k"; cases v) (auto simp: EndpointSlice_SetupWithManager_def)
  with dns_step.change [OF assms(4), of L s v] show ?thesis by simp
qed

section \<open>The controller's own steps\<close>

inductive dns_work :: "dns_lib \<Rightarrow> kube_lib \<Rightarrow> dns_sys \<Rightarrow> dns_sys \<Rightarrow> bool"
  for L :: dns_lib and K :: kube_lib where
  work: "k \<in> queue s \<Longrightarrow>
    EndpointSliceReconciler_Reconcile L K (apiGet (slices s)) (cache s) k = (r, d', ls) \<Longrightarrow>
    dns_work L K s (case r of
        Ok _ \<Rightarrow> s\<lparr>cache := d', queue := queue s - {k}\<rparr>
      | Err _ \<Rightarrow> s\<lparr>cache := d'\<rparr>
      | Panic _ \<Rightarrow> dns_start (slices s))"

inductive_cases dns_workE: "dns_work L K s t"

text \<open>A key can make the controller crash only if its slice is gone.\<close>

lemma Reconcile_outcome:
  assumes "EndpointSliceReconciler_Reconcile L K (apiGet m) d k = (r, d', ls)"
  shows "r = Ok () \<or> m k = None \<and> (\<exists>p. r = Panic p)"
proof (cases "m k")
  case None
  then have "apiGet m k = Err NotFound" by (simp add: apiGet_def)
  with assms Reconcile_gone(2) [of "apiGet m" k L K d] None show ?thesis by (auto split: option.splits if_splits)
next
  case (Some s)
  then have "apiGet m k = Ok s" by (simp add: apiGet_def)
  with assms Reconcile_found(1) [of "apiGet m" k s L K d] show ?thesis by auto
qed

lemma dns_work_cases:
  assumes "dns_work L K s t"
  obtains (reconciled) k d' ls where "k \<in> queue s" "t = s\<lparr>cache := d', queue := queue s - {k}\<rparr>"
      "EndpointSliceReconciler_Reconcile L K (apiGet (slices s)) (cache s) k = (Ok (), d', ls)"
    | (crashed) k p d' ls where "k \<in> queue s" "slices s k = None" "t = dns_start (slices s)"
      "EndpointSliceReconciler_Reconcile L K (apiGet (slices s)) (cache s) k = (Panic p, d', ls)"
  using assms by (elim dns_workE) (frule Reconcile_outcome, auto)

lemma dns_work_step: "dns_work L K s t \<Longrightarrow> dns_step L K s t"
  by (erule dns_work_cases) (auto intro: dns_step.intros)

lemma dns_work_progress: "queue s \<noteq> {} \<Longrightarrow> \<exists>t. dns_work L K s t"
  by (metis all_not_in_conv dns_work.work prod_cases3)

section \<open>Termination\<close>

text \<open>
  After a restart every queued key has its slice, so a second crash is impossible. The measure
  counts the queue and, while a crash is possible, the queue that the restart would make.
\<close>

definition work_left :: "dns_sys \<Rightarrow> nat" where
  "work_left s = card (queue s) + (if queue s \<subseteq> dom (slices s) then 0 else card (dom (slices s)))"

definition finite_sys :: "dns_sys \<Rightarrow> bool" where
  "finite_sys s \<longleftrightarrow> finite (queue s) \<and> finite (dom (slices s))"

lemma dns_work_decreases:
  assumes "dns_work L K s t" and "finite_sys s"
  shows "work_left t < work_left s \<and> finite_sys t \<and> slices t = slices s"
  using assms(1)
proof (cases rule: dns_work_cases)
  case (reconciled k d' ls)
  have "card (queue s - {k}) < card (queue s)" using assms(2) reconciled(1) unfolding finite_sys_def by (intro card_Diff1_less) simp_all
  with reconciled assms(2) show ?thesis by (auto simp: work_left_def finite_sys_def)
next
  case (crashed k p d' ls)
  have "0 < card (queue s)" using assms(2) crashed(1) by (auto simp: finite_sys_def card_gt_0_iff)
  with crashed assms(2) show ?thesis by (auto simp: work_left_def finite_sys_def dns_start_def)
qed

lemma dns_work_bounded:
  assumes "(dns_work L K ^^ n) s t" and "finite_sys s"
  shows "n + work_left t \<le> work_left s \<and> finite_sys t \<and> slices t = slices s"
  using assms(1)
proof (induction n arbitrary: t)
  case (Suc n)
  then obtain u where "(dns_work L K ^^ n) s u" and "dns_work L K u t" by auto
  with Suc.IH dns_work_decreases [of L K u t] show ?case by fastforce
qed (use assms(2) in auto)

lemma dns_work_reaches_idle:
  assumes "finite_sys s"
  shows "\<exists>t. (dns_work L K)\<^sup>*\<^sup>* s t \<and> queue t = {}"
  using assms
proof (induction "work_left s" arbitrary: s rule: less_induct)
  case less
  show ?case
  proof (cases "queue s = {}")
    case False
    then obtain u where u: "dns_work L K s u" using dns_work_progress by blast
    with dns_work_decreases [OF u less.prems] less.hyps [of u] show ?thesis by (meson converse_rtranclp_into_rtranclp)
  qed auto
qed

section \<open>Property\<close>

text \<open>
  C7. The DNS server catches up: as long as no slice changes and no call of the API server fails,
  the controller, whichever request it takes next and even if it crashes on one and is restarted,
  takes at most as many steps as there are requests in the queue and slices in the namespace; it
  can always go on while the queue is not empty; and when it stops, the cache agrees with every
  slice. So it does become idle and in agreement.
\<close>

theorem dns_work_catches_up:
  assumes "dns_names L" and "kube_names K" and "dns_reachable L K s" and "finite (queue s)" and "finite (dom (slices s))"
  shows "(\<exists>t. (dns_work L K)\<^sup>*\<^sup>* s t \<and> queue t = {} \<and> slices t = slices s \<and> (\<forall>k. valid_name K k \<longrightarrow> in_sync L K t k)) \<and>
    (\<forall>n t. (dns_work L K ^^ n) s t \<longrightarrow> n \<le> card (queue s) + card (dom (slices s)) \<and>
      ((\<exists>u. dns_work L K t u) \<or> queue t = {} \<and> slices t = slices s \<and> (\<forall>k. valid_name K k \<longrightarrow> in_sync L K t k)))"
proof -
  have fin: "finite_sys s" using assms(4,5) by (simp add: finite_sys_def)
  have reach: "dns_reachable L K t" if "(dns_work L K)\<^sup>*\<^sup>* s t" for t
    using that by (induction rule: rtranclp_induct) (auto intro: assms(3) dns_reachable.step dns_work_step)
  have sync: "\<forall>k. valid_name K k \<longrightarrow> in_sync L K t k" if "(dns_work L K)\<^sup>*\<^sup>* s t" "queue t = {}" for t
    using dns_controller.dns_reachable_inv [OF dns_controller.intro [OF assms(1,2)] reach [OF that(1)]] that(2)
    by (simp add: dns_inv_def)
  have runs: "n + work_left t \<le> work_left s \<and> slices t = slices s" if "(dns_work L K ^^ n) s t" for n t
    using dns_work_bounded [OF that fin] by blast
  have "work_left s \<le> card (queue s) + card (dom (slices s))" by (simp add: work_left_def)
  then have bound: "n \<le> card (queue s) + card (dom (slices s))" if "(dns_work L K ^^ n) s t" for n t
    using runs [OF that] by simp
  have stop: "queue t = {} \<and> slices t = slices s \<and> (\<forall>k. valid_name K k \<longrightarrow> in_sync L K t k)"
    if t: "(dns_work L K ^^ n) s t" and "\<not> (\<exists>u. dns_work L K t u)" for n t
  proof -
    have q: "queue t = {}" using dns_work_progress that(2) by blast
    from sync [OF relpowp_imp_rtranclp [OF t] q] q runs [OF t] show ?thesis by blast
  qed
  obtain t where t: "(dns_work L K)\<^sup>*\<^sup>* s t" "queue t = {}" using dns_work_reaches_idle [OF fin] by blast
  then obtain n where "(dns_work L K ^^ n) s t" by (auto dest: rtranclp_imp_relpowp)
  with runs t sync [OF t] bound stop show ?thesis by blast
qed

text \<open>A slice to serve, and a request for a slice that is gone and was never served: the first try crashes.\<close>

theorem dns_work_catches_up_witness:
  "\<exists>s t. dns_reachable plain_dns slash_kube s \<and> card (queue s) = 2 \<and>
     (dns_work plain_dns slash_kube)\<^sup>*\<^sup>* s t \<and> queue t = {} \<and> slices t (es_key ex_slice) = Some ex_slice \<and>
     in_sync plain_dns slash_kube t (es_key ex_slice)"
proof -
  let ?k = "es_key ex_slice" and ?gone = "\<lparr>Namespace = ''xcc-dns'', Name = ''gone''\<rparr>"
  let ?start = "dns_start [?k \<mapsto> ex_slice]"
  let ?s = "?start\<lparr>slices := (slices ?start)(?gone := None), queue := insert ?gone (queue ?start)\<rparr>"
  have valid: "valid_name slash_kube ?k" "valid_name slash_kube ?gone" by code_simp+
  have "dns_reachable plain_dns slash_kube ?start" using valid(1) by (intro dns_reachable.start) simp
  moreover have "dns_step plain_dns slash_kube ?start ?s" using valid(2) by (rule dns_step.change)
  ultimately have reach: "dns_reachable plain_dns slash_kube ?s" by (rule dns_reachable.step)
  have key: "?k = \<lparr>Namespace = ''xcc-dns'', Name = ''gw''\<rparr>" by code_simp
  have q: "queue ?s = {?gone, ?k}" "finite (queue ?s)" "finite (dom (slices ?s))" "slices ?s ?k = Some ex_slice" "card (queue ?s) = 2"
    by (auto simp: dns_start_def key)
  from dns_work_catches_up [OF plain.dns_names_axioms slash.kube_names_axioms reach q(2,3)] obtain t where
    "(dns_work plain_dns slash_kube)\<^sup>*\<^sup>* ?s t" "queue t = {}" "slices t = slices ?s" "in_sync plain_dns slash_kube t ?k"
    using valid(1) by blast
  with reach q(4,5) show ?thesis by metis
qed

end
