(* ===== verification/Deep_Copy.thy ===== *)
theory Deep_Copy
  imports Kube_API "HOL-Library.Sublist"
begin

text \<open>
  The generated deep copies of the API types (\<open>apis/connectivity/v1alpha1/zz_generated.deepcopy.go\<close>)
  over an explicit memory, because what they promise is about sharing: the copy has the same
  content as the original and no memory in common with it, so that a later write to the one is not
  seen through the other. The copies of the Kubernetes types inside (\<open>ObjectMeta\<close>, \<open>ListMeta\<close>,
  \<open>LabelSelector\<close>) are parameters; the contract \<open>deep_copier\<close> says what is relied on, and the
  lemmas show that the copies of this package keep the same contract.
\<close>

section \<open>Memory\<close>

text \<open>
  The API types as they lie in memory. The types \<open>'om\<close>, \<open>'lm\<close> and \<open>'ls\<close> are \<open>ObjectMeta\<close>,
  \<open>ListMeta\<close> and \<open>LabelSelector\<close>; their values may refer to memory. A slice is the address of
  the array of its elements; \<open>None\<close> is \<open>nil\<close>, for slices and for pointers. \<open>GatewayDNSStatus\<close> has no
  fields.
\<close>

record TypeMeta =
  Kind :: string
  APIVersion :: string

record 'ls SpecMem =
  sm_ClusterSelector :: 'ls
  sm_Service :: string
  sm_ResolutionType :: string

datatype StatusMem = GatewayDNSStatus

record ('om, 'ls) GatewayDNSMem =
  gm_TypeMeta :: TypeMeta
  gm_ObjectMeta :: 'om
  gm_Spec :: "'ls SpecMem"
  gm_Status :: StatusMem

record 'lm ListMem =
  lm_TypeMeta :: TypeMeta
  lm_ListMeta :: 'lm
  lm_Items :: "nat option"

text \<open>
  Memory is a list of cells, an address is a position; allocating appends a cell, as memory that
  can still be reached is never handed out again. \<open>LibCell\<close> are the cells of the Kubernetes types.
\<close>

datatype ('om, 'ls, 'lm, 'x) cell =
    LibCell 'x
  | GatewayDNSCell "('om, 'ls) GatewayDNSMem"
  | ListCell "'lm ListMem"
  | SpecCell "'ls SpecMem"
  | StatusCell StatusMem
  | ArrayCell "('om, 'ls) GatewayDNSMem list"

type_synonym ('om, 'ls, 'lm, 'x) heap = "('om, 'ls, 'lm, 'x) cell list"

definition alloc :: "'c \<Rightarrow> 'c list \<Rightarrow> nat \<times> 'c list" where
  "alloc c h = (length h, h @ [c])"

text \<open>The library's copies, and the zero values of its types\<close>

record ('om, 'ls, 'lm, 'x) meta_lib =
  ObjectMeta_DeepCopyInto :: "'om \<Rightarrow> ('om, 'ls, 'lm, 'x) heap \<Rightarrow> 'om \<times> ('om, 'ls, 'lm, 'x) heap"
  ListMeta_DeepCopyInto :: "'lm \<Rightarrow> ('om, 'ls, 'lm, 'x) heap \<Rightarrow> 'lm \<times> ('om, 'ls, 'lm, 'x) heap"
  LabelSelector_DeepCopyInto :: "'ls \<Rightarrow> ('om, 'ls, 'lm, 'x) heap \<Rightarrow> 'ls \<times> ('om, 'ls, 'lm, 'x) heap"
  zero_ObjectMeta :: 'om
  zero_ListMeta :: 'lm
  zero_LabelSelector :: 'ls

definition zero_Spec :: "('om, 'ls, 'lm, 'x) meta_lib \<Rightarrow> 'ls SpecMem" where
  "zero_Spec D = \<lparr>sm_ClusterSelector = zero_LabelSelector D, sm_Service = [], sm_ResolutionType = []\<rparr>"

definition zero_GatewayDNS :: "('om, 'ls, 'lm, 'x) meta_lib \<Rightarrow> ('om, 'ls) GatewayDNSMem" where
  "zero_GatewayDNS D = \<lparr>gm_TypeMeta = \<lparr>Kind = [], APIVersion = []\<rparr>, gm_ObjectMeta = zero_ObjectMeta D,
     gm_Spec = zero_Spec D, gm_Status = GatewayDNSStatus\<rparr>"

definition zero_List :: "('om, 'ls, 'lm, 'x) meta_lib \<Rightarrow> 'lm ListMem" where
  "zero_List D = \<lparr>lm_TypeMeta = \<lparr>Kind = [], APIVersion = []\<rparr>, lm_ListMeta = zero_ListMeta D, lm_Items = None\<rparr>"

text \<open>What a pointer of a type points to; memory is typed, so the last case does not occur.\<close>

definition arrayAt :: "('om, 'ls, 'lm, 'x) heap \<Rightarrow> nat \<Rightarrow> ('om, 'ls) GatewayDNSMem list" where
  "arrayAt h a = (case h ! a of ArrayCell vs \<Rightarrow> vs | _ \<Rightarrow> [])"

section \<open>Copying into a variable\<close>

text \<open>
  \<open>in.DeepCopyInto(out)\<close> as a function of the value of \<open>*in\<close> that returns the value of
  \<open>*out\<close>: the two are different variables in every call, and what \<open>*out\<close> was before does not
  matter, as the first statement overwrites it.
\<close>

definition GatewayDNSStatus_DeepCopyInto :: "StatusMem \<Rightarrow> 'c list \<Rightarrow> StatusMem \<times> 'c list" where
  "GatewayDNSStatus_DeepCopyInto inn h = (inn, h)"

definition GatewayDNSSpec_DeepCopyInto ::
    "('om, 'ls, 'lm, 'x) meta_lib \<Rightarrow> 'ls SpecMem \<Rightarrow> ('om, 'ls, 'lm, 'x) heap \<Rightarrow> 'ls SpecMem \<times> ('om, 'ls, 'lm, 'x) heap" where
  "GatewayDNSSpec_DeepCopyInto D inn h =
     (let out = inn;
          (sel, h1) = LabelSelector_DeepCopyInto D (sm_ClusterSelector inn) h
      in (out\<lparr>sm_ClusterSelector := sel\<rparr>, h1))"

definition GatewayDNS_DeepCopyInto ::
    "('om, 'ls, 'lm, 'x) meta_lib \<Rightarrow> ('om, 'ls) GatewayDNSMem \<Rightarrow> ('om, 'ls, 'lm, 'x) heap
      \<Rightarrow> ('om, 'ls) GatewayDNSMem \<times> ('om, 'ls, 'lm, 'x) heap" where
  "GatewayDNS_DeepCopyInto D inn h =
     (let out = inn;
          out = out\<lparr>gm_TypeMeta := gm_TypeMeta inn\<rparr>;
          (om, h1) = ObjectMeta_DeepCopyInto D (gm_ObjectMeta inn) h;
          out = out\<lparr>gm_ObjectMeta := om\<rparr>;
          (spec, h2) = GatewayDNSSpec_DeepCopyInto D (gm_Spec inn) h1;
          out = out\<lparr>gm_Spec := spec\<rparr>
      in (out\<lparr>gm_Status := gm_Status inn\<rparr>, h2))"

text \<open>The loop over the elements: element \<open>i\<close> of the array at \<open>src\<close> is copied into element \<open>i\<close> of the array at \<open>dst\<close>.\<close>

primrec copyItems ::
    "('om, 'ls, 'lm, 'x) meta_lib \<Rightarrow> nat \<Rightarrow> nat \<Rightarrow> nat list \<Rightarrow> ('om, 'ls, 'lm, 'x) heap \<Rightarrow> ('om, 'ls, 'lm, 'x) heap" where
  "copyItems D src dst [] h = h"
| "copyItems D src dst (i # is) h =
     (let (v, h1) = GatewayDNS_DeepCopyInto D (arrayAt h src ! i) h
      in copyItems D src dst is (h1[dst := ArrayCell ((arrayAt h1 dst)[i := v])]))"

definition GatewayDNSList_DeepCopyInto ::
    "('om, 'ls, 'lm, 'x) meta_lib \<Rightarrow> 'lm ListMem \<Rightarrow> ('om, 'ls, 'lm, 'x) heap \<Rightarrow> 'lm ListMem \<times> ('om, 'ls, 'lm, 'x) heap" where
  "GatewayDNSList_DeepCopyInto D inn h =
     (let out = inn;
          out = out\<lparr>lm_TypeMeta := lm_TypeMeta inn\<rparr>;
          (lm, h1) = ListMeta_DeepCopyInto D (lm_ListMeta inn) h;
          out = out\<lparr>lm_ListMeta := lm\<rparr>
      in case lm_Items inn of
           None \<Rightarrow> (out, h1)
         | Some src \<Rightarrow>
             (let n = length (arrayAt h1 src);
                  (dst, h2) = alloc (ArrayCell (replicate n (zero_GatewayDNS D))) h1
              in (out\<lparr>lm_Items := Some dst\<rparr>, copyItems D src dst [0..<n] h2)))"

section \<open>Copying to a new variable\<close>

text \<open>
  The shape of every \<open>DeepCopy\<close>: \<open>nil\<close> for \<open>nil\<close>; otherwise a new variable, which \<open>DeepCopyInto\<close>
  writes. \<open>get\<close> and \<open>put\<close> read and make a cell of the type.
\<close>

definition deepCopy ::
    "('v \<Rightarrow> 'c list \<Rightarrow> 'v \<times> 'c list) \<Rightarrow> 'v \<Rightarrow> ('c \<Rightarrow> 'v option) \<Rightarrow> ('v \<Rightarrow> 'c) \<Rightarrow> nat \<Rightarrow> 'c list \<Rightarrow> nat \<times> 'c list" where
  "deepCopy into zero get put a h =
     (let (out, h1) = alloc (put zero) h;
          (v, h2) = into (the (get (h1 ! a))) h1
      in (out, h2[out := put v]))"

fun asGatewayDNS :: "('om, 'ls, 'lm, 'x) cell \<Rightarrow> ('om, 'ls) GatewayDNSMem option" where
  "asGatewayDNS (GatewayDNSCell v) = Some v" | "asGatewayDNS _ = None"

fun asList :: "('om, 'ls, 'lm, 'x) cell \<Rightarrow> 'lm ListMem option" where
  "asList (ListCell v) = Some v" | "asList _ = None"

fun asSpec :: "('om, 'ls, 'lm, 'x) cell \<Rightarrow> 'ls SpecMem option" where
  "asSpec (SpecCell v) = Some v" | "asSpec _ = None"

fun asStatus :: "('om, 'ls, 'lm, 'x) cell \<Rightarrow> StatusMem option" where
  "asStatus (StatusCell v) = Some v" | "asStatus _ = None"

definition nil_or :: "('a \<Rightarrow> 'c list \<Rightarrow> 'a \<times> 'c list) \<Rightarrow> 'a option \<Rightarrow> 'c list \<Rightarrow> 'a option \<times> 'c list" where
  "nil_or f p h = (case p of None \<Rightarrow> (None, h) | Some a \<Rightarrow> (let (b, h') = f a h in (Some b, h')))"

definition GatewayDNS_DeepCopy ::
    "('om, 'ls, 'lm, 'x) meta_lib \<Rightarrow> nat option \<Rightarrow> ('om, 'ls, 'lm, 'x) heap \<Rightarrow> nat option \<times> ('om, 'ls, 'lm, 'x) heap" where
  "GatewayDNS_DeepCopy D = nil_or (deepCopy (GatewayDNS_DeepCopyInto D) (zero_GatewayDNS D) asGatewayDNS GatewayDNSCell)"

definition GatewayDNSList_DeepCopy ::
    "('om, 'ls, 'lm, 'x) meta_lib \<Rightarrow> nat option \<Rightarrow> ('om, 'ls, 'lm, 'x) heap \<Rightarrow> nat option \<times> ('om, 'ls, 'lm, 'x) heap" where
  "GatewayDNSList_DeepCopy D = nil_or (deepCopy (GatewayDNSList_DeepCopyInto D) (zero_List D) asList ListCell)"

definition GatewayDNSSpec_DeepCopy ::
    "('om, 'ls, 'lm, 'x) meta_lib \<Rightarrow> nat option \<Rightarrow> ('om, 'ls, 'lm, 'x) heap \<Rightarrow> nat option \<times> ('om, 'ls, 'lm, 'x) heap" where
  "GatewayDNSSpec_DeepCopy D = nil_or (deepCopy (GatewayDNSSpec_DeepCopyInto D) (zero_Spec D) asSpec SpecCell)"

definition GatewayDNSStatus_DeepCopy :: "nat option \<Rightarrow> ('om, 'ls, 'lm, 'x) heap \<Rightarrow> nat option \<times> ('om, 'ls, 'lm, 'x) heap" where
  "GatewayDNSStatus_DeepCopy = nil_or (deepCopy GatewayDNSStatus_DeepCopyInto GatewayDNSStatus asStatus StatusCell)"

text \<open>
  An interface value of type \<open>runtime.Object\<close> is \<open>nil\<close> or a pointer with its type; a pointer that is
  \<open>nil\<close> makes an interface value that is not \<open>nil\<close>.
\<close>

datatype runtime_Object = NilObject | GatewayDNSObject "nat option" | GatewayDNSListObject "nat option"

definition GatewayDNS_DeepCopyObject ::
    "('om, 'ls, 'lm, 'x) meta_lib \<Rightarrow> nat option \<Rightarrow> ('om, 'ls, 'lm, 'x) heap \<Rightarrow> runtime_Object \<times> ('om, 'ls, 'lm, 'x) heap" where
  "GatewayDNS_DeepCopyObject D inn h =
     (let (c, h') = GatewayDNS_DeepCopy D inn h in if c \<noteq> None then (GatewayDNSObject c, h') else (NilObject, h'))"

definition GatewayDNSList_DeepCopyObject ::
    "('om, 'ls, 'lm, 'x) meta_lib \<Rightarrow> nat option \<Rightarrow> ('om, 'ls, 'lm, 'x) heap \<Rightarrow> runtime_Object \<times> ('om, 'ls, 'lm, 'x) heap" where
  "GatewayDNSList_DeepCopyObject D inn h =
     (let (c, h') = GatewayDNSList_DeepCopy D inn h in if c \<noteq> None then (GatewayDNSListObject c, h') else (NilObject, h'))"

section \<open>The contract of a deep copy\<close>

text \<open>
  The memory has the same cells at the addresses of \<open>S\<close>; \<open>written\<close> says that at most the cells at
  the addresses of \<open>S\<close> differ.
\<close>

definition agree :: "nat set \<Rightarrow> 'c list \<Rightarrow> 'c list \<Rightarrow> bool" where
  "agree S h h' \<longleftrightarrow> (\<forall>a\<in>S. a < length h' \<and> h' ! a = h ! a)"

definition written :: "nat set \<Rightarrow> 'c list \<Rightarrow> 'c list \<Rightarrow> bool" where
  "written S h h' \<longleftrightarrow> length h' = length h \<and> (\<forall>a<length h. a \<notin> S \<longrightarrow> h' ! a = h ! a)"

lemma agree_refl: "S \<subseteq> {..<length h} \<Longrightarrow> agree S h h"
  by (auto simp: agree_def)

lemma agree_prefix: "prefix h h' \<Longrightarrow> S \<subseteq> {..<length h} \<Longrightarrow> agree S h h'"
  by (auto simp: agree_def prefix_def nth_append)

lemma agree_written: "written T h h' \<Longrightarrow> S \<subseteq> {..<length h} \<Longrightarrow> S \<inter> T = {} \<Longrightarrow> agree S h h'"
  by (auto simp: agree_def written_def)

lemma agree_update: "S \<subseteq> {..<length h} \<Longrightarrow> a \<notin> S \<Longrightarrow> agree S h (h[a := c])"
  by (auto simp: agree_def) (metis nth_list_update_neq)

lemma agree_mono: "agree S h h' \<Longrightarrow> T \<subseteq> S \<Longrightarrow> agree T h h'"
  by (auto simp: agree_def)

lemma prefix_update: "prefix h h' \<Longrightarrow> length h \<le> a \<Longrightarrow> prefix h (h'[a := c])"
  by (auto simp: prefix_def list_update_append)

lemma prefix_nth: "prefix h h' \<Longrightarrow> a < length h \<Longrightarrow> h' ! a = h ! a"
  by (auto simp: prefix_def nth_append)

text \<open>
  \<open>foot v h\<close> are the addresses that can be reached from the value \<open>v\<close>, \<open>content v h\<close> is what it
  says when all references are followed, \<open>ok v h\<close> that its references lead to cells of their
  types. The laws: content and references depend on the reachable cells only, and a copy changes
  no cell there was, has the content of the original and reaches new cells only.
\<close>

locale deep_copier =
  fixes copy :: "'v \<Rightarrow> 'c list \<Rightarrow> 'v \<times> 'c list" and content :: "'v \<Rightarrow> 'c list \<Rightarrow> 'k"
    and foot :: "'v \<Rightarrow> 'c list \<Rightarrow> nat set" and ok :: "'v \<Rightarrow> 'c list \<Rightarrow> bool"
  assumes foot_in: "ok v h \<Longrightarrow> foot v h \<subseteq> {..<length h}"
    and depends: "ok v h \<Longrightarrow> agree (foot v h) h h' \<Longrightarrow> content v h' = content v h \<and> foot v h' = foot v h \<and> ok v h'"
    and copied: "ok v h \<Longrightarrow> copy v h = (v', h') \<Longrightarrow>
      prefix h h' \<and> ok v' h' \<and> content v' h' = content v h \<and> foot v' h' \<subseteq> {length h..<length h'}"
begin

lemma grown: "ok v h \<Longrightarrow> prefix h h' \<Longrightarrow> content v h' = content v h \<and> foot v h' = foot v h \<and> ok v h'"
  by (rule depends) (simp_all add: agree_prefix foot_in)

text \<open>What is written through the original is not seen through the copy, and the other way round.\<close>

lemma independent:
  assumes "ok v h" and "copy v h = (v', h')"
  shows "written (foot v h') h' h'' \<Longrightarrow> content v' h'' = content v h"
    and "written (foot v' h') h' h'' \<Longrightarrow> content v h'' = content v h"
proof -
  note c = copied [OF assms]
  then have o: "ok v h'" "foot v h' = foot v h" "content v h' = content v h" using grown [OF assms(1)] by blast+
  have "foot v h' \<inter> foot v' h' = {}" using c o(2) foot_in [OF assms(1)] by fastforce
  moreover have "foot v h' \<subseteq> {..<length h'}" "foot v' h' \<subseteq> {..<length h'}" using foot_in o(1) c by blast+
  ultimately show "written (foot v h') h' h'' \<Longrightarrow> content v' h'' = content v h"
    and "written (foot v' h') h' h'' \<Longrightarrow> content v h'' = content v h"
    using depends [OF o(1)] depends [of v' h'] c o(3) by (metis agree_written inf_commute)+
qed

end

text \<open>A copier for the values that one kind of pointer points to gives one for the pointers.\<close>

definition ptr_content :: "('v \<Rightarrow> 'c list \<Rightarrow> 'k) \<Rightarrow> ('c \<Rightarrow> 'v option) \<Rightarrow> nat \<Rightarrow> 'c list \<Rightarrow> 'k" where
  "ptr_content content get a h = content (the (get (h ! a))) h"

definition ptr_foot :: "('v \<Rightarrow> 'c list \<Rightarrow> nat set) \<Rightarrow> ('c \<Rightarrow> 'v option) \<Rightarrow> nat \<Rightarrow> 'c list \<Rightarrow> nat set" where
  "ptr_foot foot get a h = insert a (foot (the (get (h ! a))) h)"

definition ptr_ok :: "('v \<Rightarrow> 'c list \<Rightarrow> bool) \<Rightarrow> ('c \<Rightarrow> 'v option) \<Rightarrow> nat \<Rightarrow> 'c list \<Rightarrow> bool" where
  "ptr_ok ok get a h \<longleftrightarrow> a < length h \<and> get (h ! a) \<noteq> None \<and> ok (the (get (h ! a))) h"

lemmas ptr_defs = ptr_content_def ptr_foot_def ptr_ok_def

context deep_copier
begin

lemma deepCopy_copier:
  assumes put: "\<And>v. get (put v) = Some v"
  shows "deep_copier (deepCopy copy zero get put) (ptr_content content get) (ptr_foot foot get) (ptr_ok ok get)"
proof
  fix a h assume "ptr_ok ok get a h"
  then show "ptr_foot foot get a h \<subseteq> {..<length h}" using foot_in by (auto simp: ptr_defs)
next
  fix a h h' assume a: "ptr_ok ok get a h" "agree (ptr_foot foot get a h) h h'"
  then have "h' ! a = h ! a" "a < length h'" by (auto simp: agree_def ptr_foot_def)
  with a depends [of "the (get (h ! a))" h h'] show "ptr_content content get a h' = ptr_content content get a h \<and>
      ptr_foot foot get a h' = ptr_foot foot get a h \<and> ptr_ok ok get a h'"
    by (auto simp: ptr_defs intro: agree_mono)
next
  fix a b h h' assume a: "ptr_ok ok get a h" and run: "deepCopy copy zero get put a h = (b, h')"
  let ?v = "the (get (h ! a))" and ?h = "h @ [put zero]"
  have at: "?h ! a = h ! a" using a by (simp add: ptr_ok_def nth_append)
  obtain v' h2 where c: "copy ?v ?h = (v', h2)" by fastforce
  have v: "ok ?v ?h" "content ?v ?h = content ?v h" using a grown [of ?v h ?h] by (auto simp: ptr_ok_def)
  have b: "b = length h" "h' = h2[length h := put v']" using run c by (auto simp: deepCopy_def alloc_def at)
  note d = copied [OF v(1) c]
  then have len: "length h < length h2" using prefix_length_le by fastforce
  have "prefix h h2" using d by (auto simp: prefix_def)
  then have "prefix h h'" by (simp add: b prefix_update)
  moreover have "agree (foot v' h2) h2 h'" unfolding b(2) using d by (intro agree_update) auto
  with d depends [of v' h2 h'] have "content v' h' = content v' h2" "foot v' h' = foot v' h2" "ok v' h'" by blast+
  moreover have "h' ! b = put v'" using b len by simp
  ultimately show "prefix h h' \<and> ptr_ok ok get b h' \<and> ptr_content content get b h' = ptr_content content get a h \<and>
      ptr_foot foot get b h' \<subseteq> {length h..<length h'}"
    using d v(2) len b by (auto simp: ptr_defs put)
qed

end

section \<open>The copies of this package keep the contract\<close>

text \<open>How the values of the library's types are read\<close>

record ('om, 'ls, 'lm, 'x, 'k) meta_view =
  om_content :: "'om \<Rightarrow> ('om, 'ls, 'lm, 'x) heap \<Rightarrow> 'k"
  om_foot :: "'om \<Rightarrow> ('om, 'ls, 'lm, 'x) heap \<Rightarrow> nat set"
  om_ok :: "'om \<Rightarrow> ('om, 'ls, 'lm, 'x) heap \<Rightarrow> bool"
  lm_content :: "'lm \<Rightarrow> ('om, 'ls, 'lm, 'x) heap \<Rightarrow> 'k"
  lm_foot :: "'lm \<Rightarrow> ('om, 'ls, 'lm, 'x) heap \<Rightarrow> nat set"
  lm_ok :: "'lm \<Rightarrow> ('om, 'ls, 'lm, 'x) heap \<Rightarrow> bool"
  ls_content :: "'ls \<Rightarrow> ('om, 'ls, 'lm, 'x) heap \<Rightarrow> 'k"
  ls_foot :: "'ls \<Rightarrow> ('om, 'ls, 'lm, 'x) heap \<Rightarrow> nat set"
  ls_ok :: "'ls \<Rightarrow> ('om, 'ls, 'lm, 'x) heap \<Rightarrow> bool"

text \<open>The values of the API types: their content, reachable addresses and typing, from their fields\<close>

definition spec_content :: "('om, 'ls, 'lm, 'x, 'k) meta_view \<Rightarrow> 'ls SpecMem \<Rightarrow> ('om, 'ls, 'lm, 'x) heap \<Rightarrow> 'k \<times> string \<times> string" where
  "spec_content W v h = (ls_content W (sm_ClusterSelector v) h, sm_Service v, sm_ResolutionType v)"

definition spec_foot :: "('om, 'ls, 'lm, 'x, 'k) meta_view \<Rightarrow> 'ls SpecMem \<Rightarrow> ('om, 'ls, 'lm, 'x) heap \<Rightarrow> nat set" where
  "spec_foot W v h = ls_foot W (sm_ClusterSelector v) h"

definition spec_ok :: "('om, 'ls, 'lm, 'x, 'k) meta_view \<Rightarrow> 'ls SpecMem \<Rightarrow> ('om, 'ls, 'lm, 'x) heap \<Rightarrow> bool" where
  "spec_ok W v h \<longleftrightarrow> ls_ok W (sm_ClusterSelector v) h"

definition gd_content :: "('om, 'ls, 'lm, 'x, 'k) meta_view \<Rightarrow> ('om, 'ls) GatewayDNSMem \<Rightarrow> ('om, 'ls, 'lm, 'x) heap \<Rightarrow> TypeMeta \<times> 'k \<times> ('k \<times> string \<times> string) \<times> StatusMem" where
  "gd_content W v h = (gm_TypeMeta v, om_content W (gm_ObjectMeta v) h, spec_content W (gm_Spec v) h, gm_Status v)"

definition gd_foot :: "('om, 'ls, 'lm, 'x, 'k) meta_view \<Rightarrow> ('om, 'ls) GatewayDNSMem \<Rightarrow> ('om, 'ls, 'lm, 'x) heap \<Rightarrow> nat set" where
  "gd_foot W v h = om_foot W (gm_ObjectMeta v) h \<union> spec_foot W (gm_Spec v) h"

definition gd_ok :: "('om, 'ls, 'lm, 'x, 'k) meta_view \<Rightarrow> ('om, 'ls) GatewayDNSMem \<Rightarrow> ('om, 'ls, 'lm, 'x) heap \<Rightarrow> bool" where
  "gd_ok W v h \<longleftrightarrow> om_ok W (gm_ObjectMeta v) h \<and> spec_ok W (gm_Spec v) h"

definition items_foot :: "('om, 'ls, 'lm, 'x, 'k) meta_view \<Rightarrow> nat option \<Rightarrow> ('om, 'ls, 'lm, 'x) heap \<Rightarrow> nat set" where
  "items_foot W p h = (case p of None \<Rightarrow> {} | Some a \<Rightarrow> insert a (\<Union>v\<in>set (arrayAt h a). gd_foot W v h))"

definition items_ok :: "('om, 'ls, 'lm, 'x, 'k) meta_view \<Rightarrow> nat option \<Rightarrow> ('om, 'ls, 'lm, 'x) heap \<Rightarrow> bool" where
  "items_ok W p h \<longleftrightarrow> (case p of None \<Rightarrow> True | Some a \<Rightarrow>
     a < length h \<and> (\<exists>vs. h ! a = ArrayCell vs) \<and> (\<forall>v\<in>set (arrayAt h a). gd_ok W v h))"

definition list_content :: "('om, 'ls, 'lm, 'x, 'k) meta_view \<Rightarrow> 'lm ListMem \<Rightarrow> ('om, 'ls, 'lm, 'x) heap
      \<Rightarrow> TypeMeta \<times> 'k \<times> (TypeMeta \<times> 'k \<times> ('k \<times> string \<times> string) \<times> StatusMem) list option" where
  "list_content W v h = (lm_TypeMeta v, lm_content W (lm_ListMeta v) h,
     map_option (\<lambda>a. map (\<lambda>g. gd_content W g h) (arrayAt h a)) (lm_Items v))"

definition list_foot :: "('om, 'ls, 'lm, 'x, 'k) meta_view \<Rightarrow> 'lm ListMem \<Rightarrow> ('om, 'ls, 'lm, 'x) heap \<Rightarrow> nat set" where
  "list_foot W v h = lm_foot W (lm_ListMeta v) h \<union> items_foot W (lm_Items v) h"

definition list_ok :: "('om, 'ls, 'lm, 'x, 'k) meta_view \<Rightarrow> 'lm ListMem \<Rightarrow> ('om, 'ls, 'lm, 'x) heap \<Rightarrow> bool" where
  "list_ok W v h \<longleftrightarrow> lm_ok W (lm_ListMeta v) h \<and> items_ok W (lm_Items v) h"

lemmas spec_view_defs = spec_content_def spec_foot_def spec_ok_def
lemmas gd_view_defs = gd_content_def gd_foot_def gd_ok_def
lemmas list_view_defs = list_content_def list_foot_def list_ok_def

locale meta_copiers =
  om: deep_copier "ObjectMeta_DeepCopyInto D" "om_content W" "om_foot W" "om_ok W" +
  lm: deep_copier "ListMeta_DeepCopyInto D" "lm_content W" "lm_foot W" "lm_ok W" +
  ls: deep_copier "LabelSelector_DeepCopyInto D" "ls_content W" "ls_foot W" "ls_ok W"
  for D :: "('om, 'ls, 'lm, 'x) meta_lib" and W :: "('om, 'ls, 'lm, 'x, 'k) meta_view"

sublocale meta_copiers \<subseteq> spec: deep_copier "GatewayDNSSpec_DeepCopyInto D" "spec_content W" "spec_foot W" "spec_ok W"
proof
  fix v v' h h' assume v: "spec_ok W v h" and run: "GatewayDNSSpec_DeepCopyInto D v h = (v', h')"
  obtain l h1 where l: "LabelSelector_DeepCopyInto D (sm_ClusterSelector v) h = (l, h1)" by fastforce
  with run have "v' = v\<lparr>sm_ClusterSelector := l\<rparr>" "h' = h1" by (simp_all add: GatewayDNSSpec_DeepCopyInto_def)
  with ls.copied [OF _ l] v show "prefix h h' \<and> spec_ok W v' h' \<and> spec_content W v' h' = spec_content W v h \<and>
      spec_foot W v' h' \<subseteq> {length h..<length h'}"
    by (simp add: spec_view_defs)
next
  fix v h h' assume "spec_ok W v h" "agree (spec_foot W v h) h h'"
  with ls.depends [of "sm_ClusterSelector v" h h']
  show "spec_content W v h' = spec_content W v h \<and> spec_foot W v h' = spec_foot W v h \<and> spec_ok W v h'"
    by (simp add: spec_view_defs)
qed (simp add: spec_view_defs ls.foot_in)

sublocale meta_copiers \<subseteq> gd: deep_copier "GatewayDNS_DeepCopyInto D" "gd_content W" "gd_foot W" "gd_ok W"
proof
  fix v v' h h' assume v: "gd_ok W v h" and run: "GatewayDNS_DeepCopyInto D v h = (v', h')"
  obtain m h1 where m: "ObjectMeta_DeepCopyInto D (gm_ObjectMeta v) h = (m, h1)" by fastforce
  obtain s h2 where s: "GatewayDNSSpec_DeepCopyInto D (gm_Spec v) h1 = (s, h2)" by fastforce
  from run m s have v': "v' = v\<lparr>gm_ObjectMeta := m, gm_Spec := s\<rparr>" "h' = h2"
    by (simp_all add: GatewayDNS_DeepCopyInto_def)
  from v have ok: "om_ok W (gm_ObjectMeta v) h" "spec_ok W (gm_Spec v) h" by (simp_all add: gd_ok_def)
  note cm = om.copied [OF ok(1) m]
  then have kept: "spec_ok W (gm_Spec v) h1" "spec_content W (gm_Spec v) h1 = spec_content W (gm_Spec v) h"
    using spec.grown [OF ok(2)] by blast+
  note cs = spec.copied [OF kept(1) s]
  with cm have "om_content W m h2 = om_content W m h1" "om_foot W m h2 = om_foot W m h1" "om_ok W m h2"
    using om.grown by blast+
  moreover have "length h \<le> length h1" "length h1 \<le> length h2" using cm cs prefix_length_le by blast+
  ultimately show "prefix h h' \<and> gd_ok W v' h' \<and> gd_content W v' h' = gd_content W v h \<and>
      gd_foot W v' h' \<subseteq> {length h..<length h'}"
    using cm cs kept(2) by (auto simp: gd_view_defs v' intro: prefix_order.trans)
next
  fix v h h' assume "gd_ok W v h" "agree (gd_foot W v h) h h'"
  moreover from this(2) have "agree (om_foot W (gm_ObjectMeta v) h) h h'" "agree (spec_foot W (gm_Spec v) h) h h'"
    by (auto simp: gd_foot_def agree_def)
  ultimately show "gd_content W v h' = gd_content W v h \<and> gd_foot W v h' = gd_foot W v h \<and> gd_ok W v h'"
    using om.depends [of "gm_ObjectMeta v" h h'] spec.depends [of "gm_Spec v" h h'] by (simp add: gd_view_defs)
qed (use om.foot_in spec.foot_in in \<open>simp add: gd_view_defs\<close>)

text \<open>
  The loop over the elements, \<open>k\<close> of which are done: \<open>h0\<close> is the memory before the new array, whose
  address is \<open>length h0\<close>, and \<open>vs\<close> are the elements to copy.
\<close>

definition items_copied :: "('om, 'ls, 'lm, 'x, 'k) meta_view \<Rightarrow> ('om, 'ls, 'lm, 'x) heap \<Rightarrow> ('om, 'ls) GatewayDNSMem list \<Rightarrow> nat \<Rightarrow> ('om, 'ls, 'lm, 'x) heap \<Rightarrow> bool" where
  "items_copied W h0 vs k h \<longleftrightarrow> prefix h0 h \<and> length h0 < length h \<and>
     (\<exists>ys. h ! length h0 = ArrayCell ys \<and> length ys = length vs \<and>
       (\<forall>j<k. gd_ok W (ys ! j) h \<and> gd_content W (ys ! j) h = gd_content W (vs ! j) h0 \<and>
          gd_foot W (ys ! j) h \<subseteq> {length h0<..<length h}))"

context meta_copiers
begin

text \<open>A copied element keeps its content when its array is written.\<close>

lemma gd_update:
  assumes "gd_ok W v h" and "gd_foot W v h \<subseteq> {a<..<length h}"
  shows "gd_ok W v (h[a := c]) \<and> gd_content W v (h[a := c]) = gd_content W v h \<and> gd_foot W v (h[a := c]) = gd_foot W v h"
proof -
  have "agree (gd_foot W v h) h (h[a := c])" using gd.foot_in [OF assms(1)] assms(2) by (intro agree_update) auto
  with gd.depends [OF assms(1)] show ?thesis by blast
qed

lemma items_copied_step:
  assumes inv: "items_copied W h0 vs k h" and k: "k < length vs" and ok: "gd_ok W (vs ! k) h0"
    and run: "GatewayDNS_DeepCopyInto D (vs ! k) h = (v, h1)"
  shows "items_copied W h0 vs (Suc k) (h1[length h0 := ArrayCell ((arrayAt h1 (length h0))[k := v])])"
proof -
  let ?a = "length h0"
  from inv obtain ys where p: "prefix h0 h" "?a < length h" and ys: "h ! ?a = ArrayCell ys" "length ys = length vs"
    and before: "\<And>j. j < k \<Longrightarrow> gd_ok W (ys ! j) h \<and> gd_content W (ys ! j) h = gd_content W (vs ! j) h0 \<and>
          gd_foot W (ys ! j) h \<subseteq> {?a<..<length h}"
    unfolding items_copied_def by blast
  have src: "gd_ok W (vs ! k) h" "gd_content W (vs ! k) h = gd_content W (vs ! k) h0" using gd.grown [OF ok p(1)] by blast+
  note c = gd.copied [OF src(1) run]
  then have p1: "prefix h h1" and len: "length h \<le> length h1" using prefix_length_le by blast+
  have ys1: "arrayAt h1 ?a = ys" using prefix_nth [OF p1 p(2)] ys(1) by (simp add: arrayAt_def)
  let ?h = "h1[?a := ArrayCell (ys[k := v])]"
  have "gd_ok W (ys[k := v] ! j) h1 \<and> gd_content W (ys[k := v] ! j) h1 = gd_content W (vs ! j) h0 \<and>
      gd_foot W (ys[k := v] ! j) h1 \<subseteq> {?a<..<length h1}" if "j < Suc k" for j
  proof (cases "j = k")
    case True
    with c k ys(2) p(2) src(2) show ?thesis by fastforce
  next
    case False
    with that have "j < k" by simp
    from before [OF this] gd.grown [of "ys ! j" h h1] p1
    have "gd_ok W (ys ! j) h1" "gd_content W (ys ! j) h1 = gd_content W (vs ! j) h0" "gd_foot W (ys ! j) h1 \<subseteq> {?a<..<length h}"
      by simp_all
    with len False show ?thesis by (auto simp: subset_eq)
  qed
  note now = this
  have "gd_ok W (ys[k := v] ! j) ?h \<and> gd_content W (ys[k := v] ! j) ?h = gd_content W (vs ! j) h0 \<and>
      gd_foot W (ys[k := v] ! j) ?h \<subseteq> {?a<..<length ?h}" if "j < Suc k" for j
    using now [OF that] gd_update [of "ys[k := v] ! j" h1 ?a "ArrayCell (ys[k := v])"] by (simp del: nth_list_update)
  moreover have "prefix h0 ?h" using prefix_order.trans [OF p(1) p1] by (simp add: prefix_update)
  ultimately show ?thesis using p(2) len ys(2) unfolding ys1 by (simp add: items_copied_def)
qed

lemma copyItems_copied:
  assumes src: "src < length h0" "arrayAt h0 src = vs" and ok: "\<forall>v\<in>set vs. gd_ok W v h0"
    and "items_copied W h0 vs k h" and "k \<le> length vs"
  shows "items_copied W h0 vs (length vs) (copyItems D src (length h0) [k..<length vs] h)"
  using assms(4,5)
proof (induction "length vs - k" arbitrary: k h)
  case 0
  then show ?case by simp
next
  case (Suc n)
  then have k: "k < length vs" and "[k..<length vs] = k # [Suc k..<length vs]" by (simp_all add: upt_conv_Cons)
  moreover obtain v h1 where run: "GatewayDNS_DeepCopyInto D (vs ! k) h = (v, h1)" by fastforce
  moreover have "arrayAt h src = vs" using Suc.prems(1) src prefix_nth [of h0 h src] by (simp add: items_copied_def arrayAt_def)
  moreover have "gd_ok W (vs ! k) h0" using ok k by simp
  ultimately show ?case using Suc.hyps items_copied_step [OF Suc.prems(1) k _ run] by simp
qed

lemma items_copied_done:
  assumes "items_copied W h0 vs (length vs) h"
  shows "items_ok W (Some (length h0)) h" and "items_foot W (Some (length h0)) h \<subseteq> {length h0..<length h}"
    and "map (\<lambda>g. gd_content W g h) (arrayAt h (length h0)) = map (\<lambda>g. gd_content W g h0) vs"
proof -
  from assms obtain ys where ys: "h ! length h0 = ArrayCell ys" "length ys = length vs" "length h0 < length h"
    and each: "\<forall>j<length ys. gd_ok W (ys ! j) h \<and> gd_content W (ys ! j) h = gd_content W (vs ! j) h0 \<and>
       gd_foot W (ys ! j) h \<subseteq> {length h0<..<length h}"
    unfolding items_copied_def by metis
  have at: "arrayAt h (length h0) = ys" using ys(1) by (simp add: arrayAt_def)
  have "\<forall>y\<in>set ys. gd_ok W y h \<and> gd_foot W y h \<subseteq> {length h0<..<length h}" using each by (metis in_set_conv_nth)
  then show "items_ok W (Some (length h0)) h" and "items_foot W (Some (length h0)) h \<subseteq> {length h0..<length h}"
    using ys(1,3) unfolding items_ok_def items_foot_def option.case at by fastforce+
  show "map (\<lambda>g. gd_content W g h) (arrayAt h (length h0)) = map (\<lambda>g. gd_content W g h0) vs"
    unfolding at using ys(2) each by (intro nth_equalityI) simp_all
qed

lemma items_depend:
  assumes "items_ok W p h" and "agree (items_foot W p h) h h'"
  shows "map_option (\<lambda>a. map (\<lambda>g. gd_content W g h') (arrayAt h' a)) p = map_option (\<lambda>a. map (\<lambda>g. gd_content W g h) (arrayAt h a)) p \<and>
    items_foot W p h' = items_foot W p h \<and> items_ok W p h'"
proof (cases p)
  case (Some a)
  then have a: "h' ! a = h ! a" "a < length h'" using assms(2) by (auto simp: items_foot_def agree_def)
  then have at: "arrayAt h' a = arrayAt h a" by (simp add: arrayAt_def)
  have "gd_content W v h' = gd_content W v h \<and> gd_foot W v h' = gd_foot W v h \<and> gd_ok W v h'" if "v \<in> set (arrayAt h a)" for v
    using that assms Some by (intro gd.depends) (auto simp: items_ok_def items_foot_def agree_def)
  with a at assms(1) Some show ?thesis by (auto simp: items_ok_def items_foot_def)
qed (simp add: items_foot_def items_ok_def)

lemma items_grown:
  "items_ok W p h \<Longrightarrow> items_foot W p h \<subseteq> {..<length h}"
  using gd.foot_in by (fastforce simp: items_ok_def items_foot_def split: option.splits)

end

sublocale meta_copiers \<subseteq> list: deep_copier "GatewayDNSList_DeepCopyInto D" "list_content W" "list_foot W" "list_ok W"
proof
  fix v v' h h' assume v: "list_ok W v h" and run: "GatewayDNSList_DeepCopyInto D v h = (v', h')"
  obtain m h1 where m: "ListMeta_DeepCopyInto D (lm_ListMeta v) h = (m, h1)" by fastforce
  from v have ok: "lm_ok W (lm_ListMeta v) h" "items_ok W (lm_Items v) h" by (simp_all add: list_ok_def)
  note cm = lm.copied [OF ok(1) m]
  then have p1: "prefix h h1" by blast
  have "agree (items_foot W (lm_Items v) h) h h1" by (rule agree_prefix [OF p1 items_grown [OF ok(2)]])
  note items = items_depend [OF ok(2) this]
  show "prefix h h' \<and> list_ok W v' h' \<and> list_content W v' h' = list_content W v h \<and> list_foot W v' h' \<subseteq> {length h..<length h'}"
  proof (cases "lm_Items v")
    case None
    with run m have "v' = v\<lparr>lm_ListMeta := m\<rparr>" "h' = h1" by (simp_all add: GatewayDNSList_DeepCopyInto_def)
    with cm None show ?thesis by (simp add: list_view_defs items_ok_def items_foot_def)
  next
    case (Some src)
    let ?vs = "arrayAt h1 src"
    let ?h2 = "h1 @ [ArrayCell (replicate (length ?vs) (zero_GatewayDNS D))]"
    from run m Some have v': "v' = v\<lparr>lm_ListMeta := m, lm_Items := Some (length h1)\<rparr>"
      and h': "h' = copyItems D src (length h1) [0..<length ?vs] ?h2"
      by (auto simp: GatewayDNSList_DeepCopyInto_def alloc_def Let_def)
    have src: "src < length h1" "\<forall>g\<in>set ?vs. gd_ok W g h1" using items Some by (auto simp: items_ok_def)
    have "items_copied W h1 ?vs 0 ?h2" by (simp add: items_copied_def)
    then have copied: "items_copied W h1 ?vs (length ?vs) h'"
      unfolding h' using src by (intro copyItems_copied) simp_all
    then have p2: "prefix h1 h'" by (simp add: items_copied_def)
    note new = items_copied_done [OF copied]
    have "lm_content W m h' = lm_content W m h1" "lm_foot W m h' = lm_foot W m h1" "lm_ok W m h'"
      using lm.grown [OF _ p2] cm by blast+
    moreover have "length h \<le> length h1" "length h1 \<le> length h'" using p1 p2 prefix_length_le by blast+
    moreover have "prefix h h'" using p1 p2 by (rule prefix_order.trans)
    ultimately show ?thesis using cm new items Some by (auto simp: list_view_defs v')
  qed
next
  fix v h h' assume "list_ok W v h" "agree (list_foot W v h) h h'"
  moreover from this(2) have "agree (lm_foot W (lm_ListMeta v) h) h h'" "agree (items_foot W (lm_Items v) h) h h'"
    by (auto simp: list_foot_def agree_def)
  ultimately show "list_content W v h' = list_content W v h \<and> list_foot W v h' = list_foot W v h \<and> list_ok W v h'"
    using lm.depends [of "lm_ListMeta v" h h'] items_depend [of "lm_Items v" h h'] by (simp add: list_view_defs)
qed (use lm.foot_in items_grown in \<open>simp add: list_view_defs\<close>)

section \<open>Pointers\<close>

definition separate_copy ::
    "('v \<Rightarrow> 'c list \<Rightarrow> 'k) \<Rightarrow> ('v \<Rightarrow> 'c list \<Rightarrow> nat set) \<Rightarrow> 'v \<Rightarrow> 'c list \<Rightarrow> 'v \<Rightarrow> 'c list \<Rightarrow> bool" where
  "separate_copy content foot a h b h' \<longleftrightarrow> prefix h h' \<and> content b h' = content a h \<and>
     (\<forall>h''. written (foot a h') h' h'' \<longrightarrow> content b h'' = content a h) \<and>
     (\<forall>h''. written (foot b h') h' h'' \<longrightarrow> content a h'' = content a h)"

context deep_copier
begin

lemma separate: "ok v h \<Longrightarrow> copy v h = (v', h') \<Longrightarrow> separate_copy content foot v h v' h'"
  using copied independent unfolding separate_copy_def by blast

lemma deepCopy_separate:
  assumes "\<And>v. get (put v) = Some v" and "ptr_ok ok get a h"
  shows "\<exists>b h'. nil_or (deepCopy copy zero get put) (Some a) h = (Some b, h') \<and>
    separate_copy (ptr_content content get) (ptr_foot foot get) a h b h'"
proof -
  obtain b h' where run: "deepCopy copy zero get put a h = (b, h')" by fastforce
  from deep_copier.separate [OF deepCopy_copier [OF assms(1)] assms(2) run] run show ?thesis by (simp add: nil_or_def)
qed

end

context meta_copiers
begin

lemma copiers:
  shows gd_copier: "deep_copier (GatewayDNS_DeepCopyInto D) (gd_content W) (gd_foot W) (gd_ok W)"
    and list_copier: "deep_copier (GatewayDNSList_DeepCopyInto D) (list_content W) (list_foot W) (list_ok W)"
    and spec_copier: "deep_copier (GatewayDNSSpec_DeepCopyInto D) (spec_content W) (spec_foot W) (spec_ok W)"
  by (rule gd.deep_copier_axioms list.deep_copier_axioms spec.deep_copier_axioms)+

end

interpretation status: deep_copier GatewayDNSStatus_DeepCopyInto "\<lambda>v h. v" "\<lambda>v h. {}" "\<lambda>v h. True"
  by unfold_locales (auto simp: GatewayDNSStatus_DeepCopyInto_def)

text \<open>The types inside, a GatewayDNS's spec and status, have the same copies.\<close>

lemma DeepCopy_parts_separate:
  assumes "meta_copiers D W" and "ptr_ok (spec_ok W) asSpec s h" and "t < length h" and "h ! t = StatusCell st"
  shows "\<exists>b h'. GatewayDNSSpec_DeepCopy D (Some s) h = (Some b, h') \<and>
      separate_copy (ptr_content (spec_content W) asSpec) (ptr_foot (spec_foot W) asSpec) s h b h'"
    and "\<exists>b h'. GatewayDNSStatus_DeepCopy (Some t) h = (Some b, h') \<and>
      separate_copy (ptr_content (\<lambda>v h. v) asStatus) (ptr_foot (\<lambda>v h. {}) asStatus) t h b h'"
  using deep_copier.deepCopy_separate [OF meta_copiers.copiers(3) [OF assms(1)] asSpec.simps(1) assms(2), of "zero_Spec D"]
    status.deepCopy_separate [of asStatus StatusCell t h GatewayDNSStatus] assms(3,4)
  by (auto simp: GatewayDNSSpec_DeepCopy_def GatewayDNSStatus_DeepCopy_def ptr_ok_def)

section \<open>A library of values with one reference\<close>

text \<open>
  An instance of the library: a value of each of its types is a name and a map that may be \<open>nil\<close>;
  the cells are maps. A copy makes a new cell for the map.
\<close>

type_synonym labelled = "string \<times> nat option"
type_synonym lab_heap = "(labelled, labelled, labelled, (string \<times> string) list) heap"

definition lab_copy :: "labelled \<Rightarrow> lab_heap \<Rightarrow> labelled \<times> lab_heap" where
  "lab_copy v h = (case snd v of None \<Rightarrow> (v, h) | Some a \<Rightarrow> ((fst v, Some (length h)), h @ [h ! a]))"

fun asLib :: "('om, 'ls, 'lm, 'x) cell \<Rightarrow> 'x option" where
  "asLib (LibCell x) = Some x" | "asLib _ = None"

definition lab_content :: "labelled \<Rightarrow> lab_heap \<Rightarrow> string \<times> (string \<times> string) list option option" where
  "lab_content v h = (fst v, map_option (\<lambda>a. asLib (h ! a)) (snd v))"

definition lab_foot :: "labelled \<Rightarrow> lab_heap \<Rightarrow> nat set" where
  "lab_foot v h = set_option (snd v)"

definition lab_ok :: "labelled \<Rightarrow> lab_heap \<Rightarrow> bool" where
  "lab_ok v h \<longleftrightarrow> (case snd v of None \<Rightarrow> True | Some a \<Rightarrow> a < length h \<and> asLib (h ! a) \<noteq> None)"

definition lab_lib :: "(labelled, labelled, labelled, (string \<times> string) list) meta_lib" where
  "lab_lib = \<lparr>ObjectMeta_DeepCopyInto = lab_copy, ListMeta_DeepCopyInto = lab_copy, LabelSelector_DeepCopyInto = lab_copy,
     zero_ObjectMeta = ([], None), zero_ListMeta = ([], None), zero_LabelSelector = ([], None)\<rparr>"

definition lab_view ::
    "(labelled, labelled, labelled, (string \<times> string) list, string \<times> (string \<times> string) list option option) meta_view" where
  "lab_view = \<lparr>om_content = lab_content, om_foot = lab_foot, om_ok = lab_ok, lm_content = lab_content, lm_foot = lab_foot,
     lm_ok = lab_ok, ls_content = lab_content, ls_foot = lab_foot, ls_ok = lab_ok\<rparr>"

interpretation lab: deep_copier lab_copy lab_content lab_foot lab_ok
  by unfold_locales (auto simp: lab_copy_def lab_content_def lab_foot_def lab_ok_def agree_def split: option.splits)

interpretation lab_meta: meta_copiers lab_lib lab_view
  unfolding meta_copiers_def lab_lib_def lab_view_def by (simp add: lab.deep_copier_axioms)

section \<open>Properties\<close>

text \<open>
  C38. Deep copies: the copy of a GatewayDNS and of a list of them, whether or not the list has
  items, has the content of the original, no memory that there was changes, and the two share
  nothing: whatever is written through the one afterwards, to its own fields, the items of the
  list or the maps and slices inside, the other still says the same. The copy of a \<open>nil\<close> pointer
  is the \<open>nil\<close> object, never a \<open>nil\<close> pointer inside an object that is not \<open>nil\<close>.
\<close>

theorem DeepCopyObject_separate:
  assumes "meta_copiers D W" and "ptr_ok (gd_ok W) asGatewayDNS g h" and "ptr_ok (list_ok W) asList l h"
  shows "(\<exists>b h'. GatewayDNS_DeepCopyObject D (Some g) h = (GatewayDNSObject (Some b), h') \<and>
      separate_copy (ptr_content (gd_content W) asGatewayDNS) (ptr_foot (gd_foot W) asGatewayDNS) g h b h') \<and>
    (\<exists>b h'. GatewayDNSList_DeepCopyObject D (Some l) h = (GatewayDNSListObject (Some b), h') \<and>
      separate_copy (ptr_content (list_content W) asList) (ptr_foot (list_foot W) asList) l h b h') \<and>
    GatewayDNS_DeepCopyObject D None h = (NilObject, h) \<and> GatewayDNSList_DeepCopyObject D None h = (NilObject, h)"
proof -
  note copiers = meta_copiers.copiers [OF assms(1)]
  from deep_copier.deepCopy_separate [OF copiers(1) asGatewayDNS.simps(1) assms(2), of "zero_GatewayDNS D", folded GatewayDNS_DeepCopy_def]
    deep_copier.deepCopy_separate [OF copiers(2) asList.simps(1) assms(3), of "zero_List D", folded GatewayDNSList_DeepCopy_def]
  show ?thesis
    by (auto simp: GatewayDNS_DeepCopyObject_def GatewayDNSList_DeepCopyObject_def GatewayDNS_DeepCopy_def
        GatewayDNSList_DeepCopy_def nil_or_def)
qed

text \<open>A list of one GatewayDNS, with maps at three places, and a GatewayDNS of its own\<close>

definition ex_mem :: "string \<Rightarrow> nat option \<Rightarrow> nat option \<Rightarrow> (labelled, labelled) GatewayDNSMem" where
  "ex_mem n ls sel = \<lparr>gm_TypeMeta = \<lparr>Kind = ''GatewayDNS'', APIVersion = ''v1alpha1''\<rparr>, gm_ObjectMeta = (n, ls),
     gm_Spec = \<lparr>sm_ClusterSelector = ([], sel), sm_Service = ''ingress/envoy'', sm_ResolutionType = ''loadBalancer''\<rparr>,
     gm_Status = GatewayDNSStatus\<rparr>"

definition ex_heap :: lab_heap where
  "ex_heap = [LibCell [(''app'', ''gw'')], LibCell [(''env'', ''dev'')], ArrayCell [ex_mem ''gw'' (Some 0) (Some 1)],
     ListCell \<lparr>lm_TypeMeta = \<lparr>Kind = ''GatewayDNSList'', APIVersion = ''v1alpha1''\<rparr>, lm_ListMeta = (''7'', None), lm_Items = Some 2\<rparr>,
     GatewayDNSCell (ex_mem ''own'' None (Some 1))]"

text \<open>Writing the labels of the original and clearing its array does not show in the copy.\<close>

theorem DeepCopyObject_separate_witness:
  "\<exists>b h'. GatewayDNSList_DeepCopyObject lab_lib (Some 3) ex_heap = (GatewayDNSListObject (Some b), h') \<and>
     ptr_content (list_content lab_view) asList b (h'[0 := LibCell [], 2 := ArrayCell []])
       = ptr_content (list_content lab_view) asList 3 ex_heap \<and>
     GatewayDNS_DeepCopyObject lab_lib None ex_heap = (NilObject, ex_heap)"
proof -
  let ?C = "ptr_content (list_content lab_view) asList" and ?F = "ptr_foot (list_foot lab_view) asList"
  have ok: "ptr_ok (gd_ok lab_view) asGatewayDNS 4 ex_heap" "ptr_ok (list_ok lab_view) asList 3 ex_heap"
    by (simp_all add: ptr_ok_def gd_ok_def spec_ok_def list_ok_def items_ok_def arrayAt_def ex_heap_def ex_mem_def lab_view_def lab_ok_def)
  from DeepCopyObject_separate [OF lab_meta.meta_copiers_axioms ok] obtain b h' where
    run: "GatewayDNSList_DeepCopyObject lab_lib (Some 3) ex_heap = (GatewayDNSListObject (Some b), h')"
    and sep: "separate_copy ?C ?F 3 ex_heap b h'" and none: "GatewayDNS_DeepCopyObject lab_lib None ex_heap = (NilObject, ex_heap)"
    by blast
  from sep have "prefix ex_heap h'" by (simp add: separate_copy_def)
  then obtain t where "h' = ex_heap @ t" by (auto simp: prefix_def)
  then have "{0, 2} \<subseteq> ?F 3 h'"
    by (simp add: ptr_foot_def list_foot_def items_foot_def gd_foot_def arrayAt_def ex_heap_def ex_mem_def lab_view_def lab_foot_def)
  then have "written (?F 3 h') h' (h'[0 := LibCell [], 2 := ArrayCell []])"
    by (auto simp: written_def) (metis nth_list_update_neq)
  with sep have "?C b (h'[0 := LibCell [], 2 := ArrayCell []]) = ?C 3 ex_heap" by (simp add: separate_copy_def)
  with run none show ?thesis by blast
qed

end
