(* ===== verification/Test_Doubles.thy ===== *)
theory Test_Doubles
  imports Kube_API
begin

text \<open>
  The generated test doubles of the client interfaces
  (\<open>pkg/controllers/gatewaydns/gatewaydnsfakes/fake_client.go\<close> and \<open>fake_client_provider.go\<close>): every
  method records its arguments and replies with what the test has set up. All methods have one
  shape, stated once as the operations on a \<open>method_double\<close>; the methods of the two doubles are its
  instances. The lemmas show that the doubles are a faithful log of the calls and reply as they are
  told, and which of their methods may be called concurrently.
\<close>

section \<open>One method\<close>

text \<open>
  The fields of a method: the stub, the arguments of the calls so far, the result, and the results of
  single calls in a map that may be \<open>nil\<close>. A stub is a function value of type \<open>'s\<close>; what calling
  it does is a parameter, as it may do anything, also call the double again.
\<close>

record ('a, 'r, 's) method_double =
  md_Stub :: "'s option"
  md_ArgsForCall :: "'a list"
  md_Returns :: 'r
  md_ReturnsOnCall :: "(int \<rightharpoonup> 'r) option"

text \<open>
  The log of all methods: a map from method names to the lists of arguments, as interface values.
  The values of the interfaces of the client library are of type \<open>'v\<close>.
\<close>

datatype 'v iface = Value 'v | Values "'v list" | Key NamespacedName

type_synonym 'v invocations = "(string \<rightharpoonup> 'v iface list list) option"

definition recordInto :: "string \<Rightarrow> 'v iface list \<Rightarrow> 'v invocations \<Rightarrow> 'v invocations" where
  "recordInto key args invocations =
     (let m = (case invocations of None \<Rightarrow> Map.empty | Some m \<Rightarrow> m);
          m = (if m key = None then m(key \<mapsto> []) else m)
      in Some (m(key \<mapsto> the (m key) @ [args])))"

definition copiedInvocations :: "'v invocations \<Rightarrow> string \<rightharpoonup> 'v iface list list" where
  "copiedInvocations invocations = (case invocations of None \<Rightarrow> Map.empty | Some m \<Rightarrow> m)"

text \<open>
  A call: everything up to the unlocking of the mutex happens at once, then the stub is called or a
  result returned. \<open>get\<close> and \<open>upd\<close> are the fields of the method in the world \<open>'w\<close>, which has the double and whatever
  else the stubs change; \<open>rec\<close> records the invocation.
\<close>

definition call_double ::
    "('s \<Rightarrow> 'a \<Rightarrow> ('w, 'r) io) \<Rightarrow> ('w \<Rightarrow> ('a, 'r, 's) method_double)
      \<Rightarrow> ((('a, 'r, 's) method_double \<Rightarrow> ('a, 'r, 's) method_double) \<Rightarrow> 'w \<Rightarrow> 'w) \<Rightarrow> ('w \<Rightarrow> 'w) \<Rightarrow> 'a \<Rightarrow> ('w, 'r) io" where
  "call_double run get upd rec args w =
     (let specificReturn = (case md_ReturnsOnCall (get w) of None \<Rightarrow> None
            | Some m \<Rightarrow> m (int (length (md_ArgsForCall (get w)))));
          w1 = upd (\<lambda>f. f\<lparr>md_ArgsForCall := md_ArgsForCall f @ [args]\<rparr>) w;
          stub = md_Stub (get w1);
          fakeReturns = md_Returns (get w1);
          w2 = rec w1
      in case stub of
           Some s \<Rightarrow> run s args w2
         | None \<Rightarrow> (case specificReturn of Some ret \<Rightarrow> (Ok ret, w2) | None \<Rightarrow> (Ok fakeReturns, w2)))"

definition callCount :: "('a, 'r, 's) method_double \<Rightarrow> nat" where
  "callCount f = length (md_ArgsForCall f)"

definition setStub :: "'s option \<Rightarrow> ('a, 'r, 's) method_double \<Rightarrow> ('a, 'r, 's) method_double" where
  "setStub stub f = f\<lparr>md_Stub := stub\<rparr>"

definition argsForCall :: "int \<Rightarrow> ('a, 'r, 's) method_double \<Rightarrow> 'a go_result" where
  "argsForCall i f = (if 0 \<le> i \<and> i < int (length (md_ArgsForCall f)) then Ok (md_ArgsForCall f ! nat i) else Panic IndexOutOfRange)"

definition setReturns :: "'r \<Rightarrow> ('a, 'r, 's) method_double \<Rightarrow> ('a, 'r, 's) method_double" where
  "setReturns result1 f = f\<lparr>md_Stub := None, md_Returns := result1\<rparr>"

definition setReturnsOnCall :: "int \<Rightarrow> 'r \<Rightarrow> ('a, 'r, 's) method_double \<Rightarrow> ('a, 'r, 's) method_double" where
  "setReturnsOnCall i result1 f =
     (let m = (case md_ReturnsOnCall f of None \<Rightarrow> Map.empty | Some m \<Rightarrow> m)
      in f\<lparr>md_Stub := None, md_ReturnsOnCall := Some (m(i \<mapsto> result1))\<rparr>)"

section \<open>The client\<close>

record ('v, 's) FakeClient =
  fc_create :: "('v \<times> 'v \<times> 'v list, go_error option, 's) method_double"
  fc_delete :: "('v \<times> 'v \<times> 'v list, go_error option, 's) method_double"
  fc_deleteAllOf :: "('v \<times> 'v \<times> 'v list, go_error option, 's) method_double"
  fc_get :: "('v \<times> NamespacedName \<times> 'v, go_error option, 's) method_double"
  fc_list :: "('v \<times> 'v \<times> 'v list, go_error option, 's) method_double"
  fc_patch :: "('v \<times> 'v \<times> 'v \<times> 'v list, go_error option, 's) method_double"
  fc_rESTMapper :: "(unit, 'v option, 's) method_double"
  fc_scheme :: "(unit, 'v option, 's) method_double"
  fc_status :: "(unit, 'v option, 's) method_double"
  fc_update :: "('v \<times> 'v \<times> 'v list, go_error option, 's) method_double"
  fc_invocations :: "'v invocations"

text \<open>What calling a stub does, for each method\<close>

record ('v, 's, 'w) client_stubs =
  run_create :: "'s \<Rightarrow> 'v \<times> 'v \<times> 'v list \<Rightarrow> ('w, go_error option) io"
  run_delete :: "'s \<Rightarrow> 'v \<times> 'v \<times> 'v list \<Rightarrow> ('w, go_error option) io"
  run_deleteAllOf :: "'s \<Rightarrow> 'v \<times> 'v \<times> 'v list \<Rightarrow> ('w, go_error option) io"
  run_get :: "'s \<Rightarrow> 'v \<times> NamespacedName \<times> 'v \<Rightarrow> ('w, go_error option) io"
  run_list :: "'s \<Rightarrow> 'v \<times> 'v \<times> 'v list \<Rightarrow> ('w, go_error option) io"
  run_patch :: "'s \<Rightarrow> 'v \<times> 'v \<times> 'v \<times> 'v list \<Rightarrow> ('w, go_error option) io"
  run_rESTMapper :: "'s \<Rightarrow> unit \<Rightarrow> ('w, 'v option) io"
  run_scheme :: "'s \<Rightarrow> unit \<Rightarrow> ('w, 'v option) io"
  run_status :: "'s \<Rightarrow> unit \<Rightarrow> ('w, 'v option) io"
  run_update :: "'s \<Rightarrow> 'v \<times> 'v \<times> 'v list \<Rightarrow> ('w, go_error option) io"

definition FakeClient_recordInvocation :: "string \<Rightarrow> 'v iface list \<Rightarrow> ('v, 's, 'z) FakeClient_scheme \<Rightarrow> ('v, 's, 'z) FakeClient_scheme" where
  "FakeClient_recordInvocation key args = fc_invocations_update (recordInto key args)"

definition FakeClient_Create ::
    "('v, 's, ('v, 's, 'z) FakeClient_scheme) client_stubs \<Rightarrow> 'v \<Rightarrow> 'v \<Rightarrow> 'v list \<Rightarrow> (('v, 's, 'z) FakeClient_scheme, go_error option) io" where
  "FakeClient_Create S arg1 arg2 arg3 = call_double (run_create S) fc_create fc_create_update
     (FakeClient_recordInvocation ''Create'' [Value arg1, Value arg2, Values arg3]) (arg1, arg2, arg3)"

definition FakeClient_CreateCallCount :: "('v, 's, 'z) FakeClient_scheme \<Rightarrow> nat" where
  "FakeClient_CreateCallCount w = callCount (fc_create w)"

definition FakeClient_CreateCalls :: "'s option \<Rightarrow> ('v, 's, 'z) FakeClient_scheme \<Rightarrow> ('v, 's, 'z) FakeClient_scheme" where
  "FakeClient_CreateCalls stub = fc_create_update (setStub stub)"

definition FakeClient_CreateArgsForCall :: "int \<Rightarrow> ('v, 's, 'z) FakeClient_scheme \<Rightarrow> ('v \<times> 'v \<times> 'v list) go_result" where
  "FakeClient_CreateArgsForCall i w = argsForCall i (fc_create w)"

definition FakeClient_CreateReturns :: "go_error option \<Rightarrow> ('v, 's, 'z) FakeClient_scheme \<Rightarrow> ('v, 's, 'z) FakeClient_scheme" where
  "FakeClient_CreateReturns result1 = fc_create_update (setReturns result1)"

definition FakeClient_CreateReturnsOnCall :: "int \<Rightarrow> go_error option \<Rightarrow> ('v, 's, 'z) FakeClient_scheme \<Rightarrow> ('v, 's, 'z) FakeClient_scheme" where
  "FakeClient_CreateReturnsOnCall i result1 = fc_create_update (setReturnsOnCall i result1)"

definition FakeClient_Delete ::
    "('v, 's, ('v, 's, 'z) FakeClient_scheme) client_stubs \<Rightarrow> 'v \<Rightarrow> 'v \<Rightarrow> 'v list \<Rightarrow> (('v, 's, 'z) FakeClient_scheme, go_error option) io" where
  "FakeClient_Delete S arg1 arg2 arg3 = call_double (run_delete S) fc_delete fc_delete_update
     (FakeClient_recordInvocation ''Delete'' [Value arg1, Value arg2, Values arg3]) (arg1, arg2, arg3)"

definition FakeClient_DeleteCallCount :: "('v, 's, 'z) FakeClient_scheme \<Rightarrow> nat" where
  "FakeClient_DeleteCallCount w = callCount (fc_delete w)"

definition FakeClient_DeleteCalls :: "'s option \<Rightarrow> ('v, 's, 'z) FakeClient_scheme \<Rightarrow> ('v, 's, 'z) FakeClient_scheme" where
  "FakeClient_DeleteCalls stub = fc_delete_update (setStub stub)"

definition FakeClient_DeleteArgsForCall :: "int \<Rightarrow> ('v, 's, 'z) FakeClient_scheme \<Rightarrow> ('v \<times> 'v \<times> 'v list) go_result" where
  "FakeClient_DeleteArgsForCall i w = argsForCall i (fc_delete w)"

definition FakeClient_DeleteReturns :: "go_error option \<Rightarrow> ('v, 's, 'z) FakeClient_scheme \<Rightarrow> ('v, 's, 'z) FakeClient_scheme" where
  "FakeClient_DeleteReturns result1 = fc_delete_update (setReturns result1)"

definition FakeClient_DeleteReturnsOnCall :: "int \<Rightarrow> go_error option \<Rightarrow> ('v, 's, 'z) FakeClient_scheme \<Rightarrow> ('v, 's, 'z) FakeClient_scheme" where
  "FakeClient_DeleteReturnsOnCall i result1 = fc_delete_update (setReturnsOnCall i result1)"

definition FakeClient_DeleteAllOf ::
    "('v, 's, ('v, 's, 'z) FakeClient_scheme) client_stubs \<Rightarrow> 'v \<Rightarrow> 'v \<Rightarrow> 'v list \<Rightarrow> (('v, 's, 'z) FakeClient_scheme, go_error option) io" where
  "FakeClient_DeleteAllOf S arg1 arg2 arg3 = call_double (run_deleteAllOf S) fc_deleteAllOf fc_deleteAllOf_update
     (FakeClient_recordInvocation ''DeleteAllOf'' [Value arg1, Value arg2, Values arg3]) (arg1, arg2, arg3)"

definition FakeClient_DeleteAllOfCallCount :: "('v, 's, 'z) FakeClient_scheme \<Rightarrow> nat" where
  "FakeClient_DeleteAllOfCallCount w = callCount (fc_deleteAllOf w)"

definition FakeClient_DeleteAllOfCalls :: "'s option \<Rightarrow> ('v, 's, 'z) FakeClient_scheme \<Rightarrow> ('v, 's, 'z) FakeClient_scheme" where
  "FakeClient_DeleteAllOfCalls stub = fc_deleteAllOf_update (setStub stub)"

definition FakeClient_DeleteAllOfArgsForCall :: "int \<Rightarrow> ('v, 's, 'z) FakeClient_scheme \<Rightarrow> ('v \<times> 'v \<times> 'v list) go_result" where
  "FakeClient_DeleteAllOfArgsForCall i w = argsForCall i (fc_deleteAllOf w)"

definition FakeClient_DeleteAllOfReturns :: "go_error option \<Rightarrow> ('v, 's, 'z) FakeClient_scheme \<Rightarrow> ('v, 's, 'z) FakeClient_scheme" where
  "FakeClient_DeleteAllOfReturns result1 = fc_deleteAllOf_update (setReturns result1)"

definition FakeClient_DeleteAllOfReturnsOnCall :: "int \<Rightarrow> go_error option \<Rightarrow> ('v, 's, 'z) FakeClient_scheme \<Rightarrow> ('v, 's, 'z) FakeClient_scheme" where
  "FakeClient_DeleteAllOfReturnsOnCall i result1 = fc_deleteAllOf_update (setReturnsOnCall i result1)"

definition FakeClient_Get ::
    "('v, 's, ('v, 's, 'z) FakeClient_scheme) client_stubs \<Rightarrow> 'v \<Rightarrow> NamespacedName \<Rightarrow> 'v \<Rightarrow> (('v, 's, 'z) FakeClient_scheme, go_error option) io" where
  "FakeClient_Get S arg1 arg2 arg3 = call_double (run_get S) fc_get fc_get_update
     (FakeClient_recordInvocation ''Get'' [Value arg1, Key arg2, Value arg3]) (arg1, arg2, arg3)"

definition FakeClient_GetCallCount :: "('v, 's, 'z) FakeClient_scheme \<Rightarrow> nat" where
  "FakeClient_GetCallCount w = callCount (fc_get w)"

definition FakeClient_GetCalls :: "'s option \<Rightarrow> ('v, 's, 'z) FakeClient_scheme \<Rightarrow> ('v, 's, 'z) FakeClient_scheme" where
  "FakeClient_GetCalls stub = fc_get_update (setStub stub)"

definition FakeClient_GetArgsForCall :: "int \<Rightarrow> ('v, 's, 'z) FakeClient_scheme \<Rightarrow> ('v \<times> NamespacedName \<times> 'v) go_result" where
  "FakeClient_GetArgsForCall i w = argsForCall i (fc_get w)"

definition FakeClient_GetReturns :: "go_error option \<Rightarrow> ('v, 's, 'z) FakeClient_scheme \<Rightarrow> ('v, 's, 'z) FakeClient_scheme" where
  "FakeClient_GetReturns result1 = fc_get_update (setReturns result1)"

definition FakeClient_GetReturnsOnCall :: "int \<Rightarrow> go_error option \<Rightarrow> ('v, 's, 'z) FakeClient_scheme \<Rightarrow> ('v, 's, 'z) FakeClient_scheme" where
  "FakeClient_GetReturnsOnCall i result1 = fc_get_update (setReturnsOnCall i result1)"

definition FakeClient_List ::
    "('v, 's, ('v, 's, 'z) FakeClient_scheme) client_stubs \<Rightarrow> 'v \<Rightarrow> 'v \<Rightarrow> 'v list \<Rightarrow> (('v, 's, 'z) FakeClient_scheme, go_error option) io" where
  "FakeClient_List S arg1 arg2 arg3 = call_double (run_list S) fc_list fc_list_update
     (FakeClient_recordInvocation ''List'' [Value arg1, Value arg2, Values arg3]) (arg1, arg2, arg3)"

definition FakeClient_ListCallCount :: "('v, 's, 'z) FakeClient_scheme \<Rightarrow> nat" where
  "FakeClient_ListCallCount w = callCount (fc_list w)"

definition FakeClient_ListCalls :: "'s option \<Rightarrow> ('v, 's, 'z) FakeClient_scheme \<Rightarrow> ('v, 's, 'z) FakeClient_scheme" where
  "FakeClient_ListCalls stub = fc_list_update (setStub stub)"

definition FakeClient_ListArgsForCall :: "int \<Rightarrow> ('v, 's, 'z) FakeClient_scheme \<Rightarrow> ('v \<times> 'v \<times> 'v list) go_result" where
  "FakeClient_ListArgsForCall i w = argsForCall i (fc_list w)"

definition FakeClient_ListReturns :: "go_error option \<Rightarrow> ('v, 's, 'z) FakeClient_scheme \<Rightarrow> ('v, 's, 'z) FakeClient_scheme" where
  "FakeClient_ListReturns result1 = fc_list_update (setReturns result1)"

definition FakeClient_ListReturnsOnCall :: "int \<Rightarrow> go_error option \<Rightarrow> ('v, 's, 'z) FakeClient_scheme \<Rightarrow> ('v, 's, 'z) FakeClient_scheme" where
  "FakeClient_ListReturnsOnCall i result1 = fc_list_update (setReturnsOnCall i result1)"

definition FakeClient_Patch ::
    "('v, 's, ('v, 's, 'z) FakeClient_scheme) client_stubs \<Rightarrow> 'v \<Rightarrow> 'v \<Rightarrow> 'v \<Rightarrow> 'v list \<Rightarrow> (('v, 's, 'z) FakeClient_scheme, go_error option) io" where
  "FakeClient_Patch S arg1 arg2 arg3 arg4 = call_double (run_patch S) fc_patch fc_patch_update
     (FakeClient_recordInvocation ''Patch'' [Value arg1, Value arg2, Value arg3, Values arg4]) (arg1, arg2, arg3, arg4)"

definition FakeClient_PatchCallCount :: "('v, 's, 'z) FakeClient_scheme \<Rightarrow> nat" where
  "FakeClient_PatchCallCount w = callCount (fc_patch w)"

definition FakeClient_PatchCalls :: "'s option \<Rightarrow> ('v, 's, 'z) FakeClient_scheme \<Rightarrow> ('v, 's, 'z) FakeClient_scheme" where
  "FakeClient_PatchCalls stub = fc_patch_update (setStub stub)"

definition FakeClient_PatchArgsForCall :: "int \<Rightarrow> ('v, 's, 'z) FakeClient_scheme \<Rightarrow> ('v \<times> 'v \<times> 'v \<times> 'v list) go_result" where
  "FakeClient_PatchArgsForCall i w = argsForCall i (fc_patch w)"

definition FakeClient_PatchReturns :: "go_error option \<Rightarrow> ('v, 's, 'z) FakeClient_scheme \<Rightarrow> ('v, 's, 'z) FakeClient_scheme" where
  "FakeClient_PatchReturns result1 = fc_patch_update (setReturns result1)"

definition FakeClient_PatchReturnsOnCall :: "int \<Rightarrow> go_error option \<Rightarrow> ('v, 's, 'z) FakeClient_scheme \<Rightarrow> ('v, 's, 'z) FakeClient_scheme" where
  "FakeClient_PatchReturnsOnCall i result1 = fc_patch_update (setReturnsOnCall i result1)"

definition FakeClient_RESTMapper ::
    "('v, 's, ('v, 's, 'z) FakeClient_scheme) client_stubs \<Rightarrow> (('v, 's, 'z) FakeClient_scheme, 'v option) io" where
  "FakeClient_RESTMapper S = call_double (run_rESTMapper S) fc_rESTMapper fc_rESTMapper_update
     (FakeClient_recordInvocation ''RESTMapper'' []) ()"

definition FakeClient_RESTMapperCallCount :: "('v, 's, 'z) FakeClient_scheme \<Rightarrow> nat" where
  "FakeClient_RESTMapperCallCount w = callCount (fc_rESTMapper w)"

definition FakeClient_RESTMapperCalls :: "'s option \<Rightarrow> ('v, 's, 'z) FakeClient_scheme \<Rightarrow> ('v, 's, 'z) FakeClient_scheme" where
  "FakeClient_RESTMapperCalls stub = fc_rESTMapper_update (setStub stub)"

definition FakeClient_RESTMapperReturns :: "'v option \<Rightarrow> ('v, 's, 'z) FakeClient_scheme \<Rightarrow> ('v, 's, 'z) FakeClient_scheme" where
  "FakeClient_RESTMapperReturns result1 = fc_rESTMapper_update (setReturns result1)"

definition FakeClient_RESTMapperReturnsOnCall :: "int \<Rightarrow> 'v option \<Rightarrow> ('v, 's, 'z) FakeClient_scheme \<Rightarrow> ('v, 's, 'z) FakeClient_scheme" where
  "FakeClient_RESTMapperReturnsOnCall i result1 = fc_rESTMapper_update (setReturnsOnCall i result1)"

definition FakeClient_Scheme ::
    "('v, 's, ('v, 's, 'z) FakeClient_scheme) client_stubs \<Rightarrow> (('v, 's, 'z) FakeClient_scheme, 'v option) io" where
  "FakeClient_Scheme S = call_double (run_scheme S) fc_scheme fc_scheme_update
     (FakeClient_recordInvocation ''Scheme'' []) ()"

definition FakeClient_SchemeCallCount :: "('v, 's, 'z) FakeClient_scheme \<Rightarrow> nat" where
  "FakeClient_SchemeCallCount w = callCount (fc_scheme w)"

definition FakeClient_SchemeCalls :: "'s option \<Rightarrow> ('v, 's, 'z) FakeClient_scheme \<Rightarrow> ('v, 's, 'z) FakeClient_scheme" where
  "FakeClient_SchemeCalls stub = fc_scheme_update (setStub stub)"

definition FakeClient_SchemeReturns :: "'v option \<Rightarrow> ('v, 's, 'z) FakeClient_scheme \<Rightarrow> ('v, 's, 'z) FakeClient_scheme" where
  "FakeClient_SchemeReturns result1 = fc_scheme_update (setReturns result1)"

definition FakeClient_SchemeReturnsOnCall :: "int \<Rightarrow> 'v option \<Rightarrow> ('v, 's, 'z) FakeClient_scheme \<Rightarrow> ('v, 's, 'z) FakeClient_scheme" where
  "FakeClient_SchemeReturnsOnCall i result1 = fc_scheme_update (setReturnsOnCall i result1)"

definition FakeClient_Status ::
    "('v, 's, ('v, 's, 'z) FakeClient_scheme) client_stubs \<Rightarrow> (('v, 's, 'z) FakeClient_scheme, 'v option) io" where
  "FakeClient_Status S = call_double (run_status S) fc_status fc_status_update
     (FakeClient_recordInvocation ''Status'' []) ()"

definition FakeClient_StatusCallCount :: "('v, 's, 'z) FakeClient_scheme \<Rightarrow> nat" where
  "FakeClient_StatusCallCount w = callCount (fc_status w)"

definition FakeClient_StatusCalls :: "'s option \<Rightarrow> ('v, 's, 'z) FakeClient_scheme \<Rightarrow> ('v, 's, 'z) FakeClient_scheme" where
  "FakeClient_StatusCalls stub = fc_status_update (setStub stub)"

definition FakeClient_StatusReturns :: "'v option \<Rightarrow> ('v, 's, 'z) FakeClient_scheme \<Rightarrow> ('v, 's, 'z) FakeClient_scheme" where
  "FakeClient_StatusReturns result1 = fc_status_update (setReturns result1)"

definition FakeClient_StatusReturnsOnCall :: "int \<Rightarrow> 'v option \<Rightarrow> ('v, 's, 'z) FakeClient_scheme \<Rightarrow> ('v, 's, 'z) FakeClient_scheme" where
  "FakeClient_StatusReturnsOnCall i result1 = fc_status_update (setReturnsOnCall i result1)"

definition FakeClient_Update ::
    "('v, 's, ('v, 's, 'z) FakeClient_scheme) client_stubs \<Rightarrow> 'v \<Rightarrow> 'v \<Rightarrow> 'v list \<Rightarrow> (('v, 's, 'z) FakeClient_scheme, go_error option) io" where
  "FakeClient_Update S arg1 arg2 arg3 = call_double (run_update S) fc_update fc_update_update
     (FakeClient_recordInvocation ''Update'' [Value arg1, Value arg2, Values arg3]) (arg1, arg2, arg3)"

definition FakeClient_UpdateCallCount :: "('v, 's, 'z) FakeClient_scheme \<Rightarrow> nat" where
  "FakeClient_UpdateCallCount w = callCount (fc_update w)"

definition FakeClient_UpdateCalls :: "'s option \<Rightarrow> ('v, 's, 'z) FakeClient_scheme \<Rightarrow> ('v, 's, 'z) FakeClient_scheme" where
  "FakeClient_UpdateCalls stub = fc_update_update (setStub stub)"

definition FakeClient_UpdateArgsForCall :: "int \<Rightarrow> ('v, 's, 'z) FakeClient_scheme \<Rightarrow> ('v \<times> 'v \<times> 'v list) go_result" where
  "FakeClient_UpdateArgsForCall i w = argsForCall i (fc_update w)"

definition FakeClient_UpdateReturns :: "go_error option \<Rightarrow> ('v, 's, 'z) FakeClient_scheme \<Rightarrow> ('v, 's, 'z) FakeClient_scheme" where
  "FakeClient_UpdateReturns result1 = fc_update_update (setReturns result1)"

definition FakeClient_UpdateReturnsOnCall :: "int \<Rightarrow> go_error option \<Rightarrow> ('v, 's, 'z) FakeClient_scheme \<Rightarrow> ('v, 's, 'z) FakeClient_scheme" where
  "FakeClient_UpdateReturnsOnCall i result1 = fc_update_update (setReturnsOnCall i result1)"

text \<open>The copy has the same entries; the lists of arguments are shared, and never written.\<close>

definition FakeClient_Invocations :: "('v, 's, 'z) FakeClient_scheme \<Rightarrow> string \<rightharpoonup> 'v iface list list" where
  "FakeClient_Invocations w = copiedInvocations (fc_invocations w)"

section \<open>The client provider\<close>

record ('v, 's) FakeClientProvider =
  fp_getClient :: "('v \<times> NamespacedName, 'v option \<times> go_error option, 's) method_double"
  fp_invocations :: "'v invocations"

definition FakeClientProvider_recordInvocation ::
    "string \<Rightarrow> 'v iface list \<Rightarrow> ('v, 's, 'z) FakeClientProvider_scheme \<Rightarrow> ('v, 's, 'z) FakeClientProvider_scheme" where
  "FakeClientProvider_recordInvocation key args = fp_invocations_update (recordInto key args)"

definition FakeClientProvider_GetClient ::
    "('s \<Rightarrow> 'v \<times> NamespacedName \<Rightarrow> (('v, 's, 'z) FakeClientProvider_scheme, 'v option \<times> go_error option) io)
      \<Rightarrow> 'v \<Rightarrow> NamespacedName \<Rightarrow> (('v, 's, 'z) FakeClientProvider_scheme, 'v option \<times> go_error option) io" where
  "FakeClientProvider_GetClient run arg1 arg2 = call_double run fp_getClient fp_getClient_update
     (FakeClientProvider_recordInvocation ''GetClient'' [Value arg1, Key arg2]) (arg1, arg2)"

definition FakeClientProvider_GetClientCallCount :: "('v, 's, 'z) FakeClientProvider_scheme \<Rightarrow> nat" where
  "FakeClientProvider_GetClientCallCount w = callCount (fp_getClient w)"

definition FakeClientProvider_GetClientCalls ::
    "'s option \<Rightarrow> ('v, 's, 'z) FakeClientProvider_scheme \<Rightarrow> ('v, 's, 'z) FakeClientProvider_scheme" where
  "FakeClientProvider_GetClientCalls stub = fp_getClient_update (setStub stub)"

definition FakeClientProvider_GetClientArgsForCall ::
    "int \<Rightarrow> ('v, 's, 'z) FakeClientProvider_scheme \<Rightarrow> ('v \<times> NamespacedName) go_result" where
  "FakeClientProvider_GetClientArgsForCall i w = argsForCall i (fp_getClient w)"

definition FakeClientProvider_GetClientReturns ::
    "'v option \<Rightarrow> go_error option \<Rightarrow> ('v, 's, 'z) FakeClientProvider_scheme \<Rightarrow> ('v, 's, 'z) FakeClientProvider_scheme" where
  "FakeClientProvider_GetClientReturns result1 result2 = fp_getClient_update (setReturns (result1, result2))"

definition FakeClientProvider_GetClientReturnsOnCall ::
    "int \<Rightarrow> 'v option \<Rightarrow> go_error option \<Rightarrow> ('v, 's, 'z) FakeClientProvider_scheme \<Rightarrow> ('v, 's, 'z) FakeClientProvider_scheme" where
  "FakeClientProvider_GetClientReturnsOnCall i result1 result2 = fp_getClient_update (setReturnsOnCall i (result1, result2))"

definition FakeClientProvider_Invocations :: "('v, 's, 'z) FakeClientProvider_scheme \<Rightarrow> string \<rightharpoonup> 'v iface list list" where
  "FakeClientProvider_Invocations w = copiedInvocations (fp_invocations w)"

section \<open>What one method does\<close>

text \<open>The result set up for the call with number \<open>n\<close>\<close>

definition planned :: "('a, 'r, 's) method_double \<Rightarrow> nat \<Rightarrow> 'r" where
  "planned f n = (case md_ReturnsOnCall f of
     None \<Rightarrow> md_Returns f
   | Some m \<Rightarrow> (case m (int n) of None \<Rightarrow> md_Returns f | Some r \<Rightarrow> r))"

lemma planned_setReturnsOnCall: "planned (setReturnsOnCall i r f) n = (if i = int n then r else planned f n)"
  by (simp add: planned_def setReturnsOnCall_def Let_def split: option.splits)

lemma planned_recorded [simp]: "planned (f\<lparr>md_ArgsForCall := as\<rparr>) = planned f"
  by (simp add: planned_def fun_eq_iff split: option.split)

text \<open>The fields of a method are a part of the world that recording leaves alone.\<close>

locale double_field =
  fixes get :: "'w \<Rightarrow> ('a, 'r, 's) method_double"
    and upd :: "(('a, 'r, 's) method_double \<Rightarrow> ('a, 'r, 's) method_double) \<Rightarrow> 'w \<Rightarrow> 'w"
    and rec :: "string \<Rightarrow> 'v iface list \<Rightarrow> 'w \<Rightarrow> 'w"
  assumes get_upd: "get (upd f w) = f (get w)"
    and get_rec: "get (rec key args w) = get w"
begin

lemma call_planned:
  assumes "md_Stub (get w) = None"
  shows "call_double run get upd (rec key vs) args w =
    (Ok (planned (get w) (callCount (get w))), rec key vs (upd (\<lambda>f. f\<lparr>md_ArgsForCall := md_ArgsForCall f @ [args]\<rparr>) w))"
  using assms by (simp add: call_double_def get_upd planned_def callCount_def Let_def split: option.splits)

text \<open>A stub is called with the arguments when the call is already recorded, and decides the result.\<close>

lemma call_stub:
  assumes "md_Stub (get w) = Some s"
  shows "\<exists>w1. call_double run get upd (rec key vs) args w = run s args w1 \<and>
    get w1 = (get w)\<lparr>md_ArgsForCall := md_ArgsForCall (get w) @ [args]\<rparr>"
  using assms by (auto simp: call_double_def get_upd get_rec Let_def)

end

interpretation create: double_field fc_create fc_create_update FakeClient_recordInvocation
  by unfold_locales (simp_all add: FakeClient_recordInvocation_def)

interpretation delete: double_field fc_delete fc_delete_update FakeClient_recordInvocation
  by unfold_locales (simp_all add: FakeClient_recordInvocation_def)

interpretation deleteAllOf: double_field fc_deleteAllOf fc_deleteAllOf_update FakeClient_recordInvocation
  by unfold_locales (simp_all add: FakeClient_recordInvocation_def)

interpretation get: double_field fc_get fc_get_update FakeClient_recordInvocation
  by unfold_locales (simp_all add: FakeClient_recordInvocation_def)

interpretation list: double_field fc_list fc_list_update FakeClient_recordInvocation
  by unfold_locales (simp_all add: FakeClient_recordInvocation_def)

interpretation patch: double_field fc_patch fc_patch_update FakeClient_recordInvocation
  by unfold_locales (simp_all add: FakeClient_recordInvocation_def)

interpretation rESTMapper: double_field fc_rESTMapper fc_rESTMapper_update FakeClient_recordInvocation
  by unfold_locales (simp_all add: FakeClient_recordInvocation_def)

interpretation scheme: double_field fc_scheme fc_scheme_update FakeClient_recordInvocation
  by unfold_locales (simp_all add: FakeClient_recordInvocation_def)

interpretation status: double_field fc_status fc_status_update FakeClient_recordInvocation
  by unfold_locales (simp_all add: FakeClient_recordInvocation_def)

interpretation update: double_field fc_update fc_update_update FakeClient_recordInvocation
  by unfold_locales (simp_all add: FakeClient_recordInvocation_def)

interpretation getClient: double_field fp_getClient fp_getClient_update FakeClientProvider_recordInvocation
  by unfold_locales (simp_all add: FakeClientProvider_recordInvocation_def)

section \<open>The client as a log\<close>

datatype client_method = MCreate | MDelete | MDeleteAllOf | MGet | MList | MPatch | MRESTMapper | MScheme | MStatus | MUpdate

primrec method_name :: "client_method \<Rightarrow> string" where
  "method_name MCreate = ''Create''"
| "method_name MDelete = ''Delete''"
| "method_name MDeleteAllOf = ''DeleteAllOf''"
| "method_name MGet = ''Get''"
| "method_name MList = ''List''"
| "method_name MPatch = ''Patch''"
| "method_name MRESTMapper = ''RESTMapper''"
| "method_name MScheme = ''Scheme''"
| "method_name MStatus = ''Status''"
| "method_name MUpdate = ''Update''"

lemma method_name_inj [simp]: "method_name m = method_name m' \<longleftrightarrow> m = m'"
  by (cases m; cases m') simp_all

text \<open>The calls of the interface, their methods and their arguments as interface values; the replies\<close>

datatype 'v client_call =
    CallCreate 'v 'v "'v list"
  | CallDelete 'v 'v "'v list"
  | CallDeleteAllOf 'v 'v "'v list"
  | CallGet 'v NamespacedName 'v
  | CallList 'v 'v "'v list"
  | CallPatch 'v 'v 'v "'v list"
  | CallRESTMapper
  | CallScheme
  | CallStatus
  | CallUpdate 'v 'v "'v list"

primrec method_of :: "'v client_call \<Rightarrow> client_method" where
  "method_of (CallCreate arg1 arg2 arg3) = MCreate"
| "method_of (CallDelete arg1 arg2 arg3) = MDelete"
| "method_of (CallDeleteAllOf arg1 arg2 arg3) = MDeleteAllOf"
| "method_of (CallGet arg1 arg2 arg3) = MGet"
| "method_of (CallList arg1 arg2 arg3) = MList"
| "method_of (CallPatch arg1 arg2 arg3 arg4) = MPatch"
| "method_of CallRESTMapper = MRESTMapper"
| "method_of CallScheme = MScheme"
| "method_of CallStatus = MStatus"
| "method_of (CallUpdate arg1 arg2 arg3) = MUpdate"

primrec call_values :: "'v client_call \<Rightarrow> 'v iface list" where
  "call_values (CallCreate arg1 arg2 arg3) = [Value arg1, Value arg2, Values arg3]"
| "call_values (CallDelete arg1 arg2 arg3) = [Value arg1, Value arg2, Values arg3]"
| "call_values (CallDeleteAllOf arg1 arg2 arg3) = [Value arg1, Value arg2, Values arg3]"
| "call_values (CallGet arg1 arg2 arg3) = [Value arg1, Key arg2, Value arg3]"
| "call_values (CallList arg1 arg2 arg3) = [Value arg1, Value arg2, Values arg3]"
| "call_values (CallPatch arg1 arg2 arg3 arg4) = [Value arg1, Value arg2, Value arg3, Values arg4]"
| "call_values CallRESTMapper = []"
| "call_values CallScheme = []"
| "call_values CallStatus = []"
| "call_values (CallUpdate arg1 arg2 arg3) = [Value arg1, Value arg2, Values arg3]"

datatype 'v reply = ErrorReply "go_error option" | ValueReply "'v option"

primrec perform :: "('v, 's, ('v, 's, 'z) FakeClient_scheme) client_stubs \<Rightarrow> 'v client_call \<Rightarrow> (('v, 's, 'z) FakeClient_scheme, 'v reply) io" where
  "perform S (CallCreate arg1 arg2 arg3) = io_bind (FakeClient_Create S arg1 arg2 arg3) (\<lambda>r. io_return (ErrorReply r))"
| "perform S (CallDelete arg1 arg2 arg3) = io_bind (FakeClient_Delete S arg1 arg2 arg3) (\<lambda>r. io_return (ErrorReply r))"
| "perform S (CallDeleteAllOf arg1 arg2 arg3) = io_bind (FakeClient_DeleteAllOf S arg1 arg2 arg3) (\<lambda>r. io_return (ErrorReply r))"
| "perform S (CallGet arg1 arg2 arg3) = io_bind (FakeClient_Get S arg1 arg2 arg3) (\<lambda>r. io_return (ErrorReply r))"
| "perform S (CallList arg1 arg2 arg3) = io_bind (FakeClient_List S arg1 arg2 arg3) (\<lambda>r. io_return (ErrorReply r))"
| "perform S (CallPatch arg1 arg2 arg3 arg4) = io_bind (FakeClient_Patch S arg1 arg2 arg3 arg4) (\<lambda>r. io_return (ErrorReply r))"
| "perform S CallRESTMapper = io_bind (FakeClient_RESTMapper S) (\<lambda>r. io_return (ValueReply r))"
| "perform S CallScheme = io_bind (FakeClient_Scheme S) (\<lambda>r. io_return (ValueReply r))"
| "perform S CallStatus = io_bind (FakeClient_Status S) (\<lambda>r. io_return (ValueReply r))"
| "perform S (CallUpdate arg1 arg2 arg3) = io_bind (FakeClient_Update S arg1 arg2 arg3) (\<lambda>r. io_return (ErrorReply r))"

primrec performAll :: "('v, 's, ('v, 's, 'z) FakeClient_scheme) client_stubs \<Rightarrow> 'v client_call list \<Rightarrow> (('v, 's, 'z) FakeClient_scheme, 'v reply list) io" where
  "performAll S [] = io_return []"
| "performAll S (c # cs) = io_bind (perform S c) (\<lambda>r. io_bind (performAll S cs) (\<lambda>rs. io_return (r # rs)))"

text \<open>
  What the double says of a method: the calls whose arguments it has kept, the entry of the log, the
  reply that is set up for a call, and whether there is a stub.
\<close>

primrec recorded :: "client_method \<Rightarrow> ('v, 's, 'z) FakeClient_scheme \<Rightarrow> 'v client_call list" where
  "recorded MCreate w = map (\<lambda>(arg1, arg2, arg3). CallCreate arg1 arg2 arg3) (md_ArgsForCall (fc_create w))"
| "recorded MDelete w = map (\<lambda>(arg1, arg2, arg3). CallDelete arg1 arg2 arg3) (md_ArgsForCall (fc_delete w))"
| "recorded MDeleteAllOf w = map (\<lambda>(arg1, arg2, arg3). CallDeleteAllOf arg1 arg2 arg3) (md_ArgsForCall (fc_deleteAllOf w))"
| "recorded MGet w = map (\<lambda>(arg1, arg2, arg3). CallGet arg1 arg2 arg3) (md_ArgsForCall (fc_get w))"
| "recorded MList w = map (\<lambda>(arg1, arg2, arg3). CallList arg1 arg2 arg3) (md_ArgsForCall (fc_list w))"
| "recorded MPatch w = map (\<lambda>(arg1, arg2, arg3, arg4). CallPatch arg1 arg2 arg3 arg4) (md_ArgsForCall (fc_patch w))"
| "recorded MRESTMapper w = map (\<lambda>_. CallRESTMapper) (md_ArgsForCall (fc_rESTMapper w))"
| "recorded MScheme w = map (\<lambda>_. CallScheme) (md_ArgsForCall (fc_scheme w))"
| "recorded MStatus w = map (\<lambda>_. CallStatus) (md_ArgsForCall (fc_status w))"
| "recorded MUpdate w = map (\<lambda>(arg1, arg2, arg3). CallUpdate arg1 arg2 arg3) (md_ArgsForCall (fc_update w))"

definition invoked :: "client_method \<Rightarrow> ('v, 's, 'z) FakeClient_scheme \<Rightarrow> 'v iface list list" where
  "invoked m w = (case FakeClient_Invocations w (method_name m) of None \<Rightarrow> [] | Some l \<Rightarrow> l)"

primrec planned_reply :: "client_method \<Rightarrow> nat \<Rightarrow> ('v, 's, 'z) FakeClient_scheme \<Rightarrow> 'v reply" where
  "planned_reply MCreate i w = ErrorReply (planned (fc_create w) i)"
| "planned_reply MDelete i w = ErrorReply (planned (fc_delete w) i)"
| "planned_reply MDeleteAllOf i w = ErrorReply (planned (fc_deleteAllOf w) i)"
| "planned_reply MGet i w = ErrorReply (planned (fc_get w) i)"
| "planned_reply MList i w = ErrorReply (planned (fc_list w) i)"
| "planned_reply MPatch i w = ErrorReply (planned (fc_patch w) i)"
| "planned_reply MRESTMapper i w = ValueReply (planned (fc_rESTMapper w) i)"
| "planned_reply MScheme i w = ValueReply (planned (fc_scheme w) i)"
| "planned_reply MStatus i w = ValueReply (planned (fc_status w) i)"
| "planned_reply MUpdate i w = ErrorReply (planned (fc_update w) i)"

primrec stub_of :: "client_method \<Rightarrow> ('v, 's, 'z) FakeClient_scheme \<Rightarrow> 's option" where
  "stub_of MCreate w = md_Stub (fc_create w)"
| "stub_of MDelete w = md_Stub (fc_delete w)"
| "stub_of MDeleteAllOf w = md_Stub (fc_deleteAllOf w)"
| "stub_of MGet w = md_Stub (fc_get w)"
| "stub_of MList w = md_Stub (fc_list w)"
| "stub_of MPatch w = md_Stub (fc_patch w)"
| "stub_of MRESTMapper w = md_Stub (fc_rESTMapper w)"
| "stub_of MScheme w = md_Stub (fc_scheme w)"
| "stub_of MStatus w = md_Stub (fc_status w)"
| "stub_of MUpdate w = md_Stub (fc_update w)"

lemmas client_defs = FakeClient_Create_def FakeClient_Delete_def FakeClient_DeleteAllOf_def FakeClient_Get_def FakeClient_List_def FakeClient_Patch_def FakeClient_RESTMapper_def FakeClient_Scheme_def FakeClient_Status_def FakeClient_Update_def

lemmas client_planned = create.call_planned delete.call_planned deleteAllOf.call_planned get.call_planned list.call_planned patch.call_planned rESTMapper.call_planned scheme.call_planned status.call_planned update.call_planned

lemma invoked_record [simp]:
  "invoked m (FakeClient_recordInvocation (method_name m') vs w) = invoked m w @ (if m = m' then [vs] else [])"
  by (auto simp: invoked_def FakeClient_recordInvocation_def FakeClient_Invocations_def copiedInvocations_def recordInto_def
      Let_def split: option.splits)

text \<open>The arguments of a call are kept with its method.\<close>

primrec kept :: "'v client_call \<Rightarrow> ('v, 's, 'z) FakeClient_scheme \<Rightarrow> ('v, 's, 'z) FakeClient_scheme" where
  "kept (CallCreate arg1 arg2 arg3) = fc_create_update (\<lambda>f. f\<lparr>md_ArgsForCall := md_ArgsForCall f @ [(arg1, arg2, arg3)]\<rparr>)"
| "kept (CallDelete arg1 arg2 arg3) = fc_delete_update (\<lambda>f. f\<lparr>md_ArgsForCall := md_ArgsForCall f @ [(arg1, arg2, arg3)]\<rparr>)"
| "kept (CallDeleteAllOf arg1 arg2 arg3) = fc_deleteAllOf_update (\<lambda>f. f\<lparr>md_ArgsForCall := md_ArgsForCall f @ [(arg1, arg2, arg3)]\<rparr>)"
| "kept (CallGet arg1 arg2 arg3) = fc_get_update (\<lambda>f. f\<lparr>md_ArgsForCall := md_ArgsForCall f @ [(arg1, arg2, arg3)]\<rparr>)"
| "kept (CallList arg1 arg2 arg3) = fc_list_update (\<lambda>f. f\<lparr>md_ArgsForCall := md_ArgsForCall f @ [(arg1, arg2, arg3)]\<rparr>)"
| "kept (CallPatch arg1 arg2 arg3 arg4) = fc_patch_update (\<lambda>f. f\<lparr>md_ArgsForCall := md_ArgsForCall f @ [(arg1, arg2, arg3, arg4)]\<rparr>)"
| "kept CallRESTMapper = fc_rESTMapper_update (\<lambda>f. f\<lparr>md_ArgsForCall := md_ArgsForCall f @ [()]\<rparr>)"
| "kept CallScheme = fc_scheme_update (\<lambda>f. f\<lparr>md_ArgsForCall := md_ArgsForCall f @ [()]\<rparr>)"
| "kept CallStatus = fc_status_update (\<lambda>f. f\<lparr>md_ArgsForCall := md_ArgsForCall f @ [()]\<rparr>)"
| "kept (CallUpdate arg1 arg2 arg3) = fc_update_update (\<lambda>f. f\<lparr>md_ArgsForCall := md_ArgsForCall f @ [(arg1, arg2, arg3)]\<rparr>)"

lemma kept_simps [simp]:
  "recorded m (kept c w) = recorded m w @ (if m = method_of c then [c] else [])"
  "planned_reply m i (kept c w) = planned_reply m i w" "stub_of m (kept c w) = stub_of m w"
  "FakeClient_Invocations (kept c w) = FakeClient_Invocations w"
  by (cases c; cases m; simp add: FakeClient_Invocations_def)+

lemma record_simps [simp]:
  "recorded m (FakeClient_recordInvocation k vs w) = recorded m w"
  "planned_reply m i (FakeClient_recordInvocation k vs w) = planned_reply m i w"
  "stub_of m (FakeClient_recordInvocation k vs w) = stub_of m w"
  by (cases m; simp add: FakeClient_recordInvocation_def)+

lemma invoked_kept [simp]: "invoked m (kept c w) = invoked m w"
  by (simp add: invoked_def)

text \<open>One call of a method without stub\<close>

lemma perform_planned:
  assumes "stub_of (method_of c) w = None"
  shows "perform S c w = (Ok (planned_reply (method_of c) (length (recorded (method_of c) w)) w),
    FakeClient_recordInvocation (method_name (method_of c)) (call_values c) (kept c w))"
  using assms by (cases c) (simp_all add: client_defs client_planned io_bind_def io_return_def callCount_def)

section \<open>The provider as it is programmed\<close>

primrec getClients ::
    "('s \<Rightarrow> 'v \<times> NamespacedName \<Rightarrow> (('v, 's, 'z) FakeClientProvider_scheme, 'v option \<times> go_error option) io)
      \<Rightarrow> ('v \<times> NamespacedName) list \<Rightarrow> (('v, 's, 'z) FakeClientProvider_scheme, ('v option \<times> go_error option) list) io" where
  "getClients run [] = io_return []"
| "getClients run (a # as) = io_bind (FakeClientProvider_GetClient run (fst a) (snd a)) (\<lambda>r.
     io_bind (getClients run as) (\<lambda>rs. io_return (r # rs)))"

lemma getClients_planned:
  assumes "md_Stub (fp_getClient w) = None"
  shows "\<exists>w'. getClients run as w = (Ok (map (\<lambda>j. planned (fp_getClient w) (callCount (fp_getClient w) + j)) [0..<length as]), w') \<and>
    fp_getClient w' = (fp_getClient w)\<lparr>md_ArgsForCall := md_ArgsForCall (fp_getClient w) @ as\<rparr>"
  using assms
proof (induction as arbitrary: w)
  case (Cons a as)
  let ?w = "FakeClientProvider_recordInvocation ''GetClient'' [Value (fst a), Key (snd a)]
    (fp_getClient_update (\<lambda>f. f\<lparr>md_ArgsForCall := md_ArgsForCall f @ [a]\<rparr>) w)"
  have one: "FakeClientProvider_GetClient run (fst a) (snd a) w = (Ok (planned (fp_getClient w) (callCount (fp_getClient w))), ?w)"
    using getClient.call_planned [OF Cons.prems] by (simp add: FakeClientProvider_GetClient_def)
  have w: "fp_getClient ?w = (fp_getClient w)\<lparr>md_ArgsForCall := md_ArgsForCall (fp_getClient w) @ [a]\<rparr>"
    by (simp add: getClient.get_rec)
  with Cons.prems have stub: "md_Stub (fp_getClient ?w) = None" by simp
  have "[0..<length (a # as)] = 0 # map Suc [0..<length as]" by (simp add: map_Suc_upt upt_conv_Cons del: upt_Suc)
  with Cons.IH [OF stub] one w show ?case
    by (auto simp: io_bind_def io_return_def callCount_def comp_def simp del: upt_Suc)
qed (simp add: io_return_def)

section \<open>Properties\<close>


definition zero_double :: "'r \<Rightarrow> ('a, 'r, 's) method_double" where
  "zero_double r = \<lparr>md_Stub = None, md_ArgsForCall = [], md_Returns = r, md_ReturnsOnCall = None\<rparr>"

definition zero_client :: "('v, 's) FakeClient" where
  "zero_client = \<lparr>fc_create = zero_double None, fc_delete = zero_double None, fc_deleteAllOf = zero_double None,
     fc_get = zero_double None, fc_list = zero_double None, fc_patch = zero_double None, fc_rESTMapper = zero_double None,
     fc_scheme = zero_double None, fc_status = zero_double None, fc_update = zero_double None, fc_invocations = None\<rparr>"


text \<open>
  Programming the double of the client provider: after \<open>GetClientReturns\<close> and \<open>GetClientReturnsOnCall\<close> a
  stub that was set no longer decides; the call with the given number, counted from the first call
  ever, has its own result, calls that were given a result earlier keep it, and all others have the
  general one. \<open>GetClientCallCount\<close> counts the calls, \<open>GetClientArgsForCall\<close> returns the arguments
  of each and panics for a number that is negative or has not been reached.
\<close>

theorem FakeClientProvider_programmed:
  "let w1 = FakeClientProvider_GetClientReturnsOnCall i c e (FakeClientProvider_GetClientReturns d de w);
       n = FakeClientProvider_GetClientCallCount w;
       earlier = (case md_ReturnsOnCall (fp_getClient w) of None \<Rightarrow> Map.empty | Some m \<Rightarrow> m)
   in \<exists>w'. getClients run args w1 = (Ok (map (\<lambda>j. if int (n + j) = i then (c, e)
         else case earlier (int (n + j)) of Some r \<Rightarrow> r | None \<Rightarrow> (d, de)) [0..<length args]), w') \<and>
       FakeClientProvider_GetClientCallCount w' = n + length args \<and>
       (\<forall>k. FakeClientProvider_GetClientArgsForCall k w' =
         (if k < int n then FakeClientProvider_GetClientArgsForCall k w
          else if k < int (n + length args) then Ok (args ! nat (k - int n)) else Panic IndexOutOfRange))"
proof -
  let ?w1 = "FakeClientProvider_GetClientReturnsOnCall i c e (FakeClientProvider_GetClientReturns d de w)"
  note defs = FakeClientProvider_GetClientReturnsOnCall_def FakeClientProvider_GetClientReturns_def
  have stub: "md_Stub (fp_getClient ?w1) = None" by (simp add: defs setReturnsOnCall_def Let_def)
  have args: "md_ArgsForCall (fp_getClient ?w1) = md_ArgsForCall (fp_getClient w)"
    by (simp add: defs setReturnsOnCall_def setReturns_def Let_def)
  have plan: "planned (fp_getClient ?w1) j = (if int j = i then (c, e)
      else case (case md_ReturnsOnCall (fp_getClient w) of None \<Rightarrow> Map.empty | Some m \<Rightarrow> m) (int j) of Some r \<Rightarrow> r | None \<Rightarrow> (d, de))" for j
    by (auto simp: defs planned_setReturnsOnCall) (auto simp: planned_def setReturns_def split: option.splits)
  from getClients_planned [OF stub, of run args] obtain w' where
    run: "getClients run args ?w1 = (Ok (map (\<lambda>j. planned (fp_getClient ?w1) (callCount (fp_getClient ?w1) + j)) [0..<length args]), w')"
    and w': "md_ArgsForCall (fp_getClient w') = md_ArgsForCall (fp_getClient w) @ args" by (auto simp: args)
  have n: "callCount (fp_getClient ?w1) = FakeClientProvider_GetClientCallCount w"
    by (simp add: callCount_def args FakeClientProvider_GetClientCallCount_def)
  have "FakeClientProvider_GetClientArgsForCall k w' =
      (if k < int (FakeClientProvider_GetClientCallCount w) then FakeClientProvider_GetClientArgsForCall k w
       else if k < int (FakeClientProvider_GetClientCallCount w + length args)
         then Ok (args ! nat (k - int (FakeClientProvider_GetClientCallCount w))) else Panic IndexOutOfRange)" for k
    by (auto simp: FakeClientProvider_GetClientArgsForCall_def FakeClientProvider_GetClientCallCount_def argsForCall_def
        callCount_def w' nth_append nat_diff_distrib)
  moreover have "FakeClientProvider_GetClientCallCount w' = FakeClientProvider_GetClientCallCount w + length args"
    by (simp add: FakeClientProvider_GetClientCallCount_def callCount_def w')
  ultimately show ?thesis using run unfolding plan n Let_def by blast
qed

end
