(* ===== verification/Double_Locks.thy ===== *)
theory Double_Locks
  imports Test_Doubles
begin

text \<open>
  The locking of the test doubles: which of their methods can be called concurrently. Goroutines
  are sequences of lock actions on the mutexes of a double; the steps interleave them in any order.
\<close>

section \<open>Goroutines and mutexes\<close>

text \<open>A double has a mutex for every method and one for the log of invocations; all are \<open>sync.RWMutex\<close>.\<close>

datatype 'm mutex = MethodMutex 'm | InvocationsMutex

datatype 'm lock_action = Lock "'m mutex" | RLock "'m mutex" | Unlock "'m mutex" | RUnlock "'m mutex"

datatype mode = Writing | Reading

record 'm goroutine =
  holding :: "'m mutex \<rightharpoonup> mode"
  todo :: "'m lock_action list"

fun locked :: "'m lock_action \<Rightarrow> ('m mutex \<rightharpoonup> mode) \<Rightarrow> ('m mutex \<rightharpoonup> mode)" where
  "locked (Lock x) h = h(x \<mapsto> Writing)"
| "locked (RLock x) h = h(x \<mapsto> Reading)"
| "locked (Unlock x) h = h(x := None)"
| "locked (RUnlock x) h = h(x := None)"

definition act :: "'m goroutine \<Rightarrow> 'm goroutine" where
  "act t = (case todo t of [] \<Rightarrow> t | a # as \<Rightarrow> \<lparr>holding = locked a (holding t), todo = as\<rparr>)"

text \<open>
  When an action does not block. A waiting \<open>Lock\<close> keeps new readers out; \<open>strict\<close> counts every
  goroutine whose next action is a \<open>Lock\<close> as waiting, otherwise none is.
\<close>

definition waiting :: "'m mutex \<Rightarrow> 'm goroutine list \<Rightarrow> bool" where
  "waiting x ts \<longleftrightarrow> (\<exists>t\<in>set ts. \<exists>as. todo t = Lock x # as)"

fun granted :: "bool \<Rightarrow> 'm lock_action \<Rightarrow> 'm goroutine list \<Rightarrow> bool" where
  "granted strict (Lock x) ts = (\<forall>t\<in>set ts. holding t x = None)"
| "granted strict (RLock x) ts = ((\<forall>t\<in>set ts. holding t x \<noteq> Some Writing) \<and> \<not> (strict \<and> waiting x ts))"
| "granted strict (Unlock x) ts = True"
| "granted strict (RUnlock x) ts = True"

inductive lock_step :: "bool \<Rightarrow> 'm goroutine list \<Rightarrow> 'm goroutine list \<Rightarrow> bool" for strict :: bool where
  step: "i < length ts \<Longrightarrow> todo (ts ! i) = a # as \<Longrightarrow> granted strict a ts \<Longrightarrow> lock_step strict ts (ts[i := act (ts ! i)])"

section \<open>The methods of a double\<close>

text \<open>
  What the methods lock: a call of the doubled method, which records the invocation while it holds
  the method's mutex; \<open>CallCount\<close> and \<open>ArgsForCall\<close>; \<open>Calls\<close>, \<open>Returns\<close> and \<open>ReturnsOnCall\<close>;
  and \<open>Invocations\<close>, whose deferred unlocks run in reverse order. A stub runs when nothing is
  locked.
\<close>

definition callLocks :: "'m \<Rightarrow> 'm lock_action list" where
  "callLocks m = [Lock (MethodMutex m), Lock InvocationsMutex, Unlock InvocationsMutex, Unlock (MethodMutex m)]"

definition readLocks :: "'m \<Rightarrow> 'm lock_action list" where
  "readLocks m = [RLock (MethodMutex m), RUnlock (MethodMutex m)]"

definition writeLocks :: "'m \<Rightarrow> 'm lock_action list" where
  "writeLocks m = [Lock (MethodMutex m), Unlock (MethodMutex m)]"

definition invocationsLocks :: "'m list \<Rightarrow> 'm lock_action list" where
  "invocationsLocks ms = RLock InvocationsMutex # map (\<lambda>m. RLock (MethodMutex m)) ms @
     map (\<lambda>m. RUnlock (MethodMutex m)) (rev ms) @ [RUnlock InvocationsMutex]"

definition client_methods :: "client_method list" where
  "client_methods = [MCreate, MDelete, MDeleteAllOf, MGet, MList, MPatch, MRESTMapper, MScheme, MStatus, MUpdate]"

text \<open>The provider has one method.\<close>

definition provider_methods :: "unit list" where
  "provider_methods = [()]"

datatype 'm double_use = Call 'm | ReadLog 'm | Program 'm | Invocations

primrec use_locks :: "'m list \<Rightarrow> 'm double_use \<Rightarrow> 'm lock_action list" where
  "use_locks ms (Call m) = callLocks m"
| "use_locks ms (ReadLog m) = readLocks m"
| "use_locks ms (Program m) = writeLocks m"
| "use_locks ms Invocations = invocationsLocks ms"

text \<open>A goroutine that makes some uses of the double, one after the other\<close>

definition goroutine_of :: "'m list \<Rightarrow> 'm double_use list \<Rightarrow> 'm goroutine" where
  "goroutine_of ms us = \<lparr>holding = Map.empty, todo = concat (map (use_locks ms) us)\<rparr>"

section \<open>Without \<open>Invocations\<close>\<close>

text \<open>
  The states of a goroutine that does not use \<open>Invocations\<close>: between two uses, or inside one, with
  the uses \<open>us\<close> still to come.
\<close>

definition uses_left :: "'m list \<Rightarrow> 'm double_use list \<Rightarrow> 'm lock_action list" where
  "uses_left ms us = concat (map (use_locks ms) us)"

inductive orderly :: "'m list \<Rightarrow> 'm goroutine \<Rightarrow> bool" for ms :: "'m list" where
  idle: "Invocations \<notin> set us \<Longrightarrow> orderly ms \<lparr>holding = Map.empty, todo = uses_left ms us\<rparr>"
| calling: "Invocations \<notin> set us \<Longrightarrow> orderly ms \<lparr>holding = [MethodMutex m \<mapsto> Writing],
    todo = Lock InvocationsMutex # Unlock InvocationsMutex # Unlock (MethodMutex m) # uses_left ms us\<rparr>"
| recording: "Invocations \<notin> set us \<Longrightarrow> orderly ms \<lparr>holding = [MethodMutex m \<mapsto> Writing, InvocationsMutex \<mapsto> Writing],
    todo = Unlock InvocationsMutex # Unlock (MethodMutex m) # uses_left ms us\<rparr>"
| leaving: "Invocations \<notin> set us \<Longrightarrow> a = Unlock (MethodMutex m) \<or> a = RUnlock (MethodMutex m) \<Longrightarrow>
    orderly ms \<lparr>holding = [MethodMutex m \<mapsto> x], todo = a # uses_left ms us\<rparr>"

lemma uses_left_simps [simp]:
  "uses_left ms [] = []" "uses_left ms (u # us) = use_locks ms u @ uses_left ms us"
  by (simp_all add: uses_left_def)

lemmas lock_lists = callLocks_def readLocks_def writeLocks_def

lemma orderly_act: "orderly ms t \<Longrightarrow> todo t = a # as \<Longrightarrow> orderly ms (act t)"
proof (induction rule: orderly.induct)
  case (idle us)
  then obtain u vs where us: "us = u # vs" by (cases us) auto
  with idle(1) have vs: "Invocations \<notin> set vs" by simp
  show ?case
  proof (cases u)
    case (Call m)
    with us orderly.calling [OF vs] show ?thesis by (simp add: act_def lock_lists)
  next
    case (ReadLog m)
    with us orderly.leaving [OF vs] show ?thesis by (simp add: act_def lock_lists)
  next
    case (Program m)
    with us orderly.leaving [OF vs] show ?thesis by (simp add: act_def lock_lists)
  qed (use idle(1) us in simp)
next
  case (calling us m)
  from orderly.recording [OF calling(1)] show ?case by (simp add: act_def)
next
  case (recording us m)
  from orderly.leaving [OF recording(1), where a = "Unlock (MethodMutex m)" and m = m and x = Writing] show ?case
    by (simp add: act_def fun_upd_twist)
next
  case (leaving us b m x)
  from orderly.idle [OF leaving(1)] leaving(2) show ?case by (auto simp: act_def)
qed

lemma orderly_run:
  assumes "(lock_step strict)\<^sup>*\<^sup>* ts ts'" and "\<forall>t\<in>set ts. orderly ms t"
  shows "\<forall>t\<in>set ts'. orderly ms t"
  using assms(1)
proof (induction rule: rtranclp_induct)
  case (step us vs)
  from step(2) obtain i a as where "i < length us" "todo (us ! i) = a # as" "vs = us[i := act (us ! i)]"
    by (cases rule: lock_step.cases) auto
  moreover from this step.IH have "orderly ms (act (us ! i))" by (intro orderly_act) (auto simp: nth_mem)
  ultimately show ?case using step.IH by (auto dest!: set_update_subset_insert [THEN subsetD])
qed (use assms(2) in blast)

text \<open>
  The order of the phases: whoever unlocks next is not blocked; if nobody does, nobody holds the mutex
  of the log, so that whoever records next is not blocked; and if nobody records, nobody holds anything.
\<close>

definition unlocking :: "'m goroutine \<Rightarrow> bool" where
  "unlocking t \<longleftrightarrow> (\<exists>x as. todo t = Unlock x # as \<or> todo t = RUnlock x # as)"

lemma orderly_holds:
  assumes "orderly ms t" and "\<not> unlocking t"
  shows "holding t InvocationsMutex = None" and "\<nexists>as. todo t = Lock InvocationsMutex # as \<Longrightarrow> holding t = Map.empty"
    and "todo t = a # as \<Longrightarrow> holding t = Map.empty \<Longrightarrow> \<exists>m. a = Lock (MethodMutex m) \<or> a = RLock (MethodMutex m)"
proof -
  show "holding t InvocationsMutex = None" and "\<nexists>as. todo t = Lock InvocationsMutex # as \<Longrightarrow> holding t = Map.empty"
    using assms by (induction rule: orderly.induct) (auto simp: unlocking_def)
  show "\<exists>m. a = Lock (MethodMutex m) \<or> a = RLock (MethodMutex m)" if "todo t = a # as" "holding t = Map.empty"
    using assms(1) that
  proof (induction rule: orderly.induct)
    case (idle us)
    then obtain u vs where "us = u # vs" by (cases us) auto
    with idle show ?case by (cases u) (auto simp: lock_lists)
  qed auto
qed

lemma orderly_progress:
  assumes all: "\<forall>t\<in>set ts. orderly ms t" and t: "t \<in> set ts" "todo t \<noteq> []"
  shows "\<exists>us. lock_step True ts us"
proof -
  have go: "\<exists>us. lock_step True ts us" if "s \<in> set ts" "todo s = a # as" "granted True a ts" for s a as
    using that lock_step.step [of _ ts a as True] by (metis in_set_conv_nth)
  show ?thesis
  proof (cases "\<exists>s\<in>set ts. unlocking s")
    case True
    then show ?thesis using go by (auto simp: unlocking_def)
  next
    case False
    with all have none: "\<forall>s\<in>set ts. holding s InvocationsMutex = None" using orderly_holds(1) by blast
    show ?thesis
    proof (cases "\<exists>s\<in>set ts. \<exists>as. todo s = Lock InvocationsMutex # as")
      case True
      with go none show ?thesis by (metis granted.simps(1))
    next
      case no_call: False
      with all False have free: "\<forall>s\<in>set ts. holding s = Map.empty" using orderly_holds(2) by blast
      from t(2) obtain a as where a: "todo t = a # as" by (cases "todo t") auto
      with all False t(1) free obtain m where "a = Lock (MethodMutex m) \<or> a = RLock (MethodMutex m)"
        using orderly_holds(3) by blast
      then show ?thesis
      proof (cases "waiting (MethodMutex m) ts")
        case True
        then obtain s bs where "s \<in> set ts" "todo s = Lock (MethodMutex m) # bs" by (auto simp: waiting_def)
        with go free show ?thesis by simp
      qed (use go [OF t(1) a] free in auto)
    qed
  qed
qed

section \<open>With \<open>Invocations\<close>\<close>

lemma lock_step_at:
  "todo t = a # as \<Longrightarrow> granted strict a (xs @ t # ys) \<Longrightarrow> lock_step strict (xs @ t # ys) (xs @ act t # ys)"
  using lock_step.step [of "length xs" "xs @ t # ys" a as strict] by simp

text \<open>\<open>Invocations\<close> takes the read locks of the methods in order, while a caller of method \<open>m\<close> has not begun.\<close>

definition reading :: "'m list \<Rightarrow> 'm mutex \<rightharpoonup> mode" where
  "reading ms = (\<lambda>x. if x = InvocationsMutex \<or> x \<in> MethodMutex ` set ms then Some Reading else None)"

lemma reading_snoc: "(reading ms)(MethodMutex m \<mapsto> Reading) = reading (ms @ [m])" "[InvocationsMutex \<mapsto> Reading] = reading []"
  by (auto simp: reading_def fun_eq_iff)

lemma Invocations_reads:
  assumes "\<forall>m'\<in>set ns. m' \<noteq> m"
  shows "(lock_step True)\<^sup>*\<^sup>*
    [goroutine_of ms [Call m], \<lparr>holding = reading pre, todo = map (\<lambda>m. RLock (MethodMutex m)) ns @ rest\<rparr>]
    [goroutine_of ms [Call m], \<lparr>holding = reading (pre @ ns), todo = rest\<rparr>]"
  using assms
proof (induction ns arbitrary: pre)
  case (Cons n ns)
  let ?c = "goroutine_of ms [Call m]"
  let ?t = "\<lparr>holding = reading pre, todo = map (\<lambda>m. RLock (MethodMutex m)) (n # ns) @ rest\<rparr>"
  have "granted True (RLock (MethodMutex n)) ([?c] @ ?t # [])"
    using Cons.prems by (auto simp: waiting_def goroutine_of_def lock_lists reading_def)
  then have "lock_step True ([?c] @ ?t # []) ([?c] @ act ?t # [])" by (intro lock_step_at) auto
  moreover have "act ?t = \<lparr>holding = reading (pre @ [n]), todo = map (\<lambda>m. RLock (MethodMutex m)) ns @ rest\<rparr>"
    by (simp add: act_def reading_snoc)
  ultimately show ?case using Cons.IH [of "pre @ [n]"] Cons.prems by (simp add: converse_rtranclp_into_rtranclp)
qed simp

lemma Invocations_blocks:
  assumes "m \<in> set ms"
  shows "\<exists>t1 t2. (lock_step True)\<^sup>*\<^sup>* [goroutine_of ms [Call m], goroutine_of ms [Invocations]] [t1, t2] \<and>
    todo t1 \<noteq> [] \<and> todo t2 \<noteq> [] \<and> (\<nexists>us. lock_step False [t1, t2] us)"
proof -
  from split_list_first [OF assms] obtain pre post where ms: "ms = pre @ m # post" and pre: "m \<notin> set pre" by blast
  let ?c = "goroutine_of ms [Call m]" and ?i = "goroutine_of ms [Invocations]"
  let ?rest = "RLock (MethodMutex m) # map (\<lambda>m. RLock (MethodMutex m)) post @ map (\<lambda>m. RUnlock (MethodMutex m)) (rev ms) @ [RUnlock InvocationsMutex]"
  let ?t1 = "\<lparr>holding = reading [], todo = map (\<lambda>m. RLock (MethodMutex m)) pre @ ?rest\<rparr>"
  let ?t2 = "\<lparr>holding = reading ([] @ pre), todo = ?rest\<rparr>"
  have i: "todo ?i = RLock InvocationsMutex # map (\<lambda>m. RLock (MethodMutex m)) pre @ ?rest"
    by (simp add: goroutine_of_def invocationsLocks_def ms)
  have "lock_step True ([?c] @ ?i # []) ([?c] @ act ?i # [])"
    by (rule lock_step_at [OF i]) (auto simp: waiting_def goroutine_of_def lock_lists invocationsLocks_def)
  moreover have "act ?i = ?t1" by (simp add: act_def i) (simp add: goroutine_of_def reading_snoc)
  ultimately have "lock_step True [?c, ?i] [?c, ?t1]" by simp
  moreover have "(lock_step True)\<^sup>*\<^sup>* [?c, ?t1] [?c, ?t2]" using pre by (intro Invocations_reads) auto
  moreover have "lock_step True ([] @ ?c # [?t2]) ([] @ act ?c # [?t2])"
    using pre by (intro lock_step_at) (auto simp: goroutine_of_def lock_lists reading_def)
  ultimately have run: "(lock_step True)\<^sup>*\<^sup>* [?c, ?i] [act ?c, ?t2]"
    by (simp add: converse_rtranclp_into_rtranclp rtranclp.rtrancl_into_rtrancl)
  have c: "act ?c = \<lparr>holding = [MethodMutex m \<mapsto> Writing],
      todo = [Lock InvocationsMutex, Unlock InvocationsMutex, Unlock (MethodMutex m)]\<rparr>"
    by (simp add: act_def goroutine_of_def lock_lists)
  have "\<not> lock_step False [act ?c, ?t2] vs" for vs
  proof
    assume "lock_step False [act ?c, ?t2] vs"
    then show False
      by (cases rule: lock_step.cases) (auto simp: c nth_Cons' reading_def split: if_splits)
  qed
  with run c show ?thesis by (intro exI [of _ "act ?c"] exI [of _ ?t2]) simp
qed

section \<open>Properties\<close>

definition actions_left :: "'m goroutine list \<Rightarrow> nat" where
  "actions_left ts = sum_list (map (\<lambda>t. length (todo t)) ts)"

lemma lock_step_decreases: "lock_step strict ts us \<Longrightarrow> actions_left us < actions_left ts"
proof (induction rule: lock_step.induct)
  case (step i ts a as)
  have "length (todo (act (ts ! i))) < length (todo (ts ! i))" using step(2) by (simp add: act_def)
  moreover have "actions_left (ts[i := act (ts ! i)]) + length (todo (ts ! i)) = actions_left ts + length (todo (act (ts ! i)))"
    using step(1) elem_le_sum_list [of i "map (\<lambda>t. length (todo t)) ts"]
    by (simp add: actions_left_def map_update sum_list_update)
  ultimately show ?case by simp
qed

text \<open>
  C40. Which uses of a double may be concurrent. Any number of goroutines may call its methods, read
  its log and change its set-up at the same time: in every state that they reach, by whatever
  interleaving, they have all finished or one of them can go on, even if waiting writers keep new
  readers out; and as every step is one action less to do, they do finish. But \<open>Invocations\<close>
  can deadlock with a call of any method, of the double of the client and of the one of the
  provider: it takes the mutex of the log before those of the methods, a call takes them in the
  other order, and two goroutines can reach a state in which neither has finished and neither can go on.
\<close>

theorem double_concurrency:
  assumes "\<forall>us\<in>set uss. Invocations \<notin> set us" and "(lock_step False)\<^sup>*\<^sup>* (map (goroutine_of ms) uss) ts"
  shows "((\<forall>t\<in>set ts. todo t = []) \<or> (\<exists>us. lock_step True ts us)) \<and>
    (\<forall>strict us. lock_step strict ts us \<longrightarrow> actions_left us < actions_left ts) \<and>
    (\<exists>t1 t2. (lock_step True)\<^sup>*\<^sup>* [goroutine_of client_methods [Call m], goroutine_of client_methods [Invocations]] [t1, t2] \<and>
      todo t1 \<noteq> [] \<and> todo t2 \<noteq> [] \<and> (\<nexists>us. lock_step False [t1, t2] us)) \<and>
    (\<exists>t1 t2. (lock_step True)\<^sup>*\<^sup>* [goroutine_of provider_methods [Call ()], goroutine_of provider_methods [Invocations]] [t1, t2] \<and>
      todo t1 \<noteq> [] \<and> todo t2 \<noteq> [] \<and> (\<nexists>us. lock_step False [t1, t2] us))"
proof -
  have "\<forall>t\<in>set (map (goroutine_of ms) uss). orderly ms t"
    using assms(1) orderly.idle by (fastforce simp: goroutine_of_def uses_left_def)
  from orderly_run [OF assms(2) this] orderly_progress [of ts ms]
  have "(\<forall>t\<in>set ts. todo t = []) \<or> (\<exists>us. lock_step True ts us)" by blast
  moreover have "m \<in> set client_methods" by (cases m) (simp_all add: client_methods_def)
  moreover have "() \<in> set provider_methods" by (simp add: provider_methods_def)
  ultimately show ?thesis by (intro conjI Invocations_blocks) (use lock_step_decreases in blast)+
qed

theorem double_concurrency_witness:
  "\<exists>us. lock_step True [act (goroutine_of client_methods [Call MCreate]), goroutine_of client_methods [ReadLog MCreate, Program MCreate]] us"
proof -
  let ?uss = "[[Call MCreate], [ReadLog MCreate, Program MCreate]]"
  let ?ts = "[act (goroutine_of client_methods [Call MCreate]), goroutine_of client_methods [ReadLog MCreate, Program MCreate]]"
  have "lock_step False ([] @ goroutine_of client_methods [Call MCreate] # [goroutine_of client_methods [ReadLog MCreate, Program MCreate]])
      ([] @ act (goroutine_of client_methods [Call MCreate]) # [goroutine_of client_methods [ReadLog MCreate, Program MCreate]])"
    by (rule lock_step_at [where a = "Lock (MethodMutex MCreate)"]) (simp_all add: goroutine_of_def lock_lists)
  then have run: "(lock_step False)\<^sup>*\<^sup>* (map (goroutine_of client_methods) ?uss) ?ts" by simp
  have "todo (goroutine_of client_methods [ReadLog MCreate, Program MCreate]) \<noteq> []" by (simp add: goroutine_of_def lock_lists)
  with double_concurrency [OF _ run] show ?thesis by auto
qed

end
