(* ===== verification/Spec2Isabelle.thy ===== *)
theory Spec2Isabelle
  imports Name_Resolution Cache_Store Controller_Program DNS_Server_Program DNS_Config GatewayDNS_Queue DNS_Idle Deep_Copy Double_Locks
begin

text \<open>
  Cross-cluster connectivity: DNS names for the ingress gateways of Cluster API clusters.

  \<^bold>\<open>The program.\<close> Users create \<open>GatewayDNS\<close> objects on a management cluster; each selects
  clusters by labels and names a service, the ingress gateway of the selected clusters.

    \<^item> The GatewayDNS controller (\<open>cmd/xcc-dns-controller\<close>, \<open>pkg/controllers/gatewaydns\<close>) runs on
      the management cluster. For each GatewayDNS it lists the selected clusters
      (\<open>cluster_searcher.go\<close>), reads the load balancer addresses of their gateways
      (\<open>cluster_gateway_collector.go\<close>), and brings every workload cluster of the namespace to have
      one EndpointSlice per gateway, annotated with the gateway's host name
      (\<open>cluster_gateway.go\<close>, \<open>endpoint_slice_reconciler.go\<close>).
    \<^item> The DNS server (\<open>cmd/dns-server\<close>) runs on the workload clusters. A controller
      (\<open>pkg/controllers/endpointslicedns/controller.go\<close>) copies the annotated slices into a record
      cache (\<open>cache.go\<close>), and a CoreDNS plugin (\<open>pkg/coredns/plugins/crosscluster\<close>) answers
      queries from it.
    \<^item> The patcher (\<open>cmd/dns-config-patcher\<close>, \<open>pkg/dnsconfig\<close>) waits for the address of the DNS
      server's service and adds a server block to the cluster's own CoreDNS configuration that
      forwards the domain there.

  The components meet in the EndpointSlices of a workload cluster (written by the first controller,
  read by the second), in the record cache (written by the second, read by the plugin) and in the
  Corefile.

  \<^bold>\<open>The theories.\<close> Each theory has the state and the operations of its part, in the order of
  the code, then its invariants and lemmas, then its properties with witnesses.

    \<^item> \<open>Go_Prelude\<close>: Go's results, errors and panics as values, calls that act on a world
      (\<open>io\<close>, with \<open>io_bind\<close> for the usual check of the error and \<open>io_handle\<close> where the code looks at it),
      slices, maps that may be nil, and package \<open>strings\<close>. \<open>Net_IP\<close>: \<open>net.ParseIP\<close> and
      \<open>IP.String\<close>, with the round trip that the cache relies on. \<open>Go_Duration\<close>:
      \<open>time.ParseDuration\<close> on 64-bit words.
    \<^item> \<open>Kube_API\<close>: the API objects (\<open>apis/connectivity/v1alpha1\<close> and those of Kubernetes that the
      code reads), and the locale \<open>kube_names\<close> for the library functions on names and selectors.
    \<^item> \<open>DNS_Cache\<close>: \<open>cache.go\<close>, two maps and their operations; \<open>cache_wf\<close> says that the maps
      agree. The locale \<open>record_store\<close> is what the controller needs of the cache, a store by resource
      key; \<open>dns_names\<close>, what the cache needs of the DNS library, gives it. \<open>Cache_Store\<close>: the same
      operations on the arrays that Go's slices point to; \<open>cache_of\<close> is the abstraction to
      \<open>DNS_Cache\<close> and \<open>store_wf\<close> keeps the arrays of different names apart.
    \<^item> \<open>EndpointSlice_DNS\<close>: \<open>Reconcile\<close> of the DNS server's controller, and the controller in its
      environment as a step relation (\<open>dns_step\<close>): changes, reconciliations in any order, failures
      and restarts after a panic. The invariant \<open>dns_inv\<close> is proved by rule induction. \<open>DNS_Idle\<close>: its
      watch, which is the step \<open>change\<close>, and the steps it takes when nothing changes (\<open>dns_work\<close>), with
      the measure \<open>work_left\<close>.
    \<^item> \<open>Cluster_Client\<close>, \<open>Management_Client\<close>: the clients of both kinds of API server as parameters
      on an abstract world, with the laws of the API in the locales \<open>cluster_world\<close>,
      \<open>mgmt_world\<close> and \<open>controller_world\<close>, interpreted on servers in memory that can be unreachable.
    \<^item> \<open>Cluster_Gateway\<close>: \<open>cluster_gateway.go\<close>, \<open>cluster_gateway_collector.go\<close> and
      \<open>cluster_searcher.go\<close>. \<open>gateways_of\<close> is the specification of the collector.
    \<^item> \<open>EndpointSlice_Diff\<close>, \<open>EndpointSlice_Convergence\<close>: \<open>endpoint_slice_reconciler.go\<close>.
      \<open>converge_spec\<close> says, as a function on maps, what slices a cluster has afterwards;
      \<open>convergeCluster\<close> refines it for every order in which Go ranges over its maps
      (locale \<open>map_ranges\<close>).
    \<^item> \<open>GatewayDNS_Controller\<close>: \<open>controller.go\<close> of the same package, with the poll, the map from
      clusters to requests, and the watches. \<open>GatewayDNS_Queue\<close>: lists of requests one after another, with
      the invariant \<open>slice_progress\<close> of the slice of one gateway.
    \<^item> \<open>CrossCluster_Plugin\<close>: the CoreDNS plugin, backend, handler and setup; the locale
      \<open>coredns\<close> states what it relies on.
    \<^item> \<open>DNS_Config\<close>: \<open>corefile_patcher.go\<close>, \<open>dns_service_watcher.go\<close> and the patcher's
      \<open>main\<close>, on a world of ConfigMaps and services (locales \<open>config_world\<close>, \<open>config_wait\<close>).
    \<^item> \<open>Controller_Program\<close>, \<open>DNS_Server_Program\<close>: the \<open>main\<close> of the controller and of the server, with
      the server's configuration.
    \<^item> \<open>Deep_Copy\<close>: \<open>zz_generated.deepcopy.go\<close> over an explicit memory. The locale \<open>deep_copier\<close> is the
      contract of a copy; \<open>meta_copiers\<close> assumes it of the Kubernetes types, and sublocales show that
      the copies of this package keep it.
    \<^item> \<open>Test_Doubles\<close>, \<open>Double_Locks\<close>: the generated doubles of the client and of the client provider
      (\<open>gatewaydnsfakes\<close>). All methods are instances of one record \<open>method_double\<close> with its operations
      (locale \<open>double_field\<close>); the second theory has the lock actions of the methods and their interleavings.
    \<^item> \<open>Name_Resolution\<close> and this theory: the way of a name through all components.

  \<^bold>\<open>What is shown.\<close> \<open>gateway_name_resolves\<close> is the property of the whole: names below a
  selected gateway resolve to the addresses of its load balancer.

    \<^item> Management side (\<open>Cluster_Gateway\<close> to \<open>GatewayDNS_Controller\<close>): a reconciliation without error
      announces exactly the selected gateways and leaves nothing stale; one cluster that fails does
      not keep the others from converging; a second run changes nothing; every change that matters is requested;
      and a list of requests in any order leaves every gateway announced, as no request undoes another.
    \<^item> DNS server (\<open>DNS_Cache\<close>, \<open>Cache_Store\<close>, \<open>EndpointSlice_DNS\<close>, \<open>CrossCluster_Plugin\<close>): the cache
      refines a map by resource key, its array operations refine the cache, its invariant is kept,
      lookups find the most specific name; once the queue is empty the cache agrees with the slices,
      and it becomes empty after a bounded number of steps; the plugin answers from it.
    \<^item> Patcher (\<open>DNS_Config\<close>): it ends, the patched Corefile forwards the domain, and stripping
      undoes appending. Programs: consistent configuration, bounds of the polling interval, and
      directives that fit the imported plugins.
    \<^item> Generated code: deep copies share no memory with their originals; the doubles log every call and
      reply as they are told, and can be used concurrently but for \<open>Invocations\<close>.

  Some properties record behaviour that the code hardly means to have:
  \<open>lookup_slice_overwritten\<close> (a reader of the cache sees an array that is being changed),
  \<open>Reconcile_deleted_slice\<close> (a panic on the deletion of an unknown slice),
  \<open>DeleteByResourceKey_shadows_wildcard\<close> (an empty name hides a wildcard), \<open>Reconcile_ignores_slice\<close> (a stale
  entry), \<open>GatewayDNS_take_over\<close> (two GatewayDNS fight over a slice), \<open>AppendStubDomainBlock_patches\<close> (a
  panic on a ConfigMap without data), \<open>stripXCCBlock_drops_between_sections\<close> (text between sections
  is lost), \<open>xcc_main_interval\<close> (a negative interval) and \<open>double_concurrency\<close> (a deadlock in the test doubles).

  \<^bold>\<open>Parameters and hypotheses.\<close> Library code is a parameter: the functions of the DNS library
  (\<open>dns_lib\<close>), of apimachinery (\<open>kube_lib\<close>), of CoreDNS (\<open>coredns_lib\<close>, \<open>setup_lib\<close>), of the controller
  library (\<open>handler_lib\<close>, \<open>xcc_lib\<close>) and the clients. The locales state their documented behaviour, each has
  an interpretation on executable functions, and the witnesses evaluate the properties there. Calls may fail at any time;
  no property assumes that a call succeeds unless it says so. The worlds are abstract, so a call
  may change whatever the laws do not fix.

  \<^bold>\<open>Loops and bounds.\<close> Loops over slices are structural recursion. The wait for the service's
  address is a partial function whose value is \<open>None\<close> when it does not return; \<open>GetDNSServiceClusterIP_returns\<close> shows that it
  returns once the wait ends at a deadline. A list of requests is processed by a fold; the DNS
  controller's own steps are bounded by the requests and slices there are. The poll is an endless loop; the model has its first
  \<open>n\<close> rounds, for every \<open>n\<close>. Durations are 64-bit words; other numbers of the code stay far from the ends of
  their types and are unbounded here.

  \<^bold>\<open>Not modelled.\<close> The mutex itself: every method of the cache holds it for its whole body, so each is
  one step; what escapes it, the slice that a lookup returns, is modelled in \<open>Cache_Store\<close>. Log
  lines, except those of the DNS controller that report invalid names. The build tools, and the
  registration of types with a scheme in the \<open>init\<close> functions, which are library calls. The memory of
  objects outside \<open>Cache_Store\<close> and \<open>Deep_Copy\<close>: elsewhere they are values. In the doubles, the difference
  between a variadic argument that is \<open>nil\<close> and one that is empty. The bodies of CoreDNS, of the
  controller library and of the API servers, which the repository only calls.
\<close>

section \<open>The whole path of a gateway's name\<close>

text \<open>The domain of the gateway of a cluster; its host name is the wildcard of this domain.\<close>

definition gatewayDomain :: "ClusterGatewayCollector \<Rightarrow> Cluster \<Rightarrow> string" where
  "gatewayDomain e c = ''gateway.'' @ cl_Name c @ ''.'' @ cl_Namespace c @ ''.clusters.'' @ col_DomainSuffix e"

lemma hostname_wildcard: "hostnameOf e c = ''*.'' @ gatewayDomain e c"
  by (simp add: hostnameOf_def gatewayDomain_def)

text \<open>
  C1. From the management cluster to a DNS answer. The GatewayDNS \<open>g\<close> has been reconciled without
  error and selects cluster \<open>c2\<close>, whose service is a load balancer with addresses. In a cluster
  \<open>c\<close> of the namespace, the DNS server has seen the slice of that gateway and its work queue is
  empty; no other resource of its cache carries the gateway's wildcard, and the name that is asked
  for has no entry of its own. Then a query of type A for any name \<open>x.gateway.<c2>.<namespace>.clusters.<suffix>\<close>
  in any case is answered authoritatively with exactly the addresses of the load balancer (those
  that are IP addresses). The only exception is that \<open>c2\<close> did not answer the controller; then
  the slice is as it was before.
\<close>

theorem gateway_name_resolves:
  assumes ctl: "gatewaydns_controller A V cluster_of M MV R K" and lib: "dns_names L" "coredns P newA"
    and cfg: "col_Namespace (gr_ClusterGatewayCollector r) = gr_Namespace r"
    and run: "GatewayDNSReconciler_Reconcile K R A M r req w = (Ok (), w')" and g: "gdns MV w req = Some g"
    and svc: "svc = newNamespacedNameFromString K (spec_Service (gd_Spec g))"
    and c: "clusters MV w (cl_key c) = Some c" "cl_Namespace c = Namespace req" "gr_Namespace r \<in> nss V w (cl_key c)"
    and c2: "c2 \<in> selected_clusters K MV w g"
    and s: "svcs V w (cl_key c2) svc = Some s" "svc_Type s = ServiceTypeLoadBalancer" "svc_Ingress s \<noteq> []"
    and ips: "\<forall>i\<in>set (map ing_IP (svc_Ingress s)). ParseIP i \<noteq> None \<longrightarrow> ipv4_host i"
      "resolved (map ing_IP (svc_Ingress s)) \<noteq> []"
    and k: "k = \<lparr>Namespace = gr_Namespace r, Name = sliceNameOf (cl_key c2)\<rparr>" "valid_name K k"
    and dns: "dns_reachable L K S" "queue S = {}" "slices S k = objs V w' (cl_key c) k"
    and name: "name = gatewayDomain (gr_ClusterGatewayCollector r) c2" "plain_host name" "plain_label x" "strings_ToLower x = x"
    and own: "\<forall>key e. LookupByResourceKey (cache S) key = Some e \<and>
      CanonicalName L (FQDN e) = CanonicalName L (''*.'' @ name) \<longrightarrow> key = nnString K k"
    and free: "entriesOf (cache S) (x @ ''.'' @ name @ ''.'') = None"
    and plugin: "RecordsCache pl = cache S" "Matches P (Zones pl) (QName q) \<noteq> ''''"
    and q: "QType q = TypeA" "strings_ToLower (QName q) = x @ ''.'' @ name @ ''.''"
  shows "(\<exists>m. ServeDNS L P now pl q = (RcodeSuccess, None, [m]) \<and> msg_Rcode m = RcodeSuccess \<and> msg_Authoritative m \<and>
      set (msg_Answer m) = (\<lambda>h. newA (QName q) \<lparr>Host = h, TTL = 30\<rparr>) ` set (resolved (map ing_IP (svc_Ingress s))))
    \<or> ((\<exists>v. same_objects V w v \<and> \<not> query_ok A svc c2 v) \<and>
       map_option strip (objs V w' (cl_key c) k) = map_option strip (objs V w (cl_key c) k))"
  using announced_unless_unqueried [OF ctl cfg run g svc c c2 s k(1)]
proof (elim disjE exE conjE)
  fix e assume e: "objs V w' (cl_key c) k = Some e"
    and ann: "announces K req (hostnameOf (gr_ClusterGatewayCollector r) c2) (map ing_IP (svc_Ingress s)) e"
  have "kube_names K" using ctl by (simp add: gatewaydns_controller_def)
  with lib(1) have dc: "dns_controller L K" by (rule dns_controller.intro)
  have hosts: "hosts L pl (QName q) = resolved (map ing_IP (svc_Ingress s))"
    by (rule dns_controller.announced_hosts [OF dc dns(1,2) k(2) _ _ name(2,3,4) _ free plugin(1) q(2)])
      (use dns(3) e ann own in \<open>simp_all add: hostname_wildcard name(1)\<close>)
  with ips(1) have "\<forall>h\<in>set (hosts L pl (QName q)). ipv4_host h" by (metis resolved_ipv4)
  from coredns.ServeDNS_hosts [OF lib(2) q(1) plugin(2) this, of now] show ?thesis
    using ips(2) unfolding hosts by auto
qed blast

text \<open>
  The DNS server of cluster \<open>c\<close> of the example: it starts with the slice of the gateway of cluster
  \<open>a\<close>, which it then reconciles.
\<close>

definition ex_slice_key :: NamespacedName where
  "ex_slice_key = \<lparr>Namespace = ''xcc'', Name = ''dev-a-gateway''\<rparr>"

definition ex_dns_entry :: DNSCacheEntry where
  "ex_dns_entry = \<lparr>ResourceKey = ''xcc/dev-a-gateway'', FQDN = ''*.gateway.a.dev.clusters.xcc.test'',
     Addresses = [''1.2.3.4'', ''1.2.3.5'']\<rparr>"

definition ex_dns_sys :: dns_sys where
  "ex_dns_sys = \<lparr>slices = [ex_slice_key \<mapsto> ex_want], cache = Upsert plain_dns newDNSCache ex_dns_entry, queue = {}\<rparr>"

lemma ex_want_entry: "slice_entry (nnString slash_kube ex_slice_key) ex_want = Some ex_dns_entry"
  by code_simp

lemma ex_dns_reachable: "dns_reachable plain_dns slash_kube ex_dns_sys"
proof -
  let ?m = "[ex_slice_key \<mapsto> ex_want]"
  obtain r d' ls where rec: "EndpointSliceReconciler_Reconcile plain_dns slash_kube (apiGet ?m) newDNSCache ex_slice_key = (r, d', ls)"
    by (metis prod_cases3)
  have get: "apiGet ?m ex_slice_key = Ok ex_want" by (simp add: apiGet_def)
  note found = Reconcile_found [OF get rec, unfolded ex_want_entry]
  have "valid_name slash_kube ex_slice_key" by code_simp
  then have "dns_reachable plain_dns slash_kube (dns_start ?m)" by (intro dns_reachable.start) simp
  moreover have "dns_step plain_dns slash_kube (dns_start ?m)
      ((dns_start ?m)\<lparr>cache := d', queue := queue (dns_start ?m) - {ex_slice_key}\<rparr>)"
    using rec found(1) by (intro dns_step.reconciled) (simp_all add: dns_start_def)
  ultimately have "dns_reachable plain_dns slash_kube ((dns_start ?m)\<lparr>cache := d', queue := queue (dns_start ?m) - {ex_slice_key}\<rparr>)"
    by (rule dns_reachable.step)
  then show ?thesis using found(2) by (simp add: ex_dns_sys_def dns_start_def)
qed

lemma ex_dns_find:
  "LookupByResourceKey (cache ex_dns_sys) key = Some e \<Longrightarrow> key = nnString slash_kube ex_slice_key"
proof -
  assume *: "LookupByResourceKey (cache ex_dns_sys) key = Some e"
  have "nnString slash_kube ex_slice_key = ResourceKey ex_dns_entry" by code_simp
  moreover have "LookupByResourceKey newDNSCache key = None"
    by (simp add: LookupByResourceKey_def newDNSCache_def nilMaps_def)
  ultimately show ?thesis using *
    by (auto simp: ex_dns_sys_def plain.LookupByResourceKey_Upsert [OF cache_wf_new] split: if_splits)
qed

definition ex_dns_plugin :: CrossCluster where
  "ex_dns_plugin = \<lparr>RecordsCache = cache ex_dns_sys, Zones = [''xcc.test.'']\<rparr>"

definition ex_query :: request where
  "ex_query = \<lparr>QName = ''Shop.gateway.a.dev.clusters.xcc.test.'', QType = TypeA\<rparr>"

theorem gateway_name_resolves_witness:
  "\<exists>m. ServeDNS plain_dns simple_coredns 0 ex_dns_plugin ex_query = (RcodeSuccess, None, [m]) \<and>
     set (msg_Answer m) = {(QName ex_query, \<lparr>Host = ''1.2.3.4'', TTL = 30\<rparr>), (QName ex_query, \<lparr>Host = ''1.2.3.5'', TTL = 30\<rparr>)}"
proof -
  let ?svc = "newNamespacedNameFromString slash_kube (spec_Service (gd_Spec ex_gdns))"
  let ?name = "gatewayDomain (gr_ClusterGatewayCollector ex_reconciler) (ex_cluster ''a'')"
  have svc: "?svc = \<lparr>Namespace = ''ingress'', Name = ''envoy''\<rparr>" by code_simp
  have ns: "cl_Namespace (ex_cluster ''c'') = Namespace ex_gw" "gr_Namespace ex_reconciler \<in> nss mem_view ex_up (cl_key (ex_cluster ''c''))"
    by (simp_all add: ex_cluster_def ex_gw_def ex_gdns_def gd_key_def ex_reconciler_def mem_view_def mem_nss_def ex_up_def ex_world_def)
  have s: "svcs mem_view ex_up (cl_key (ex_cluster ''a'')) ?svc = Some ex_lb" "svc_Type ex_lb = ServiceTypeLoadBalancer" "svc_Ingress ex_lb \<noteq> []"
    by (simp_all add: svc mem_view_def mem_svcs_def ex_up_def ex_world_def ex_lb_def)
  have ips: "\<forall>i\<in>set (map ing_IP (svc_Ingress ex_lb)). ParseIP i \<noteq> None \<longrightarrow> ipv4_host i"
    "resolved (map ing_IP (svc_Ingress ex_lb)) \<noteq> []" and two: "resolved (map ing_IP (svc_Ingress ex_lb)) = [''1.2.3.4'', ''1.2.3.5'']"
    by code_simp+
  have k: "ex_slice_key = \<lparr>Namespace = gr_Namespace ex_reconciler, Name = sliceNameOf (cl_key (ex_cluster ''a''))\<rparr>"
    "valid_name slash_kube ex_slice_key" by code_simp+
  have key: "es_key ex_want = ex_slice_key" by code_simp
  have here: "slices ex_dns_sys ex_slice_key = objs mem_view ex_up' (cl_key (ex_cluster ''c'')) ex_slice_key"
    by (simp add: ex_up'_def mem_view_def ex_dns_sys_def flip: key)
  have name: "plain_host ?name" "plain_label ''shop''" "strings_ToLower ''shop'' = ''shop''" by code_simp+
  have free: "entriesOf (cache ex_dns_sys) (''shop'' @ ''.'' @ ?name @ ''.'') = None" by code_simp
  have plugin: "RecordsCache ex_dns_plugin = cache ex_dns_sys" by (simp add: ex_dns_plugin_def)
  have zone: "Matches simple_coredns (Zones ex_dns_plugin) (QName ex_query) \<noteq> ''''" by code_simp
  have q: "QType ex_query = TypeA" "strings_ToLower (QName ex_query) = ''shop'' @ ''.'' @ ?name @ ''.''" by code_simp+
  have own: "\<forall>key e. LookupByResourceKey (cache ex_dns_sys) key = Some e \<and>
      CanonicalName plain_dns (FQDN e) = CanonicalName plain_dns (''*.'' @ ?name) \<longrightarrow> key = nnString slash_kube ex_slice_key"
    using ex_dns_find by blast
  have idle: "queue ex_dns_sys = {}" by (simp add: ex_dns_sys_def)
  have new: "map_option strip (objs mem_view ex_up' (cl_key (ex_cluster ''c'')) ex_slice_key)
      \<noteq> map_option strip (objs mem_view ex_up (cl_key (ex_cluster ''c'')) ex_slice_key)"
    unfolding here [symmetric] by (simp add: ex_dns_sys_def mem_view_def mem_objs_def ex_up_def ex_world_def)
  from gateway_name_resolves [where now = 0, OF mem_gdc.gatewaydns_controller_axioms plain.dns_names_axioms simple.coredns_axioms ex_reconciler_ok
      ex_reconcile ex_gdns_view refl ex_cluster_view ns ex_selected s ips k ex_dns_reachable idle here refl name
      own free plugin zone q] new
  show ?thesis unfolding two by auto
qed

end
